(* ===== verification/Prelude.thy ===== *)
theory Prelude
  imports Main "HOL-Library.Word" "HOL-Library.Monad_Syntax" "HOL-Library.AList" "HOL-Library.Multiset"
begin

text \<open>
  The vocabulary shared by every component: machine integers, results, panics, time,
  slices and a few generic facts about lists and association lists.

  \<^item> A Rust \<open>Result<T, E>\<close> is the sum \<open>'e + 'a\<close>; \<open>Ok\<close> and \<open>Err\<close> abbreviate its
    injections and \<open>and_then\<close> is the \<open>?\<close> operator.
  \<^item> A computation that may panic has type \<open>'a option\<close>, with \<open>None\<close> for the panic.
  \<^item> \<open>Duration\<close> and \<open>Instant\<close> count nanoseconds.
  \<^item> A Rust \<open>String\<close> is its UTF-8 encoding, one \<open>char\<close> per byte.
\<close>

unbundle bit_operations_syntax

named_theorems config_defaults \<open>the default configuration, field by field\<close>
named_theorems cache_eval \<open>evaluation of the replay cache over the list instance\<close>

subsection \<open>Machine integers, bytes and text\<close>

type_synonym u8 = "8 word"
type_synonym u16 = "16 word"
type_synonym u32 = "32 word"
type_synonym u64 = "64 word"
type_synonym i64 = "64 word"
type_synonym bytes = "u8 list"
type_synonym path = string

definition u16_to_be_bytes :: "u16 \<Rightarrow> u8 \<times> u8" where
  "u16_to_be_bytes w = (ucast (drop_bit 8 w), ucast w)"

definition u16_from_be_bytes :: "u8 \<Rightarrow> u8 \<Rightarrow> u16" where
  "u16_from_be_bytes hi lo = push_bit 8 (ucast hi) OR ucast lo"

definition saturating_sub :: "'a::len word \<Rightarrow> 'a word \<Rightarrow> 'a word" where
  "saturating_sub a b = (if b \<le> a then a - b else 0)"

definition saturating_add :: "'a::len word \<Rightarrow> 'a word \<Rightarrow> 'a word" where
  "saturating_add a b =
     (if unat a + unat b < 2 ^ LENGTH('a) then a + b else - 1)"

lemma u16_be_roundtrip [simp]:
  "u16_from_be_bytes (fst (u16_to_be_bytes w)) (snd (u16_to_be_bytes w)) = w"
  by (rule bit_word_eqI) (auto simp: u16_from_be_bytes_def u16_to_be_bytes_def bit_simps)

lemma u16_to_from_be [simp]: "u16_to_be_bytes (u16_from_be_bytes a b) = (a, b)"
proof -
  have "\<not> bit b (8 + n)" for n
    using bit_imp_le_length [of b "8 + n"] by auto
  then show ?thesis
    by (auto simp: u16_from_be_bytes_def u16_to_be_bytes_def bit_simps intro!: bit_word_eqI)
qed

lemma unat_saturating_sub: "unat (saturating_sub a b) = unat a - unat b"
  by (auto simp: saturating_sub_def unat_sub_if_size word_le_nat_alt)

lemma unat_saturating_add:
  "unat (saturating_add (a::'a::len word) b) = min (unat a + unat b) (2 ^ LENGTH('a) - 1)"
proof (cases "unat a + unat b < 2 ^ LENGTH('a)")
  case True
  then show ?thesis
    by (simp add: saturating_add_def unat_word_ariths)
next
  case False
  then show ?thesis
    by (simp add: saturating_add_def unsigned_minus_1_eq_mask mask_eq_exp_minus_1)
qed

subsection \<open>Results and panics\<close>

abbreviation Ok :: "'a \<Rightarrow> 'e + 'a" where
  "Ok \<equiv> Inr"

abbreviation Err :: "'e \<Rightarrow> 'e + 'a" where
  "Err \<equiv> Inl"

definition and_then :: "'e + 'a \<Rightarrow> ('a \<Rightarrow> 'e + 'b) \<Rightarrow> 'e + 'b" where
  "and_then r f = (case r of Err e \<Rightarrow> Err e | Ok a \<Rightarrow> f a)"

definition map_err :: "('e \<Rightarrow> 'f) \<Rightarrow> 'e + 'a \<Rightarrow> 'f + 'a" where
  "map_err g r = (case r of Err e \<Rightarrow> Err (g e) | Ok a \<Rightarrow> Ok a)"

definition ok_or :: "'a option \<Rightarrow> 'e \<Rightarrow> 'e + 'a" where
  "ok_or v e = (case v of None \<Rightarrow> Err e | Some a \<Rightarrow> Ok a)"

lemma and_then_simps [simp]:
  "and_then (Ok a) f = f a" "and_then (Err e) f = Err e"
  by (simp_all add: and_then_def)

lemma map_err_simps [simp]:
  "map_err g (Ok a) = Ok a" "map_err g (Err e) = Err (g e)"
  by (simp_all add: map_err_def)

lemma ok_or_simps [simp]:
  "ok_or (Some a) e = Ok a" "ok_or None e = Err e"
  by (simp_all add: ok_or_def)

lemma and_then_eq_Ok: "and_then r f = Ok b \<longleftrightarrow> (\<exists>a. r = Ok a \<and> f a = Ok b)"
  by (cases r) auto

lemma and_then_eq_Err:
  "and_then r f = Err e \<longleftrightarrow> r = Err e \<or> (\<exists>a. r = Ok a \<and> f a = Err e)"
  by (cases r) auto

lemma map_err_eq_Ok [simp]: "map_err g r = Ok a \<longleftrightarrow> r = Ok a"
  by (cases r) auto

lemma ok_or_eq_Ok [simp]: "ok_or v e = Ok a \<longleftrightarrow> v = Some a"
  by (cases v) auto

lemma unat_of_nat_small: "n < 2 ^ LENGTH('a) \<Longrightarrow> unat (of_nat n :: 'a::len word) = n"
  by (simp add: unsigned_of_nat take_bit_nat_eq_self)

lemma one_le_word: "1 \<le> x \<longleftrightarrow> x \<noteq> 0" for x :: "'a::len word"
  by (metis not_less word_less_1)

text \<open>A guard with an early return.\<close>

lemma guard_eq_Ok: "(if c then Err e else r) = Ok a \<longleftrightarrow> \<not> c \<and> r = Ok a"
  by simp

subsection \<open>Slices: out of range is a panic\<close>

definition slice_to :: "'a list \<Rightarrow> nat \<Rightarrow> 'a list option" where
  "slice_to xs n = (if n \<le> length xs then Some (take n xs) else None)"

definition slice_from :: "'a list \<Rightarrow> nat \<Rightarrow> 'a list option" where
  "slice_from xs n = (if n \<le> length xs then Some (drop n xs) else None)"

definition slice_range :: "'a list \<Rightarrow> nat \<Rightarrow> nat \<Rightarrow> 'a list option" where
  "slice_range xs a b =
     (if a \<le> b \<and> b \<le> length xs then Some (take (b - a) (drop a xs)) else None)"

definition split_at :: "'a list \<Rightarrow> nat \<Rightarrow> ('a list \<times> 'a list) option" where
  "split_at xs n = (if n \<le> length xs then Some (take n xs, drop n xs) else None)"

lemmas slice_defs = slice_to_def slice_from_def slice_range_def split_at_def

lemma split_at_append [simp]: "split_at (xs @ ys) (length xs) = Some (xs, ys)"
  by (simp add: split_at_def)

subsection \<open>Time\<close>

text \<open>
  \<open>Duration\<close> and \<open>Instant\<close> are nanosecond counts. \<open>checked_duration_since\<close> is the
  standard library's: \<open>None\<close> when the other instant is later; \<open>duration_since\<close>
  saturates at zero.
\<close>

type_synonym duration = nat
type_synonym instant = nat

definition from_secs :: "nat \<Rightarrow> duration" where
  "from_secs s = s * 1000000000"

definition from_millis :: "nat \<Rightarrow> duration" where
  "from_millis ms = ms * 1000000"

definition as_secs :: "duration \<Rightarrow> nat" where
  "as_secs d = d div 1000000000"

definition subsec_nanos :: "duration \<Rightarrow> nat" where
  "subsec_nanos d = d mod 1000000000"

definition checked_duration_since :: "instant \<Rightarrow> instant \<Rightarrow> duration option" where
  "checked_duration_since now earlier =
     (if earlier \<le> now then Some (now - earlier) else None)"

definition duration_since :: "instant \<Rightarrow> instant \<Rightarrow> duration" where
  "duration_since now earlier = now - earlier"

lemma as_secs_from_secs [simp]: "as_secs (from_secs s) = s"
  by (simp add: as_secs_def from_secs_def)

lemma as_secs_mono: "d \<le> e \<Longrightarrow> as_secs d \<le> as_secs e"
  by (simp add: as_secs_def div_le_mono)

subsection \<open>I/O errors of the standard library\<close>

datatype io_error = NotFound | WouldBlock | TimedOut | InvalidData | OtherIo nat

subsection \<open>Lists and association lists\<close>

lemma take_drop_chunks:
  "take a xs @ take b (drop a xs) @ drop (a + b) xs = xs"
  "take a xs @ take b (drop a xs) @ drop (a + b) xs @ ys = xs @ ys"
proof -
  show *: "take a xs @ take b (drop a xs) @ drop (a + b) xs = xs"
    by (metis append_take_drop_id drop_drop add.commute)
  then show "take a xs @ take b (drop a xs) @ drop (a + b) xs @ ys = xs @ ys"
    by (metis append.assoc)
qed

lemma filter_neq_key_id:
  "k \<notin> fst ` set xs \<Longrightarrow> filter (\<lambda>(k', _). k' \<noteq> k) xs = xs"
  by (induction xs) auto

lemma filter_fst_other: "k \<notin> fst ` set xs \<Longrightarrow> filter (\<lambda>e. fst e \<noteq> k) xs = xs"
  by (induction xs) auto

lemma distinct_map_fst_filter [simp]:
  "distinct (map fst xs) \<Longrightarrow> distinct (map fst (filter P xs))"
  by (induction xs) auto

lemma map_of_filter_key:
  "map_of (filter (\<lambda>(k', _). k' \<noteq> k) xs) = (map_of xs)(k := None)"
  by (induction xs) (auto simp: fun_eq_iff)

lemma map_of_perm:
  "mset xs = mset ys \<Longrightarrow> distinct (map fst xs) \<Longrightarrow> map_of xs = map_of ys"
proof -
  assume p: "mset xs = mset ys" and d: "distinct (map fst xs)"
  from p have "mset (map fst xs) = mset (map fst ys)"
    by (metis mset_map)
  with d have "distinct (map fst ys)"
    using mset_eq_imp_distinct_iff by blast
  moreover from p have "set xs = set ys"
    using mset_eq_setD by blast
  ultimately show "map_of xs = map_of ys"
    using d by (metis map_of_inject_set)
qed

lemma fst_in_set_butlast: "k \<in> fst ` set (butlast xs) \<Longrightarrow> k \<in> fst ` set xs"
  by (auto dest: in_set_butlastD)

subsection \<open>Signed 64-bit arithmetic\<close>

lemma sint_minus_wrap:
  fixes a b :: i64
  shows "sint (a - b) = (sint a - sint b + 2 ^ 63) mod 2 ^ 64 - 2 ^ 63"
proof -
  have "sint (a - b) = signed_take_bit 63 (sint a - sint b)"
    by (subst sint_word_ariths(2)) simp
  then show ?thesis by (simp add: signed_take_bit_eq_take_bit_shift take_bit_eq_mod)
qed

lemma sint_i64_range: "- (2 ^ 63) \<le> sint (a :: i64)" "sint (a :: i64) < 2 ^ 63"
  using sint_ge [of a] sint_lt [of a] by simp_all

lemma sint_uminus_i64:
  assumes "0 \<le> sint (a :: i64)"
  shows "sint (- a) = - sint a"
  using sint_minus_wrap [of 0 a] assms sint_i64_range(2) [of a] by (simp add: mod_pos_pos_trivial)

text \<open>A difference that leaves the 64-bit range comes back as a very negative number.\<close>

lemma sint_minus_nonneg:
  fixes a b :: i64
  assumes "0 \<le> sint a"
  shows "sint (a - b) = (if sint a - sint b < 2 ^ 63 then sint a - sint b
                          else sint a - sint b - 2 ^ 64)"
proof -
  have r: "- (2 ^ 63) \<le> sint b" "sint b < 2 ^ 63" "sint a < 2 ^ 63"
    using sint_i64_range by auto
  show ?thesis
  proof (cases "sint a - sint b < 2 ^ 63")
    case True
    then have "(sint a - sint b + 2 ^ 63) mod 2 ^ 64 = sint a - sint b + 2 ^ 63"
      using assms r by (intro mod_pos_pos_trivial) auto
    with True show ?thesis by (simp add: sint_minus_wrap)
  next
    case False
    have "(sint a - sint b + 2 ^ 63) mod 2 ^ 64 = (sint a - sint b + 2 ^ 63 - 2 ^ 64) mod 2 ^ 64"
      by (rule minus_mod_self2 [symmetric])
    also have "\<dots> = sint a - sint b + 2 ^ 63 - 2 ^ 64"
      using False r assms by (intro mod_pos_pos_trivial) auto
    finally show ?thesis using False by (simp add: sint_minus_wrap)
  qed
qed

end
