(* ===== verification/Std_Text.thy ===== *)
theory Std_Text
  imports Prelude
begin

text \<open>
  The text functions of the Rust standard library that the program calls, on UTF-8 byte
  strings: \<open>trim\<close>, \<open>split_whitespace\<close>, \<open>lines\<close>, \<open>split\<close>, \<open>split_once\<close>, \<open>contains\<close>,
  ASCII case folding, decimal \<open>parse\<close> and \<open>Display\<close> of unsigned integers. White space
  is the Unicode \<open>White_Space\<close> set, recognised by its UTF-8 encodings of one, two and
  three bytes. The lemmas are the round trips the file formats and the firewall handles
  rest on: numbers, comma- and slash-separated fields, lines.
\<close>

subsection \<open>Characters\<close>

definition code :: "char \<Rightarrow> nat" where
  "code c = of_char c"

definition is_ascii_graphic :: "char \<Rightarrow> bool" where
  "is_ascii_graphic c \<longleftrightarrow> 33 \<le> code c \<and> code c \<le> 126"

definition is_ascii_digit :: "char \<Rightarrow> bool" where
  "is_ascii_digit c \<longleftrightarrow> 48 \<le> code c \<and> code c \<le> 57"

definition is_ascii_hexdigit :: "char \<Rightarrow> bool" where
  "is_ascii_hexdigit c \<longleftrightarrow> is_ascii_digit c
     \<or> 97 \<le> code c \<and> code c \<le> 102 \<or> 65 \<le> code c \<and> code c \<le> 70"

definition to_ascii_lower :: "char \<Rightarrow> char" where
  "to_ascii_lower c = (if 65 \<le> code c \<and> code c \<le> 90 then char_of (code c + 32) else c)"

definition to_ascii_lowercase :: "string \<Rightarrow> string" where
  "to_ascii_lowercase = map to_ascii_lower"

definition eq_ignore_ascii_case :: "string \<Rightarrow> string \<Rightarrow> bool" where
  "eq_ignore_ascii_case s t \<longleftrightarrow> to_ascii_lowercase s = to_ascii_lowercase t"

lemma code_less [simp]: "code c < 256"
  by (simp add: code_def)

lemma code_char_of [simp]: "n < 256 \<Longrightarrow> code (char_of n) = n" for n :: nat
  by (simp add: code_def)

lemma code_inject: "code c = code d \<longleftrightarrow> c = d"
  by (simp add: code_def)

lemma digit_graphic: "is_ascii_digit c \<Longrightarrow> is_ascii_graphic c"
  by (simp add: is_ascii_digit_def is_ascii_graphic_def)

lemma hexdigit_graphic: "is_ascii_hexdigit c \<Longrightarrow> is_ascii_graphic c"
  by (auto simp: is_ascii_hexdigit_def is_ascii_digit_def is_ascii_graphic_def)

subsection \<open>White space, trimming, words and lines\<close>

definition is_ws3 :: "nat \<Rightarrow> nat \<Rightarrow> nat \<Rightarrow> bool" where
  "is_ws3 a b c \<longleftrightarrow>
     a = 0xE1 \<and> b = 0x9A \<and> c = 0x80
   \<or> a = 0xE2 \<and> b = 0x80 \<and> (0x80 \<le> c \<and> c \<le> 0x8A \<or> c = 0xA8 \<or> c = 0xA9 \<or> c = 0xAF)
   \<or> a = 0xE2 \<and> b = 0x81 \<and> c = 0x9F
   \<or> a = 0xE3 \<and> b = 0x80 \<and> c = 0x80"

definition is_ws2 :: "nat \<Rightarrow> nat \<Rightarrow> bool" where
  "is_ws2 a b \<longleftrightarrow> a = 0xC2 \<and> (b = 0x85 \<or> b = 0xA0)"

definition is_ws1 :: "nat \<Rightarrow> bool" where
  "is_ws1 a \<longleftrightarrow> 9 \<le> a \<and> a \<le> 13 \<or> a = 32"

text \<open>The number of bytes of the white-space character a string starts (ends) with.\<close>

fun ws_len :: "string \<Rightarrow> nat" where
  "ws_len [] = 0"
| "ws_len (a # r) =
     (if is_ws1 (code a) then 1
      else case r of
        [] \<Rightarrow> 0
      | b # r' \<Rightarrow>
          if is_ws2 (code a) (code b) then 2
          else case r' of
            [] \<Rightarrow> 0
          | c # _ \<Rightarrow> if is_ws3 (code a) (code b) (code c) then 3 else 0)"

fun ws_len_rev :: "string \<Rightarrow> nat" where
  "ws_len_rev [] = 0"
| "ws_len_rev (c # r) =
     (if is_ws1 (code c) then 1
      else case r of
        [] \<Rightarrow> 0
      | b # r' \<Rightarrow>
          if is_ws2 (code b) (code c) then 2
          else case r' of
            [] \<Rightarrow> 0
          | a # _ \<Rightarrow> if is_ws3 (code a) (code b) (code c) then 3 else 0)"

function trim_start :: "string \<Rightarrow> string" where
  "trim_start s = (if ws_len s = 0 then s else trim_start (drop (ws_len s) s))"
  by pat_completeness auto
termination
  by (relation "measure length") (auto simp: length_drop intro!: diff_less)

function trim_rev :: "string \<Rightarrow> string" where
  "trim_rev s = (if ws_len_rev s = 0 then s else trim_rev (drop (ws_len_rev s) s))"
  by pat_completeness auto
termination
  by (relation "measure length") (auto simp: length_drop intro!: diff_less)

declare trim_start.simps [simp del] trim_rev.simps [simp del]

definition trim :: "string \<Rightarrow> string" where
  "trim s = rev (trim_rev (rev (trim_start s)))"

function split_ws :: "string \<Rightarrow> string \<Rightarrow> string list" where
  "split_ws acc [] = (if acc = [] then [] else [rev acc])"
| "split_ws acc (c # cs) =
     (if ws_len (c # cs) = 0 then split_ws (c # acc) cs
      else (if acc = [] then [] else [rev acc])
           @ split_ws [] (drop (ws_len (c # cs)) (c # cs)))"
  by pat_completeness auto
termination
  by (relation "measure (\<lambda>(_, s). length s)") (auto simp del: ws_len.simps)

definition split_whitespace :: "string \<Rightarrow> string list" where
  "split_whitespace s = split_ws [] s"

definition newline :: char where
  "newline = CHR 0x0A"

definition strip_cr :: "string \<Rightarrow> string" where
  "strip_cr s = (if s \<noteq> [] \<and> last s = CHR 0x0D then butlast s else s)"

fun lines_acc :: "string \<Rightarrow> string \<Rightarrow> string list" where
  "lines_acc acc [] = (if acc = [] then [] else [rev acc])"
| "lines_acc acc (c # cs) =
     (if c = newline then strip_cr (rev acc) # lines_acc [] cs
      else lines_acc (c # acc) cs)"

definition lines :: "string \<Rightarrow> string list" where
  "lines s = lines_acc [] s"

subsection \<open>Separators\<close>

fun split_char :: "char \<Rightarrow> string \<Rightarrow> string list" where
  "split_char d [] = [[]]"
| "split_char d (c # cs) =
     (if c = d then [] # split_char d cs
      else case split_char d cs of
        [] \<Rightarrow> [[c]]
      | w # ws \<Rightarrow> (c # w) # ws)"

fun split_once :: "char \<Rightarrow> string \<Rightarrow> (string \<times> string) option" where
  "split_once d [] = None"
| "split_once d (c # cs) =
     (if c = d then Some ([], cs)
      else map_option (\<lambda>(a, b). (c # a, b)) (split_once d cs))"

fun join :: "char \<Rightarrow> string list \<Rightarrow> string" where
  "join d [] = []"
| "join d [w] = w"
| "join d (w # ws) = w @ d # join d ws"

fun starts_with :: "string \<Rightarrow> string \<Rightarrow> bool" where
  "starts_with s [] = True"
| "starts_with [] (p # ps) = False"
| "starts_with (c # cs) (p # ps) = (c = p \<and> starts_with cs ps)"

fun contains_str :: "string \<Rightarrow> string \<Rightarrow> bool" where
  "contains_str [] p = starts_with [] p"
| "contains_str (c # cs) p = (starts_with (c # cs) p \<or> contains_str cs p)"

subsection \<open>Decimal numbers\<close>

fun dec_string :: "nat \<Rightarrow> string" where
  "dec_string n =
     (if n < 10 then [char_of (48 + n)] else dec_string (n div 10) @ [char_of (48 + n mod 10)])"

declare dec_string.simps [simp del]

definition dec_value :: "string \<Rightarrow> nat" where
  "dec_value s = foldl (\<lambda>v c. v * 10 + (code c - 48)) 0 s"

text \<open>
  \<open>str::parse\<close> for an unsigned type with largest value \<open>mx\<close>: one leading \<open>+\<close> is
  accepted, the rest must be a non-empty run of decimal digits, overflow is an error.
\<close>

definition parse_uint :: "nat \<Rightarrow> string \<Rightarrow> nat option" where
  "parse_uint mx s =
     (let ds = (case s of c # cs \<Rightarrow> if c = CHR ''+'' \<and> cs \<noteq> [] then cs else s | [] \<Rightarrow> [])
      in if ds \<noteq> [] \<and> list_all is_ascii_digit ds \<and> dec_value ds \<le> mx
         then Some (dec_value ds) else None)"

lemma dec_value_snoc: "dec_value (s @ [c]) = dec_value s * 10 + (code c - 48)"
  by (simp add: dec_value_def)

lemma dec_string_not_Nil [simp]: "dec_string n \<noteq> []"
  by (subst dec_string.simps) simp

lemma is_ascii_digit_char_of: "n < 10 \<Longrightarrow> is_ascii_digit (char_of (48 + n))" for n :: nat
  by (simp add: is_ascii_digit_def)

lemma dec_string_digits: "list_all is_ascii_digit (dec_string n)"
proof (induction n rule: dec_string.induct)
  case (1 n)
  then show ?case
    by (subst dec_string.simps) (simp add: is_ascii_digit_char_of)
qed

lemma dec_value_dec_string [simp]: "dec_value (dec_string n) = n"
proof (induction n rule: dec_string.induct)
  case (1 n)
  show ?case
  proof (cases "n < 10")
    case True
    then show ?thesis
      by (subst dec_string.simps) (simp add: dec_value_def)
  next
    case False
    with 1 show ?thesis
      by (subst dec_string.simps) (simp add: dec_value_snoc)
  qed
qed

lemma dec_string_hd: "\<exists>c cs. dec_string n = c # cs \<and> is_ascii_digit c"
  using dec_string_digits [of n] by (cases "dec_string n") auto

lemma parse_dec_string [simp]: "n \<le> mx \<Longrightarrow> parse_uint mx (dec_string n) = Some n"
proof -
  assume le: "n \<le> mx"
  obtain c cs where s: "dec_string n = c # cs" and d: "is_ascii_digit c"
    using dec_string_hd by blast
  from d have "c \<noteq> CHR ''+''"
    by (auto simp: is_ascii_digit_def code_def)
  with s le show ?thesis
    using dec_string_digits [of n] dec_value_dec_string [of n]
    by (simp add: parse_uint_def Let_def)
qed

lemma parse_uint_le: "parse_uint mx s = Some n \<Longrightarrow> n \<le> mx"
  by (auto simp: parse_uint_def Let_def split: if_splits)

lemma dec_string_inject [simp]: "dec_string m = dec_string n \<longleftrightarrow> m = n"
  by (metis dec_value_dec_string)

lemma digit_ne_sep:
  "list_all is_ascii_digit s \<Longrightarrow> \<not> is_ascii_digit d \<Longrightarrow> d \<notin> set s"
  by (auto simp: list_all_iff)

subsection \<open>Round trips\<close>

lemma split_char_nosep: "d \<notin> set w \<Longrightarrow> split_char d w = [w]"
  by (induction w) auto

lemma split_char_append_sep:
  "d \<notin> set w \<Longrightarrow> split_char d (w @ d # s) = w # split_char d s"
  by (induction w) auto

lemma split_char_join:
  "ws \<noteq> [] \<Longrightarrow> \<forall>w \<in> set ws. d \<notin> set w \<Longrightarrow> split_char d (join d ws) = ws"
  by (induction d ws rule: join.induct) (auto simp: split_char_nosep split_char_append_sep)

lemma split_once_append: "d \<notin> set w \<Longrightarrow> split_once d (w @ d # s) = Some (w, s)"
  by (induction w) auto

lemma ws_len_graphic: "is_ascii_graphic c \<Longrightarrow> ws_len (c # cs) = 0"
  by (auto simp: is_ascii_graphic_def is_ws1_def is_ws2_def is_ws3_def split: list.splits)

lemma ws_len_rev_graphic: "is_ascii_graphic c \<Longrightarrow> ws_len_rev (c # cs) = 0"
  by (auto simp: is_ascii_graphic_def is_ws1_def is_ws2_def is_ws3_def split: list.splits)

lemma ws_len_space: "ws_len (CHR '' '' # cs) = 1"
  by (simp add: is_ws1_def code_def)

lemma trim_start_graphic: "is_ascii_graphic c \<Longrightarrow> trim_start (c # cs) = c # cs"
  by (subst trim_start.simps) (simp add: ws_len_graphic del: ws_len.simps)

lemma trim_rev_graphic: "is_ascii_graphic c \<Longrightarrow> trim_rev (c # cs) = c # cs"
  by (subst trim_rev.simps) (simp add: ws_len_rev_graphic del: ws_len_rev.simps)

lemma trim_graphic_ends:
  assumes "s \<noteq> []" "is_ascii_graphic (hd s)" "is_ascii_graphic (last s)"
  shows "trim s = s"
proof -
  from assms(1) obtain c cs where s: "s = c # cs" by (cases s) auto
  from assms(1) obtain d ds where r: "rev s = d # ds" by (cases "rev s") auto
  then have "d = last s" by (metis hd_rev list.sel(1))
  with assms(3) have "is_ascii_graphic d" by simp
  with r have "trim_rev (rev s) = rev s" by (simp add: trim_rev_graphic)
  moreover from s assms(2) have "trim_start s = s" by (simp add: trim_start_graphic)
  ultimately show ?thesis by (simp add: trim_def)
qed

lemma split_ws_graphic:
  "list_all is_ascii_graphic w \<Longrightarrow> split_ws acc (w @ s) = split_ws (rev w @ acc) s"
  by (induction w arbitrary: acc) (auto simp: ws_len_graphic simp del: ws_len.simps)

lemma split_whitespace_two:
  assumes "list_all is_ascii_graphic a" "a \<noteq> []" "list_all is_ascii_graphic b" "b \<noteq> []"
  shows "split_whitespace (a @ CHR '' '' # b) = [a, b]"
proof -
  have "split_ws [] (a @ CHR '' '' # b) = split_ws (rev a) (CHR '' '' # b)"
    using split_ws_graphic [OF assms(1), of "[]" "CHR '' '' # b"] by simp
  also have "\<dots> = a # split_ws [] b"
    using assms(2) by (simp add: ws_len_space del: ws_len.simps)
  also have "split_ws [] b = [b]"
    using split_ws_graphic [OF assms(3), of "[]" "[]"] assms(4) by simp
  finally show ?thesis by (simp add: split_whitespace_def)
qed

lemma lines_acc_line:
  "newline \<notin> set w \<Longrightarrow> lines_acc acc (w @ newline # s) = strip_cr (rev acc @ w) # lines_acc [] s"
  by (induction w arbitrary: acc) auto

lemma strip_cr_graphic: "is_ascii_graphic (last w) \<Longrightarrow> strip_cr w = w"
  by (auto simp: strip_cr_def is_ascii_graphic_def code_def)

lemma lines_concat:
  assumes "\<forall>w \<in> set ws. newline \<notin> set w \<and> is_ascii_graphic (last w)"
  shows "lines (concat (map (\<lambda>w. w @ [newline]) ws)) = ws"
  using assms unfolding lines_def
  by (induction ws) (auto simp: lines_acc_line strip_cr_graphic)

lemma newline_not_graphic: "is_ascii_graphic c \<Longrightarrow> c \<noteq> newline"
  by (auto simp: is_ascii_graphic_def newline_def code_def)

end
