(* ===== verification/Std_Net.thy ===== *)
theory Std_Net
  imports Std_Text
begin

text \<open>
  IP addresses as the standard library has them: the \<open>IpAddr\<close> type, its octets, the
  dotted-decimal rendering of IPv4 addresses and the address parser (\<open>str::parse\<close> into
  \<open>IpAddr\<close>), which accepts strict dotted decimals and the RFC 4291 forms of IPv6.
  \<open>parse_ipv4_string\<close> is the round trip of rendering and parsing.
\<close>

datatype ip_addr = V4 u32 | V6 "128 word"

definition v4_octets :: "u32 \<Rightarrow> u8 list" where
  "v4_octets w = [ucast (drop_bit 24 w), ucast (drop_bit 16 w), ucast (drop_bit 8 w), ucast w]"

definition v6_octets :: "128 word \<Rightarrow> u8 list" where
  "v6_octets w = map (\<lambda>i. ucast (drop_bit (8 * (15 - i)) w)) [0..<16]"

definition v4_of_octets :: "nat \<Rightarrow> nat \<Rightarrow> nat \<Rightarrow> nat \<Rightarrow> u32" where
  "v4_of_octets a b c d = of_nat (((a * 256 + b) * 256 + c) * 256 + d)"

definition v6_of_segments :: "nat list \<Rightarrow> 128 word" where
  "v6_of_segments gs = of_nat (foldl (\<lambda>v g. v * 65536 + g) 0 gs)"

definition ipv4_string :: "u32 \<Rightarrow> string" where
  "ipv4_string w = join CHR ''.'' (map (\<lambda>b. dec_string (unat b)) (v4_octets w))"

subsection \<open>The address parser\<close>

definition hex_digit :: "char \<Rightarrow> nat option" where
  "hex_digit c =
     (if is_ascii_digit c then Some (code c - 48)
      else if 97 \<le> code c \<and> code c \<le> 102 then Some (code c - 87)
      else if 65 \<le> code c \<and> code c \<le> 70 then Some (code c - 55)
      else None)"

definition radix_digit :: "nat \<Rightarrow> char \<Rightarrow> nat option" where
  "radix_digit radix c =
     (case hex_digit c of Some d \<Rightarrow> if d < radix then Some d else None | None \<Rightarrow> None)"

fun read_digits :: "nat \<Rightarrow> string \<Rightarrow> nat list \<times> string" where
  "read_digits radix [] = ([], [])"
| "read_digits radix (c # cs) =
     (case radix_digit radix c of
        None \<Rightarrow> ([], c # cs)
      | Some d \<Rightarrow> (let (ds, r) = read_digits radix cs in (d # ds, r)))"

definition read_number :: "nat \<Rightarrow> nat \<Rightarrow> nat \<Rightarrow> bool \<Rightarrow> string \<Rightarrow> (nat \<times> string) option" where
  "read_number radix max_digits mx allow_zero_prefix s =
     (let (ds, r) = read_digits radix s; v = foldl (\<lambda>v d. v * radix + d) 0 ds in
      if ds = [] \<or> max_digits < length ds \<or> mx < v
         \<or> \<not> allow_zero_prefix \<and> hd ds = 0 \<and> 1 < length ds
      then None else Some (v, r))"

definition read_given_char :: "char \<Rightarrow> string \<Rightarrow> string option" where
  "read_given_char d s = (case s of c # cs \<Rightarrow> if c = d then Some cs else None | [] \<Rightarrow> None)"

definition read_ipv4_addr :: "string \<Rightarrow> (u32 \<times> string) option" where
  "read_ipv4_addr s = do {
     (a, s) \<leftarrow> read_number 10 3 255 False s;
     s \<leftarrow> read_given_char CHR ''.'' s;
     (b, s) \<leftarrow> read_number 10 3 255 False s;
     s \<leftarrow> read_given_char CHR ''.'' s;
     (c, s) \<leftarrow> read_number 10 3 255 False s;
     s \<leftarrow> read_given_char CHR ''.'' s;
     (d, s) \<leftarrow> read_number 10 3 255 False s;
     Some (v4_of_octets a b c d, s)
   }"

definition read_sep :: "nat \<Rightarrow> string \<Rightarrow> string option" where
  "read_sep i s = (if 0 < i then read_given_char CHR '':'' s else Some s)"

function read_groups :: "nat \<Rightarrow> nat \<Rightarrow> string \<Rightarrow> nat list \<times> bool \<times> string" where
  "read_groups limit i s =
     (if limit \<le> i then ([], False, s)
      else case (if i < limit - 1 then read_sep i s \<bind> read_ipv4_addr else None) of
        Some (v4, r) \<Rightarrow> ([unat (drop_bit 16 v4), unat v4 mod 65536], True, r)
      | None \<Rightarrow>
          (case read_sep i s \<bind> read_number 16 4 65535 True of
             None \<Rightarrow> ([], False, s)
           | Some (g, r) \<Rightarrow>
               (let (gs, v4, r') = read_groups limit (Suc i) r in (g # gs, v4, r'))))"
  by pat_completeness auto
termination
  by (relation "measure (\<lambda>(limit, i, _). limit - i)") auto

declare read_groups.simps [simp del]

definition read_ipv6_addr :: "string \<Rightarrow> (128 word \<times> string) option" where
  "read_ipv6_addr s =
     (let (head, head_ipv4, r) = read_groups 8 0 s in
      if length head = 8 then Some (v6_of_segments head, r)
      else if head_ipv4 then None
      else do {
        r \<leftarrow> read_given_char CHR '':'' r;
        r \<leftarrow> read_given_char CHR '':'' r;
        (let (tail, _, r') = read_groups (8 - (length head + 1)) 0 r in
         Some (v6_of_segments
                 (head @ replicate (8 - length head - length tail) 0 @ tail), r'))
      })"

definition parse_ip_addr :: "string \<Rightarrow> ip_addr option" where
  "parse_ip_addr s =
     (case read_ipv4_addr s of
        Some (a, r) \<Rightarrow> if r = [] then Some (V4 a) else None
      | None \<Rightarrow>
          (case read_ipv6_addr s of
             Some (a, r) \<Rightarrow> if r = [] then Some (V6 a) else None
           | None \<Rightarrow> None))"

subsection \<open>Rendering and parsing an IPv4 address\<close>

lemma radix_digit_char_of [simp]: "d < 10 \<Longrightarrow> radix_digit 10 (char_of (48 + d)) = Some d"
  for d :: nat
  by (simp add: radix_digit_def hex_digit_def is_ascii_digit_char_of)

fun dec_digits :: "nat \<Rightarrow> nat list" where
  "dec_digits n = (if n < 10 then [n] else dec_digits (n div 10) @ [n mod 10])"

declare dec_digits.simps [simp del]

lemma dec_string_digits_map: "dec_string n = map (\<lambda>d. char_of (48 + d)) (dec_digits n)"
proof (induction n rule: dec_digits.induct)
  case (1 n)
  then show ?case
    by (subst dec_string.simps, subst dec_digits.simps) simp
qed

lemma dec_digits_less: "\<forall>d \<in> set (dec_digits n). d < 10"
proof (induction n rule: dec_digits.induct)
  case (1 n)
  then show ?case by (subst dec_digits.simps) auto
qed

lemma dec_digits_value: "foldl (\<lambda>v d. v * 10 + d) 0 (dec_digits n) = n"
proof (induction n rule: dec_digits.induct)
  case (1 n)
  then show ?case by (subst dec_digits.simps) simp
qed

lemma dec_digits_byte:
  assumes "n < 256"
  shows "dec_digits n \<noteq> [] \<and> length (dec_digits n) \<le> 3
         \<and> (hd (dec_digits n) = 0 \<longrightarrow> length (dec_digits n) \<le> 1)"
proof -
  consider "n < 10" | "10 \<le> n" "n < 100" | "100 \<le> n" by linarith
  then show ?thesis
  proof cases
    case 1
    then show ?thesis by (simp add: dec_digits.simps)
  next
    case 2
    then have "n div 10 < 10" "0 < n div 10" by simp_all
    with 2 show ?thesis by (simp add: dec_digits.simps [of n] dec_digits.simps [of "n div 10"])
  next
    case 3
    with assms have "n div 10 div 10 < 10" "\<not> n div 10 < 10" "0 < n div 10 div 10"
      by simp_all
    with 3 show ?thesis
      by (simp add: dec_digits.simps [of n] dec_digits.simps [of "n div 10"]
          dec_digits.simps [of "n div 10 div 10"])
  qed
qed

lemma read_digits_map:
  assumes "\<forall>d \<in> set ds. d < 10" "r = [] \<or> radix_digit 10 (hd r) = None"
  shows "read_digits 10 (map (\<lambda>d. char_of (48 + d)) ds @ r) = (ds, r)"
  using assms
proof (induction ds)
  case Nil
  then show ?case by (cases r) auto
next
  case (Cons d ds)
  then show ?case by simp
qed

lemma read_number_dec_string:
  assumes "n < 256" "r = [] \<or> radix_digit 10 (hd r) = None"
  shows "read_number 10 3 255 False (dec_string n @ r) = Some (n, r)"
proof -
  have "read_digits 10 (dec_string n @ r) = (dec_digits n, r)"
    using read_digits_map [OF dec_digits_less assms(2), of n]
    by (simp add: dec_string_digits_map)
  with dec_digits_byte [OF assms(1)] dec_digits_value [of n] assms(1) show ?thesis
    by (auto simp: read_number_def)
qed

lemma not_digit_dot: "radix_digit 10 CHR ''.'' = None"
  by (simp add: radix_digit_def hex_digit_def is_ascii_digit_def code_def)

lemma v4_of_octets_unat:
  "v4_of_octets (unat (ucast (drop_bit 24 w) :: u8)) (unat (ucast (drop_bit 16 w) :: u8))
     (unat (ucast (drop_bit 8 w) :: u8)) (unat (ucast w :: u8)) = w"
proof -
  have b: "unat (ucast (drop_bit k w) :: u8) = unat w div 2 ^ k mod 256" for k
    using unsigned_less [of w, where ?'a = nat]
    by (simp add: unsigned_ucast_eq unsigned_drop_bit_eq take_bit_eq_mod)
      (simp add: drop_bit_eq_div)
  define v where "v = unat w"
  have "v div 16777216 < 256"
    using unsigned_less [of w, where ?'a = nat] by (simp add: v_def less_mult_imp_div_less)
  then have "v div 256 div 256 div 256 mod 256 = v div 256 div 256 div 256"
    by (simp add: div_mult2_eq [symmetric])
  then have "((v div 256 div 256 div 256 mod 256 * 256 + v div 256 div 256 mod 256) * 256
              + v div 256 mod 256) * 256 + v mod 256 = v"
    by (simp only: div_mult_mod_eq)
  moreover have "v div 65536 = v div 256 div 256" "v div 16777216 = v div 256 div 256 div 256"
    by (simp_all add: div_mult2_eq [symmetric])
  ultimately have "((v div 2 ^ 24 mod 256 * 256 + v div 2 ^ 16 mod 256) * 256
              + v div 2 ^ 8 mod 256) * 256 + v div 2 ^ 0 mod 256 = v"
    by simp
  then show ?thesis
    using b [of 24] b [of 16] b [of 8] b [of 0]
    by (simp only: v4_of_octets_def v_def drop_bit_0 id_apply) simp
qed

lemma parse_ipv4_string: "parse_ip_addr (ipv4_string w) = Some (V4 w)"
proof -
  have lt: "unat (b :: u8) < 256" for b
    using unsigned_less [of b, where ?'a = nat] by simp
  have "read_ipv4_addr (ipv4_string w) = Some (w, [])"
    using v4_of_octets_unat [of w]
      read_number_dec_string [OF lt, of "[]" "ucast w"]
    by (simp add: read_ipv4_addr_def ipv4_string_def v4_octets_def read_number_dec_string lt
        not_digit_dot read_given_char_def)
  then show ?thesis by (simp add: parse_ip_addr_def)
qed

lemma ipv4_string_inject: "ipv4_string v = ipv4_string w \<longleftrightarrow> v = w"
  by (metis ip_addr.inject(1) option.inject parse_ipv4_string)

lemma ipv4_string_chars:
  "c \<in> set (ipv4_string w) \<Longrightarrow> is_ascii_digit c \<or> c = CHR ''.''"
  using dec_string_digits by (auto simp: ipv4_string_def v4_octets_def list_all_iff)

end
