(* ===== verification/Proto_Types.thy ===== *)
theory Proto_Types
  imports Std_Net
begin

text \<open>
  The value types of \<open>fwknox-proto\<close> (\<open>types.rs\<close>, \<open>error.rs\<close>, the \<open>SpaPayload\<close> struct of
  \<open>payload.rs\<close>) and its interface to third-party code: the record \<open>libs\<close> holds the calls
  into \<open>ring\<close> (HMAC-SHA256, AES-256-GCM, HKDF-SHA256) and \<open>rmp_serde\<close> (MessagePack), and
  the locale \<open>proto_libs\<close> states the documented behaviour the protocol relies on. A toy
  instance, \<open>demo_libs\<close>, satisfies the locale and is what the witnesses compute with.
\<close>

subsection \<open>Protocol values\<close>

datatype protocol = Tcp | Udp

definition protocol_string :: "protocol \<Rightarrow> string" where
  "protocol_string p = (case p of Tcp \<Rightarrow> ''tcp'' | Udp \<Rightarrow> ''udp'')"

record port_proto =
  pp_proto :: protocol
  pp_port :: u16

definition port_proto_new :: "protocol \<Rightarrow> u16 \<Rightarrow> port_proto" where
  "port_proto_new proto port = \<lparr>pp_proto = proto, pp_port = port\<rparr>"

definition port_proto_string :: "port_proto \<Rightarrow> string" where
  "port_proto_string pp = protocol_string (pp_proto pp) @ ''/'' @ dec_string (unat (pp_port pp))"

datatype socket_addr = SocketAddr ip_addr u16

datatype spa_message =
    Access ip_addr "port_proto list"
  | Nat ip_addr "port_proto list" socket_addr
  | LocalNat ip_addr "port_proto list" socket_addr
  | Command ip_addr string

record spa_payload =
  pl_nonce :: bytes
  pl_timestamp :: i64
  pl_username :: string
  pl_message :: spa_message
  pl_client_timeout :: "u32 option"

text \<open>The array type \<open>[u8; 16]\<close> of the nonce field.\<close>

definition wf_payload :: "spa_payload \<Rightarrow> bool" where
  "wf_payload p \<longleftrightarrow> length (pl_nonce p) = 16"

datatype proto_error =
    PacketTooShort nat nat
  | PacketTooLong nat nat
  | UnsupportedVersion u8
  | ReservedFlag u8
  | HmacFailed
  | AeadFailed
  | PayloadDecode string
  | PayloadEncode string
  | HkdfFailed
  | InvalidField string
  | PacketTooOld i64 i64
  | PacketInFuture i64

subsection \<open>Third-party calls\<close>

record libs =
  ring_hmac_sign :: "bytes \<Rightarrow> bytes \<Rightarrow> bytes"
  ring_hmac_verify :: "bytes \<Rightarrow> bytes \<Rightarrow> bytes \<Rightarrow> bool"
  ring_seal :: "bytes \<Rightarrow> bytes \<Rightarrow> bytes \<Rightarrow> bytes \<Rightarrow> bytes option"
  ring_open :: "bytes \<Rightarrow> bytes \<Rightarrow> bytes \<Rightarrow> bytes \<Rightarrow> bytes option"
  ring_hkdf :: "bytes \<Rightarrow> bytes \<Rightarrow> bytes \<Rightarrow> nat \<Rightarrow> bytes option"
  rmp_to_vec :: "spa_payload \<Rightarrow> string + bytes"
  rmp_from_slice :: "bytes \<Rightarrow> string + spa_payload"

text \<open>
  What the protocol relies on. HMAC-SHA256 tags have 32 bytes and \<open>verify\<close> accepts exactly
  the tag \<open>sign\<close> computes; AES-256-GCM appends a 16-byte tag, succeeds for keys and nonces
  of the right size on small inputs and decrypts what it sealed under the same key, nonce
  and associated data; HKDF-SHA256 fills an output of up to 8160 bytes; MessagePack decodes
  what it encoded.
\<close>

locale proto_libs =
  fixes L :: libs
  assumes hmac_length: "length (ring_hmac_sign L k m) = 32"
    and hmac_verify: "ring_hmac_verify L k m t \<longleftrightarrow> t = ring_hmac_sign L k m"
    and seal_length: "ring_seal L k n a p = Some c \<Longrightarrow> length c = length p + 16"
    and seal_total: "length k = 32 \<Longrightarrow> length n = 12 \<Longrightarrow> length p \<le> 65536
                      \<Longrightarrow> ring_seal L k n a p \<noteq> None"
    and open_seal: "ring_seal L k n a p = Some c \<Longrightarrow> ring_open L k n a c = Some p"
    and hkdf_length: "ring_hkdf L s i f len = Some out \<Longrightarrow> length out = len"
    and hkdf_total: "len \<le> 8160 \<Longrightarrow> ring_hkdf L s i f len \<noteq> None"
    and rmp_roundtrip: "wf_payload pl \<Longrightarrow> rmp_to_vec L pl = Ok v \<Longrightarrow> rmp_from_slice L v = Ok pl"

subsection \<open>A concrete instance\<close>

text \<open>
  An instance of the interface for the witnesses. Its \<open>seal\<close> appends a tag that depends on
  key, nonce and associated data, its HMAC adds up the bytes, and its MessagePack stand-in
  encodes one payload, \<open>demo_payload\<close>, as one byte.
\<close>

definition byte_sum :: "bytes \<Rightarrow> u8" where
  "byte_sum bs = foldl (\<lambda>v b. 3 * v + b + 1) 0 bs"

definition demo_hmac :: "bytes \<Rightarrow> bytes \<Rightarrow> bytes" where
  "demo_hmac k m = replicate 32 (byte_sum (k @ m))"

definition demo_tag :: "bytes \<Rightarrow> bytes \<Rightarrow> bytes \<Rightarrow> bytes" where
  "demo_tag k n a = replicate 16 (byte_sum (k @ n @ a))"

definition demo_open :: "bytes \<Rightarrow> bytes \<Rightarrow> bytes \<Rightarrow> bytes \<Rightarrow> bytes option" where
  "demo_open k n a c =
     (if 16 \<le> length c \<and> drop (length c - 16) c = demo_tag k n a
      then Some (take (length c - 16) c) else None)"

definition demo_payload :: spa_payload where
  "demo_payload =
     \<lparr>pl_nonce = replicate 16 7, pl_timestamp = 1000, pl_username = ''alice'',
      pl_message = Access (V4 0x0A000001) [port_proto_new Tcp 22],
      pl_client_timeout = Some 60\<rparr>"

definition demo_libs :: libs where
  "demo_libs =
     \<lparr>ring_hmac_sign = demo_hmac,
      ring_hmac_verify = (\<lambda>k m t. t = demo_hmac k m),
      ring_seal = (\<lambda>k n a p. Some (p @ demo_tag k n a)),
      ring_open = demo_open,
      ring_hkdf = (\<lambda>s i f n. Some (replicate n (byte_sum (s @ i @ f)))),
      rmp_to_vec = (\<lambda>p. if p = demo_payload then Ok [1] else Err ''unsupported''),
      rmp_from_slice = (\<lambda>v. if v = [1] then Ok demo_payload else Err ''invalid marker'')\<rparr>"

interpretation demo: proto_libs demo_libs
  by unfold_locales
    (auto simp: demo_libs_def demo_hmac_def demo_tag_def demo_open_def split: if_splits)

lemma protocol_string_no_sep: "CHR ''/'' \<notin> set (protocol_string p)" "CHR '','' \<notin> set (protocol_string p)"
  by (cases p; simp add: protocol_string_def)+

lemma protocol_string_inject: "protocol_string p = protocol_string q \<longleftrightarrow> p = q"
  by (cases p; cases q; simp add: protocol_string_def)

end
