(* ===== verification/Proto.thy ===== *)
theory Proto
  imports Proto_Types
begin

text \<open>
  The wire protocol of \<open>fwknox-proto\<close>: the four-byte header (\<open>header.rs\<close>), the AEAD, HMAC
  and HKDF wrappers (\<open>aead.rs\<close>, \<open>hmac.rs\<close>, \<open>kdf.rs\<close>), payload encoding (\<open>payload.rs\<close>),
  packet construction and parsing (\<open>packet.rs\<close>) and the clock check (\<open>validate.rs\<close>).
  Random bytes and the clock are arguments. Slicing is checked, so that \<open>parse_packet\<close>
  returns \<open>None\<close> where the Rust code would panic; integers of the clock check wrap at
  64 bits, as in a release build.
\<close>

subsection \<open>Header\<close>

definition PROTO_VERSION :: u8 where
  "PROTO_VERSION = 1"

definition HEADER_LEN :: nat where
  "HEADER_LEN = 4"

datatype flags = Flags (flags_raw: u8)

definition FLAG_NAT :: u8 where "FLAG_NAT = 0b0001"
definition FLAG_CLIENT_TIMEOUT :: u8 where "FLAG_CLIENT_TIMEOUT = 0b0010"
definition FLAG_COMMAND :: u8 where "FLAG_COMMAND = 0b0100"
definition FLAG_ASYMMETRIC :: u8 where "FLAG_ASYMMETRIC = 0b1000"

definition FLAGS_ALL_DEFINED :: u8 where
  "FLAGS_ALL_DEFINED = FLAG_NAT OR FLAG_CLIENT_TIMEOUT OR FLAG_COMMAND OR FLAG_ASYMMETRIC"

definition flags_new :: flags where
  "flags_new = Flags 0"

definition flags_from_raw_unchecked :: "u8 \<Rightarrow> flags" where
  "flags_from_raw_unchecked byte = Flags byte"

definition flags_from_raw :: "u8 \<Rightarrow> proto_error + flags" where
  "flags_from_raw byte =
     (let reserved = byte AND NOT FLAGS_ALL_DEFINED in
      if reserved \<noteq> 0 then Err (ReservedFlag reserved) else Ok (Flags byte))"

definition flags_contains :: "flags \<Rightarrow> u8 \<Rightarrow> bool" where
  "flags_contains f bits \<longleftrightarrow> flags_raw f AND bits \<noteq> 0"

definition flags_set :: "flags \<Rightarrow> u8 \<Rightarrow> flags" where
  "flags_set f bits = Flags (flags_raw f OR bits)"

record header =
  h_version :: u8
  h_flags :: flags
  h_payload_len :: u16

definition header_new :: "flags \<Rightarrow> u16 \<Rightarrow> header" where
  "header_new f n = \<lparr>h_version = PROTO_VERSION, h_flags = f, h_payload_len = n\<rparr>"

definition header_encode :: "header \<Rightarrow> bytes" where
  "header_encode h =
     (let len = u16_to_be_bytes (h_payload_len h) in
      [h_version h, flags_raw (h_flags h), fst len, snd len])"

definition header_decode :: "bytes \<Rightarrow> proto_error + header" where
  "header_decode bs =
     (if length bs < HEADER_LEN then Err (PacketTooShort (length bs) HEADER_LEN)
      else let version = bs ! 0 in
        if version \<noteq> PROTO_VERSION then Err (UnsupportedVersion version)
        else and_then (flags_from_raw (bs ! 1)) (\<lambda>f.
          Ok \<lparr>h_version = version, h_flags = f,
              h_payload_len = u16_from_be_bytes (bs ! 2) (bs ! 3)\<rparr>))"

subsection \<open>AEAD, HMAC and HKDF wrappers\<close>

definition KEY_LEN :: nat where "KEY_LEN = 32"
definition NONCE_LEN :: nat where "NONCE_LEN = 12"
definition TAG_LEN :: nat where "TAG_LEN = 16"
definition HMAC_LEN :: nat where "HMAC_LEN = 32"
definition SUBKEY_LEN :: nat where "SUBKEY_LEN = 32"

text \<open>The argument is what the system random generator delivers: \<open>None\<close> when it fails.\<close>

definition generate_nonce :: "bytes option \<Rightarrow> proto_error + bytes" where
  "generate_nonce rng = ok_or rng AeadFailed"

definition aead_seal :: "libs \<Rightarrow> bytes \<Rightarrow> bytes \<Rightarrow> bytes \<Rightarrow> bytes \<Rightarrow> proto_error + bytes" where
  "aead_seal L key nonce aad plaintext =
     (if length key \<noteq> KEY_LEN then Err AeadFailed
      else ok_or (ring_seal L key nonce aad plaintext) AeadFailed)"

definition aead_open :: "libs \<Rightarrow> bytes \<Rightarrow> bytes \<Rightarrow> bytes \<Rightarrow> bytes \<Rightarrow> proto_error + bytes" where
  "aead_open L key nonce aad ct =
     (if length key \<noteq> KEY_LEN then Err AeadFailed
      else if length ct < TAG_LEN then Err AeadFailed
      else ok_or (ring_open L key nonce aad ct) AeadFailed)"

definition hmac_sign :: "libs \<Rightarrow> bytes \<Rightarrow> bytes \<Rightarrow> bytes" where
  "hmac_sign L key message = ring_hmac_sign L key message"

definition hmac_verify :: "libs \<Rightarrow> bytes \<Rightarrow> bytes \<Rightarrow> bytes \<Rightarrow> proto_error + unit" where
  "hmac_verify L key message tag =
     (if length tag \<noteq> HMAC_LEN then Err HmacFailed
      else if ring_hmac_verify L key message tag then Ok () else Err HmacFailed)"

definition ascii_bytes :: "string \<Rightarrow> bytes" where
  "ascii_bytes s = map (\<lambda>c. of_nat (code c)) s"

definition ENC_SALT :: bytes where "ENC_SALT = ascii_bytes ''fwknox-enc-v1''"
definition HMAC_SALT :: bytes where "HMAC_SALT = ascii_bytes ''fwknox-hmac-v1''"
definition ENC_INFO :: bytes where "ENC_INFO = ascii_bytes ''encryption''"
definition HMAC_INFO :: bytes where "HMAC_INFO = ascii_bytes ''authentication''"

record derived_keys =
  dk_enc :: bytes
  dk_hmac :: bytes

definition derive_one :: "libs \<Rightarrow> bytes \<Rightarrow> bytes \<Rightarrow> bytes \<Rightarrow> proto_error + bytes" where
  "derive_one L ikm salt info = ok_or (ring_hkdf L salt ikm info SUBKEY_LEN) HkdfFailed"

definition derive_keys :: "libs \<Rightarrow> bytes \<Rightarrow> proto_error + derived_keys" where
  "derive_keys L master_key =
     and_then (derive_one L master_key ENC_SALT ENC_INFO) (\<lambda>enc.
     and_then (derive_one L master_key HMAC_SALT HMAC_INFO) (\<lambda>hmac.
       Ok \<lparr>dk_enc = enc, dk_hmac = hmac\<rparr>))"

subsection \<open>Payload\<close>

definition MAX_USERNAME_LEN :: nat where "MAX_USERNAME_LEN = 64"
definition MAX_ENCODED_LEN :: nat where "MAX_ENCODED_LEN = 1024"

definition payload_encode :: "libs \<Rightarrow> spa_payload \<Rightarrow> proto_error + bytes" where
  "payload_encode L p =
     and_then (map_err PayloadEncode (rmp_to_vec L p)) (\<lambda>bs.
       if MAX_ENCODED_LEN < length bs then Err (InvalidField ''payload too large'')
       else Ok bs)"

definition validate_structure :: "spa_payload \<Rightarrow> proto_error + unit" where
  "validate_structure p =
     (if MAX_USERNAME_LEN < length (pl_username p)
      then Err (InvalidField ''username too long'')
      else if \<not> list_all (\<lambda>c. is_ascii_graphic c \<or> c = CHR '' '') (pl_username p)
      then Err (InvalidField ''username contains control bytes'')
      else Ok ())"

definition payload_decode :: "libs \<Rightarrow> bytes \<Rightarrow> proto_error + spa_payload" where
  "payload_decode L bs =
     and_then (map_err PayloadDecode (rmp_from_slice L bs)) (\<lambda>p.
     and_then (validate_structure p) (\<lambda>_. Ok p))"

subsection \<open>Packets\<close>

definition MASTER_KEY_LEN :: nat where "MASTER_KEY_LEN = 32"
definition MAX_PACKET_LEN :: nat where "MAX_PACKET_LEN = 1500"

definition MIN_PACKET_LEN :: nat where
  "MIN_PACKET_LEN = HEADER_LEN + NONCE_LEN + TAG_LEN + HMAC_LEN"

definition derive_flags :: "spa_message \<Rightarrow> bool \<Rightarrow> flags" where
  "derive_flags message has_client_timeout =
     (let f = flags_new;
          f = (case message of
                 Access _ _ \<Rightarrow> f
               | Nat _ _ _ \<Rightarrow> flags_set f FLAG_NAT
               | LocalNat _ _ _ \<Rightarrow> flags_set f FLAG_NAT
               | Command _ _ \<Rightarrow> flags_set f FLAG_COMMAND)
      in if has_client_timeout then flags_set f FLAG_CLIENT_TIMEOUT else f)"

definition check_flags_match_payload :: "flags \<Rightarrow> spa_payload \<Rightarrow> proto_error + unit" where
  "check_flags_match_payload f p =
     (let expected = derive_flags (pl_message p) (pl_client_timeout p \<noteq> None) in
      if flags_raw f \<noteq> flags_raw expected then Err (InvalidField ''flag/payload mismatch'')
      else Ok ())"

definition build_packet ::
  "libs \<Rightarrow> bytes option \<Rightarrow> spa_payload \<Rightarrow> bytes \<Rightarrow> proto_error + bytes" where
  "build_packet L rng payload master_key =
     (if length master_key \<noteq> MASTER_KEY_LEN
      then Err (InvalidField ''master_key must be 32 bytes'')
      else
        and_then (payload_encode L payload) (\<lambda>plaintext.
        and_then (generate_nonce rng) (\<lambda>nonce.
        let f = derive_flags (pl_message payload) (pl_client_timeout payload \<noteq> None) in
        if 65535 < length plaintext + TAG_LEN
        then Err (PacketTooLong (length plaintext + TAG_LEN) 65535)
        else
          let header_bytes = header_encode (header_new f (of_nat (length plaintext + TAG_LEN))) in
          and_then (derive_keys L master_key) (\<lambda>keys.
          and_then (aead_seal L (dk_enc keys) nonce header_bytes plaintext) (\<lambda>ciphertext.
          let packet = header_bytes @ nonce @ ciphertext;
              packet = packet @ hmac_sign L (dk_hmac keys) packet in
          if MAX_PACKET_LEN < length packet
          then Err (PacketTooLong (length packet) MAX_PACKET_LEN)
          else Ok packet)))))"

text \<open>The part of \<open>parse_packet\<close> after the HMAC check, on the signed bytes.\<close>

definition parse_signed ::
  "libs \<Rightarrow> derived_keys \<Rightarrow> bytes \<Rightarrow> (proto_error + spa_payload) option" where
  "parse_signed L keys signed_part = do {
     header_bytes \<leftarrow> slice_to signed_part HEADER_LEN;
     (case header_decode header_bytes of
        Err e \<Rightarrow> Some (Err e)
      | Ok header \<Rightarrow> do {
          nonce \<leftarrow> slice_range signed_part HEADER_LEN (HEADER_LEN + NONCE_LEN);
          ciphertext \<leftarrow> slice_from signed_part (HEADER_LEN + NONCE_LEN);
          Some (if length ciphertext \<noteq> unat (h_payload_len header)
                then Err (InvalidField ''payload_len mismatch'')
                else
                  and_then (aead_open L (dk_enc keys) nonce header_bytes ciphertext) (\<lambda>plaintext.
                  and_then (payload_decode L plaintext) (\<lambda>payload.
                  and_then (check_flags_match_payload (h_flags header) payload) (\<lambda>_.
                    Ok payload))))
        })
   }"

definition parse_packet ::
  "libs \<Rightarrow> bytes \<Rightarrow> bytes \<Rightarrow> (proto_error + spa_payload) option" where
  "parse_packet L wire master_key =
     (if length master_key \<noteq> MASTER_KEY_LEN
      then Some (Err (InvalidField ''master_key must be 32 bytes''))
      else if length wire < MIN_PACKET_LEN
      then Some (Err (PacketTooShort (length wire) MIN_PACKET_LEN))
      else if MAX_PACKET_LEN < length wire
      then Some (Err (PacketTooLong (length wire) MAX_PACKET_LEN))
      else do {
        (signed_part, tag) \<leftarrow> split_at wire (length wire - HMAC_LEN);
        (case derive_keys L master_key of
           Err e \<Rightarrow> Some (Err e)
         | Ok keys \<Rightarrow>
             (case hmac_verify L (dk_hmac keys) signed_part tag of
                Err e \<Rightarrow> Some (Err e)
              | Ok _ \<Rightarrow> parse_signed L keys signed_part))
      })"

subsection \<open>Clock check\<close>

definition DEFAULT_MAX_AGE_SECS :: i64 where "DEFAULT_MAX_AGE_SECS = 120"
definition DEFAULT_MAX_SKEW_SECS :: i64 where "DEFAULT_MAX_SKEW_SECS = 30"

definition validate_against_clock ::
  "spa_payload \<Rightarrow> i64 \<Rightarrow> i64 \<Rightarrow> i64 \<Rightarrow> proto_error + unit" where
  "validate_against_clock payload now_unix max_age_secs max_skew_secs =
     (let delta = now_unix - pl_timestamp payload in
      if sint delta < sint (- max_skew_secs) then Err (PacketInFuture (- delta))
      else if sint max_age_secs < sint delta then Err (PacketTooOld delta max_age_secs)
      else Ok ())"


subsection \<open>A sample packet\<close>

definition demo_key :: bytes where
  "demo_key = replicate 32 5"

definition demo_nonce :: bytes where
  "demo_nonce = replicate 12 9"

definition demo_wire :: bytes where
  "demo_wire = (case build_packet demo_libs (Some demo_nonce) demo_payload demo_key of
     Ok w \<Rightarrow> w | Err _ \<Rightarrow> [])"

subsection \<open>Lemmas on the header\<close>

lemmas const_defs = PROTO_VERSION_def HEADER_LEN_def KEY_LEN_def NONCE_LEN_def TAG_LEN_def
  HMAC_LEN_def SUBKEY_LEN_def MASTER_KEY_LEN_def MAX_PACKET_LEN_def MIN_PACKET_LEN_def
  MAX_USERNAME_LEN_def MAX_ENCODED_LEN_def

lemmas flag_defs = FLAGS_ALL_DEFINED_def FLAG_NAT_def FLAG_CLIENT_TIMEOUT_def FLAG_COMMAND_def
  FLAG_ASYMMETRIC_def flags_new_def flags_set_def

lemma flags_from_raw_Ok: "flags_from_raw b = Ok f \<longleftrightarrow> f = Flags b \<and> b AND NOT FLAGS_ALL_DEFINED = 0"
  by (auto simp: flags_from_raw_def Let_def)

lemma header_encode_length [simp]: "length (header_encode h) = HEADER_LEN"
  by (simp add: header_encode_def HEADER_LEN_def Let_def)

lemma header_decode_Ok:
  "header_decode bs = Ok h \<longleftrightarrow>
     HEADER_LEN \<le> length bs \<and> bs ! 0 = PROTO_VERSION \<and> bs ! 1 AND NOT FLAGS_ALL_DEFINED = 0 \<and>
     h = \<lparr>h_version = PROTO_VERSION, h_flags = Flags (bs ! 1),
          h_payload_len = u16_from_be_bytes (bs ! 2) (bs ! 3)\<rparr>"
  by (auto simp: header_decode_def Let_def and_then_eq_Ok flags_from_raw_Ok)

lemma header_decode_encode:
  assumes "h_version h = PROTO_VERSION" "flags_raw (h_flags h) AND NOT FLAGS_ALL_DEFINED = 0"
  shows "header_decode (header_encode h) = Ok h"
  using assms by (simp add: header_decode_Ok header_encode_def Let_def HEADER_LEN_def)

lemma header_encode_decoded:
  assumes "header_decode bs = Ok h"
  shows "header_encode h = take HEADER_LEN bs"
proof -
  obtain a b c d r where "bs = a # b # c # d # r"
    using assms by (auto simp: header_decode_Ok HEADER_LEN_def Suc_le_length_iff numeral_eq_Suc)
  then show ?thesis
    using assms by (simp add: header_decode_Ok header_encode_def HEADER_LEN_def)
qed

lemma derive_flags_defined:
  "flags_raw (derive_flags m t) AND NOT FLAGS_ALL_DEFINED = 0"
  by (cases m; cases t; simp add: derive_flags_def flag_defs)

subsection \<open>Lemmas on parsing\<close>

lemma split_at_Some [simp]: "n \<le> length xs \<Longrightarrow> split_at xs n = Some (take n xs, drop n xs)"
  by (simp add: slice_defs)

text \<open>On a packet of legal size every slice is in range.\<close>

lemma parse_packet_in_range:
  assumes "length key = MASTER_KEY_LEN" "MIN_PACKET_LEN \<le> length wire"
    "length wire \<le> MAX_PACKET_LEN"
  shows "parse_packet L wire key =
    (case derive_keys L key of
       Err e \<Rightarrow> Some (Err e)
     | Ok keys \<Rightarrow>
         (case hmac_verify L (dk_hmac keys) (take (length wire - HMAC_LEN) wire)
                 (drop (length wire - HMAC_LEN) wire) of
            Err e \<Rightarrow> Some (Err e)
          | Ok _ \<Rightarrow> parse_signed L keys (take (length wire - HMAC_LEN) wire)))"
  using assms by (simp add: parse_packet_def split: sum.splits)

lemma parse_signed_in_range:
  assumes "HEADER_LEN + NONCE_LEN \<le> length s"
  shows "parse_signed L keys s = Some (
    and_then (header_decode (take HEADER_LEN s)) (\<lambda>h.
      if length s - (HEADER_LEN + NONCE_LEN) \<noteq> unat (h_payload_len h)
      then Err (InvalidField ''payload_len mismatch'')
      else and_then (aead_open L (dk_enc keys) (take NONCE_LEN (drop HEADER_LEN s))
                       (take HEADER_LEN s) (drop (HEADER_LEN + NONCE_LEN) s)) (\<lambda>plaintext.
           and_then (payload_decode L plaintext) (\<lambda>payload.
           and_then (check_flags_match_payload (h_flags h) payload) (\<lambda>_. Ok payload)))))"
  using assms
  by (auto simp: parse_signed_def slice_defs drop_take and_then_def split: sum.splits)

lemma check_flags_Ok:
  "check_flags_match_payload f p = Ok u \<longleftrightarrow>
     f = derive_flags (pl_message p) (pl_client_timeout p \<noteq> None)"
  by (cases f; cases "derive_flags (pl_message p) (pl_client_timeout p \<noteq> None)")
    (auto simp: check_flags_match_payload_def Let_def)

lemma payload_decode_Ok:
  "payload_decode L v = Ok p \<longleftrightarrow> rmp_from_slice L v = Ok p \<and> validate_structure p = Ok ()"
  by (auto simp: payload_decode_def and_then_eq_Ok map_err_def split: sum.splits)

lemma hmac_verify_Ok:
  "hmac_verify L k m t = Ok u \<longleftrightarrow> length t = HMAC_LEN \<and> ring_hmac_verify L k m t"
  by (auto simp: hmac_verify_def)

lemma aead_open_Ok:
  "aead_open L k n a c = Ok p \<longleftrightarrow>
     length k = KEY_LEN \<and> TAG_LEN \<le> length c \<and> ring_open L k n a c = Some p"
  by (auto simp: aead_open_def ok_or_def split: option.splits)

lemma build_packet_Ok:
  "build_packet L rng p key = Ok wire \<longleftrightarrow>
     length key = MASTER_KEY_LEN \<and>
     (\<exists>pt nonce keys ct.
        payload_encode L p = Ok pt \<and> rng = Some nonce \<and> derive_keys L key = Ok keys \<and>
        length pt + TAG_LEN \<le> 65535 \<and>
        aead_seal L (dk_enc keys) nonce
          (header_encode (header_new (derive_flags (pl_message p) (pl_client_timeout p \<noteq> None))
            (of_nat (length pt + TAG_LEN)))) pt = Ok ct \<and>
        wire = (let body = header_encode (header_new
                  (derive_flags (pl_message p) (pl_client_timeout p \<noteq> None))
                  (of_nat (length pt + TAG_LEN))) @ nonce @ ct
                in body @ hmac_sign L (dk_hmac keys) body) \<and>
        length wire \<le> MAX_PACKET_LEN)"
  unfolding build_packet_def Let_def guard_eq_Ok and_then_eq_Ok generate_nonce_def
    ok_or_eq_Ok not_less sum.inject
  by blast

subsection \<open>The protocol over any lawful libraries\<close>

context proto_libs
begin

lemma derive_keys_total:
  "\<exists>keys. derive_keys L key = Ok keys \<and> length (dk_enc keys) = SUBKEY_LEN \<and>
     length (dk_hmac keys) = SUBKEY_LEN"
proof -
  have one: "\<exists>out. ring_hkdf L s i f SUBKEY_LEN = Some out \<and> length out = SUBKEY_LEN" for s i f
    using hkdf_total [of SUBKEY_LEN s i f] hkdf_length [of s i f SUBKEY_LEN]
    by (auto simp: SUBKEY_LEN_def)
  obtain e h where "ring_hkdf L ENC_SALT key ENC_INFO SUBKEY_LEN = Some e" "length e = SUBKEY_LEN"
    and "ring_hkdf L HMAC_SALT key HMAC_INFO SUBKEY_LEN = Some h" "length h = SUBKEY_LEN"
    using one by meson
  then show ?thesis
    by (auto simp: derive_keys_def derive_one_def)
qed

lemma aead_seal_Ok:
  "aead_seal L k n a p = Ok c \<Longrightarrow> length c = length p + TAG_LEN \<and> aead_open L k n a c = Ok p"
  by (auto simp: aead_seal_def aead_open_Ok guard_eq_Ok TAG_LEN_def dest: seal_length open_seal)

lemma hmac_sign_length [simp]: "length (hmac_sign L k m) = HMAC_LEN"
  by (simp add: hmac_sign_def hmac_length HMAC_LEN_def)

lemma hmac_verify_iff: "hmac_verify L k m t = Ok u \<longleftrightarrow> t = hmac_sign L k m"
  by (auto simp: hmac_verify_Ok hmac_verify hmac_sign_def hmac_length HMAC_LEN_def)

lemma hmac_verify_sign [simp]: "hmac_verify L k m (hmac_sign L k m) = Ok ()"
  by (simp add: hmac_verify_iff)

lemma hmac_verify_reject: "t \<noteq> hmac_sign L k m \<Longrightarrow> hmac_verify L k m t = Err HmacFailed"
  by (auto simp: hmac_verify_def hmac_verify hmac_sign_def)

lemma build_then_parse:
  assumes wf: "wf_payload p" and str: "validate_structure p = Ok ()"
    and nonce: "length nonce = NONCE_LEN"
    and built: "build_packet L (Some nonce) p key = Ok wire"
  shows "parse_packet L wire key = Some (Ok p)"
proof -
  obtain pt keys ct where key: "length key = MASTER_KEY_LEN"
    and enc: "payload_encode L p = Ok pt" and keys: "derive_keys L key = Ok keys"
    and small: "length pt + TAG_LEN \<le> 65535"
    and seal: "aead_seal L (dk_enc keys) nonce (header_encode (header_new
        (derive_flags (pl_message p) (pl_client_timeout p \<noteq> None))
        (of_nat (length pt + TAG_LEN)))) pt = Ok ct"
    and wire: "wire = (let body = header_encode (header_new
        (derive_flags (pl_message p) (pl_client_timeout p \<noteq> None))
        (of_nat (length pt + TAG_LEN))) @ nonce @ ct
      in body @ hmac_sign L (dk_hmac keys) body)"
    and max: "length wire \<le> MAX_PACKET_LEN"
    using built unfolding build_packet_Ok by blast
  define h where "h = header_new (derive_flags (pl_message p) (pl_client_timeout p \<noteq> None))
    (of_nat (length pt + TAG_LEN))"
  have w: "wire = (header_encode h @ nonce @ ct) @
      hmac_sign L (dk_hmac keys) (header_encode h @ nonce @ ct)"
    using wire by (simp add: h_def Let_def)
  have ct: "length ct = length pt + TAG_LEN" "aead_open L (dk_enc keys) nonce (header_encode h) ct = Ok pt"
    using aead_seal_Ok [OF seal] by (auto simp: h_def)
  have rmp: "rmp_to_vec L p = Ok pt"
    using enc by (simp add: payload_encode_def and_then_eq_Ok guard_eq_Ok)
  have dec: "payload_decode L pt = Ok p"
    using rmp_roundtrip [OF wf rmp] str by (simp add: payload_decode_Ok)
  have h: "header_decode (header_encode h) = Ok h"
    by (rule header_decode_encode) (simp_all add: h_def header_new_def derive_flags_defined)
  have len: "unat (h_payload_len h) = length ct"
    using small ct by (simp add: h_def header_new_def unat_of_nat_small del: of_nat_add)
  have "parse_signed L keys (header_encode h @ nonce @ ct) = Some (Ok p)"
    using h len ct(2) dec nonce by (subst parse_signed_in_range)
      (simp_all add: check_flags_match_payload_def h_def header_new_def)
  moreover have "MIN_PACKET_LEN \<le> length wire" "take (length wire - HMAC_LEN) wire = header_encode h @ nonce @ ct"
    "drop (length wire - HMAC_LEN) wire = hmac_sign L (dk_hmac keys) (header_encode h @ nonce @ ct)"
    using ct nonce by (simp_all add: w MIN_PACKET_LEN_def)
  ultimately show ?thesis
    using key max keys
    by (simp add: parse_packet_in_range)
qed

lemma build_total:
  assumes key: "length key = MASTER_KEY_LEN" and enc: "payload_encode L p = Ok pt"
    and nonce: "length nonce = NONCE_LEN"
  shows "\<exists>wire. build_packet L (Some nonce) p key = Ok wire \<and>
    length wire = MIN_PACKET_LEN + length pt \<and> length wire \<le> MAX_PACKET_LEN"
proof -
  obtain keys where keys: "derive_keys L key = Ok keys" "length (dk_enc keys) = SUBKEY_LEN"
    using derive_keys_total by blast
  have pt: "length pt \<le> MAX_ENCODED_LEN"
    using enc by (simp add: payload_encode_def and_then_eq_Ok guard_eq_Ok)
  define h where "h = header_encode (header_new (derive_flags (pl_message p)
    (pl_client_timeout p \<noteq> None)) (of_nat (length pt + TAG_LEN)))"
  obtain ct where ct: "aead_seal L (dk_enc keys) nonce h pt = Ok ct"
    using seal_total [of "dk_enc keys" nonce pt h] keys(2) nonce pt
    by (auto simp: aead_seal_def const_defs)
  have "length ct = length pt + TAG_LEN"
    using aead_seal_Ok [OF ct] by simp
  then show ?thesis
    using key enc keys ct nonce pt
    by (auto simp: build_packet_Ok h_def Let_def const_defs)
qed

lemma parse_accepts:
  assumes parsed: "parse_packet L wire key = Some (Ok p)"
  shows "length key = MASTER_KEY_LEN \<and> MIN_PACKET_LEN \<le> length wire \<and>
    length wire \<le> MAX_PACKET_LEN \<and>
    (\<exists>keys h nonce ct pt.
       derive_keys L key = Ok keys \<and> h_version h = PROTO_VERSION \<and>
       h_flags h = derive_flags (pl_message p) (pl_client_timeout p \<noteq> None) \<and>
       length nonce = NONCE_LEN \<and> unat (h_payload_len h) = length ct \<and>
       wire = header_encode h @ nonce @ ct @
         hmac_sign L (dk_hmac keys) (header_encode h @ nonce @ ct) \<and>
       ring_open L (dk_enc keys) nonce (header_encode h) ct = Some pt \<and>
       rmp_from_slice L pt = Ok p \<and> validate_structure p = Ok ())"
proof -
  have size: "length key = MASTER_KEY_LEN" "MIN_PACKET_LEN \<le> length wire"
    "length wire \<le> MAX_PACKET_LEN"
    using parsed by (auto simp: parse_packet_def split: if_splits)
  define s where "s = take (length wire - HMAC_LEN) wire"
  define t where "t = drop (length wire - HMAC_LEN) wire"
  have s: "HEADER_LEN + NONCE_LEN \<le> length s" "HEADER_LEN \<le> length s"
    using size by (auto simp: s_def const_defs)
  obtain keys where keys: "derive_keys L key = Ok keys" "t = hmac_sign L (dk_hmac keys) s"
    and "parse_signed L keys s = Some (Ok p)"
    using parsed hmac_verify_iff unfolding parse_packet_in_range [OF size]
    by (fastforce simp: s_def t_def split: sum.splits)
  then obtain h pt where h: "header_decode (take HEADER_LEN s) = Ok h"
    "length s - (HEADER_LEN + NONCE_LEN) = unat (h_payload_len h)"
    and pt: "aead_open L (dk_enc keys) (take NONCE_LEN (drop HEADER_LEN s)) (take HEADER_LEN s)
      (drop (HEADER_LEN + NONCE_LEN) s) = Ok pt"
    and p: "payload_decode L pt = Ok p" "check_flags_match_payload (h_flags h) p = Ok ()"
    unfolding parse_signed_in_range [OF s(1)]
    by (auto simp: and_then_eq_Ok split: if_splits)
  have enc: "header_encode h = take HEADER_LEN s"
    using h(1) header_encode_decoded by simp
  have split: "wire = header_encode h @ take NONCE_LEN (drop HEADER_LEN s) @
      drop (HEADER_LEN + NONCE_LEN) s @ t"
    unfolding enc take_drop_chunks by (simp add: s_def t_def)
  show ?thesis
    using size keys s h enc pt p split
    by (intro conjI exI [of _ keys] exI [of _ h] exI [of _ "take NONCE_LEN (drop HEADER_LEN s)"]
        exI [of _ "drop (HEADER_LEN + NONCE_LEN) s"] exI [of _ pt])
      (auto simp: header_decode_Ok check_flags_Ok aead_open_Ok payload_decode_Ok take_drop_chunks)
qed

end

lemma parse_packet_total: "\<exists>r. parse_packet L wire key = Some r"
proof (cases "length key = MASTER_KEY_LEN \<and> MIN_PACKET_LEN \<le> length wire \<and>
    length wire \<le> MAX_PACKET_LEN")
  case True
  then show ?thesis
    by (auto simp: parse_packet_in_range parse_signed_in_range const_defs split: sum.splits)
next
  case False
  then show ?thesis by (auto simp: parse_packet_def)
qed

lemma clock_window:
  assumes "0 \<le> sint now" "sint now < 2 ^ 62" "0 \<le> sint max_skew" "sint max_skew < 2 ^ 62"
    and "sint max_age < 2 ^ 62"
  shows "validate_against_clock p now max_age max_skew = Ok () \<longleftrightarrow>
    sint now - sint max_age \<le> sint (pl_timestamp p) \<and>
    sint (pl_timestamp p) \<le> sint now + sint max_skew"
  using assms sint_i64_range [of "pl_timestamp p"]
  by (auto simp: validate_against_clock_def Let_def sint_minus_nonneg sint_uminus_i64
      split: if_splits)

subsection \<open>Properties\<close>

text \<open>
  C17. Round trip of a packet: what \<open>build_packet\<close> produces under a key, \<open>parse_packet\<close> under
  the same key accepts, and returns the payload that was sent, for every payload whose
  username passes the structural check.
\<close>

theorem build_packet_parse_packet:
  assumes "proto_libs L" and "wf_payload p" and "validate_structure p = Ok ()"
    and "length nonce = NONCE_LEN"
    and "build_packet L (Some nonce) p key = Ok wire"
  shows "parse_packet L wire key = Some (Ok p)"
  using proto_libs.build_then_parse [OF assms] .

lemma demo_payload_ok: "wf_payload demo_payload" "validate_structure demo_payload = Ok ()"
  by code_simp+

lemma demo_encoded: "payload_encode demo_libs demo_payload = Ok [1]"
  by (simp add: payload_encode_def demo_libs_def MAX_ENCODED_LEN_def)

lemma demo_lengths: "length demo_key = MASTER_KEY_LEN" "length demo_nonce = NONCE_LEN"
  by (simp_all add: demo_key_def demo_nonce_def const_defs)

lemma demo_wire_built:
  "build_packet demo_libs (Some demo_nonce) demo_payload demo_key = Ok demo_wire"
  "length demo_wire = 65"
  using demo.build_total [OF demo_lengths(1) demo_encoded demo_lengths(2)]
  by (auto simp: demo_wire_def const_defs)

theorem build_packet_parse_packet_witness:
  "parse_packet demo_libs demo_wire demo_key = Some (Ok demo_payload) \<and> length demo_wire = 65"
  using build_packet_parse_packet [OF demo.proto_libs_axioms demo_payload_ok demo_lengths(2)
      demo_wire_built(1)] demo_wire_built(2) by simp

text \<open>
  A payload that encodes always makes a packet: with a 32-byte key and a nonce from the
  generator \<open>build_packet\<close> succeeds, the packet is 64 bytes longer than the plaintext, and
  it never exceeds 1500 bytes, so the last check of \<open>build_packet\<close> cannot fail.
\<close>

theorem build_packet_succeeds:
  assumes "proto_libs L" and "length key = MASTER_KEY_LEN" and "payload_encode L p = Ok pt"
    and "length nonce = NONCE_LEN"
  shows "\<exists>wire. build_packet L (Some nonce) p key = Ok wire \<and>
           length wire = 64 + length pt \<and> length wire \<le> MAX_PACKET_LEN"
  using proto_libs.build_total [OF assms] by (simp add: const_defs)

theorem build_packet_succeeds_witness:
  "\<exists>wire. build_packet demo_libs (Some demo_nonce) demo_payload demo_key = Ok wire \<and>
     length wire = 64 + length [1 :: u8] \<and> length wire \<le> MAX_PACKET_LEN"
  by (rule build_packet_succeeds [OF demo.proto_libs_axioms demo_lengths(1) demo_encoded
        demo_lengths(2)])


text \<open>
  C18. What acceptance guarantees: a packet \<open>parse_packet\<close> accepts is exactly header, nonce,
  ciphertext and the HMAC of those three under the derived key; the header is a valid
  version-1 header whose length field is the ciphertext's length and whose flags are those
  of the payload; the ciphertext opens with the header as associated data; and the decoded
  payload passes the structural check.
\<close>

theorem parse_packet_authentic:
  assumes "proto_libs L" and "parse_packet L wire key = Some (Ok p)"
  shows "MIN_PACKET_LEN \<le> length wire \<and> length wire \<le> MAX_PACKET_LEN \<and>
    (\<exists>keys h nonce ct pt.
       derive_keys L key = Ok keys \<and> h_version h = PROTO_VERSION \<and>
       h_flags h = derive_flags (pl_message p) (pl_client_timeout p \<noteq> None) \<and>
       length nonce = NONCE_LEN \<and> unat (h_payload_len h) = length ct \<and>
       wire = header_encode h @ nonce @ ct @
         hmac_sign L (dk_hmac keys) (header_encode h @ nonce @ ct) \<and>
       ring_open L (dk_enc keys) nonce (header_encode h) ct = Some pt \<and>
       rmp_from_slice L pt = Ok p \<and> validate_structure p = Ok ())"
  using proto_libs.parse_accepts [OF assms] by simp

lemma demo_parsed: "parse_packet demo_libs demo_wire demo_key = Some (Ok demo_payload)"
  using demo.build_then_parse [OF demo_payload_ok demo_lengths(2) demo_wire_built(1)] .

theorem parse_packet_authentic_witness:
  "64 \<le> length demo_wire \<and> length demo_wire \<le> 1500 \<and>
   (\<exists>keys h nonce ct. derive_keys demo_libs demo_key = Ok keys \<and>
      demo_wire = header_encode h @ nonce @ ct @
        hmac_sign demo_libs (dk_hmac keys) (header_encode h @ nonce @ ct))"
  using parse_packet_authentic [OF demo.proto_libs_axioms demo_parsed]
  by (auto simp: const_defs)

text \<open>
  C26. The MAC is checked before anything else: a packet of legal size with a wrong tag is
  rejected as \<open>HmacFailed\<close>, whatever the rest of it holds and whatever AES-GCM and
  MessagePack decoding would do with it.
\<close>

theorem parse_packet_mac_first:
  assumes "proto_libs L" and "length key = MASTER_KEY_LEN"
    and "MIN_PACKET_LEN \<le> length wire" and "length wire \<le> MAX_PACKET_LEN"
    and "derive_keys L key = Ok keys"
    and "drop (length wire - HMAC_LEN) wire \<noteq>
         hmac_sign L (dk_hmac keys) (take (length wire - HMAC_LEN) wire)"
  shows "parse_packet (L\<lparr>ring_open := f, rmp_from_slice := g\<rparr>) wire key = Some (Err HmacFailed)"
proof -
  have "derive_keys (L\<lparr>ring_open := f, rmp_from_slice := g\<rparr>) key = Ok keys"
    using assms(5) by (simp add: derive_keys_def derive_one_def)
  moreover have "hmac_verify (L\<lparr>ring_open := f, rmp_from_slice := g\<rparr>) k m t = hmac_verify L k m t"
    for k m t by (simp add: hmac_verify_def)
  ultimately show ?thesis
    using assms(2-4) proto_libs.hmac_verify_reject [OF assms(1,6)]
    by (simp add: parse_packet_in_range)
qed

lemma demo_keys: "derive_keys demo_libs key =
  Ok \<lparr>dk_enc = replicate 32 (byte_sum (ENC_SALT @ key @ ENC_INFO)),
      dk_hmac = replicate 32 (byte_sum (HMAC_SALT @ key @ HMAC_INFO))\<rparr>"
  by (simp add: derive_keys_def derive_one_def demo_libs_def SUBKEY_LEN_def)

theorem parse_packet_mac_first_witness:
  "parse_packet (demo_libs\<lparr>ring_open := (\<lambda>_ _ _ _. None), rmp_from_slice := (\<lambda>_. Err [])\<rparr>)
     (replicate 69 0 @ [1]) demo_key = Some (Err HmacFailed)"
  by (rule parse_packet_mac_first [OF demo.proto_libs_axioms _ _ _ demo_keys])
    (simp_all add: demo_lengths const_defs hmac_sign_def demo_libs_def demo_hmac_def numeral_eq_Suc)

text \<open>
  Header codec: \<open>Header::decode\<close> accepts exactly the byte strings that start with the
  encoding of a version-1 header without reserved flag bits, and returns that header.
\<close>

theorem header_decode_exact:
  "header_decode bs = Ok h \<longleftrightarrow>
     h_version h = PROTO_VERSION \<and> flags_raw (h_flags h) AND NOT FLAGS_ALL_DEFINED = 0 \<and>
     take HEADER_LEN bs = header_encode h"
proof
  assume d: "header_decode bs = Ok h"
  then show "h_version h = PROTO_VERSION \<and> flags_raw (h_flags h) AND NOT FLAGS_ALL_DEFINED = 0 \<and>
     take HEADER_LEN bs = header_encode h"
    using header_encode_decoded [OF d] by (simp add: header_decode_Ok)
next
  assume a: "h_version h = PROTO_VERSION \<and> flags_raw (h_flags h) AND NOT FLAGS_ALL_DEFINED = 0 \<and>
     take HEADER_LEN bs = header_encode h"
  have "header_decode (header_encode h @ drop HEADER_LEN bs) = Ok h"
    using a header_decode_encode [of h]
    by (simp add: header_decode_Ok nth_append) (simp add: HEADER_LEN_def)
  then show "header_decode bs = Ok h"
    using a append_take_drop_id [of HEADER_LEN bs] by simp
qed

text \<open>
  C27. The clock check is exact although its subtraction wraps at 64 bits: for a clock between
  1970 and the year 2 ^ 62 s and limits below 2 ^ 62 s, a payload with any 64-bit timestamp
  is accepted iff it lies in the window \<open>[now - max_age, now + max_skew]\<close>.
\<close>

theorem validate_against_clock_window:
  assumes "0 \<le> sint now" "sint now < 2 ^ 62" "0 \<le> sint max_skew" "sint max_skew < 2 ^ 62"
    and "sint max_age < 2 ^ 62"
  shows "validate_against_clock p now max_age max_skew = Ok () \<longleftrightarrow>
    sint now - sint max_age \<le> sint (pl_timestamp p) \<and>
    sint (pl_timestamp p) \<le> sint now + sint max_skew"
  using clock_window [OF assms] .

theorem validate_against_clock_window_witness:
  "validate_against_clock (demo_payload\<lparr>pl_timestamp := 880\<rparr>) 1000 120 30 = Ok () \<and>
   validate_against_clock (demo_payload\<lparr>pl_timestamp := 879\<rparr>) 1000 120 30 \<noteq> Ok () \<and>
   validate_against_clock (demo_payload\<lparr>pl_timestamp := 2 ^ 63\<rparr>) 1000 120 30 \<noteq> Ok ()"
proof -
  have v: "validate_against_clock p 1000 120 30 = Ok () \<longleftrightarrow>
      880 \<le> sint (pl_timestamp p) \<and> sint (pl_timestamp p) \<le> 1030" for p
    using validate_against_clock_window [of 1000 30 120 p] by simp
  show ?thesis by (simp add: v)
qed

end
