(* ===== verification/Config_Shared.thy ===== *)
theory Config_Shared
  imports Proto_Types
begin

text \<open>
  The helper types shared by daemon and client configuration (\<open>fwknox-config/src/shared.rs\<close>)
  and the crate's error type (\<open>error.rs\<close>). The \<open>ipnet\<close> and \<open>base64\<close> crates are the
  parameters of the record \<open>conf_libs\<close>; the formatted reason of an error is a constructor
  that carries the values the text is built from.
\<close>

subsection \<open>Errors\<close>

datatype invalid_reason =
    BadSourceSpec string
  | ExpectedProtoPort string
  | UnknownProtocol string
  | InvalidPort string
  | PortZero
  | NoAccessStanza
  | DuplicateStanza string
  | EmptyOpenPorts string
  | NatWithoutDestination string
  | PlaceholderKey string
  | ExpirationDateUnsupported string
  | NatUnsupported string
  | CmdExecUnsupported string
  | DurationZero string
  | DurationTooLong string
  | DefaultTimeoutExceedsMax
  | CachePathRelative
  | CachePathParentDir
  | PerSourceRateZero
  | GlobalRateZero
  | PerSourceBurstTooSmall
  | GlobalBurstTooSmall
  | TrackedCapacityZero
  | PromotionThresholdZero
  | Ipv6PrefixRange
  | DuplicateServer string
  | EmptyAccessList string
  | EmptyDestination string
  | ServerPortZero string

text \<open>What a \<open>Deserialize\<close> implementation of the crate reports through \<open>serde\<close>.\<close>

datatype toml_error =
    TomlSyntax string
  | InvalidValue invalid_reason
  | TooManyPorts nat
  | TooManySources nat
  | TooManyStanzas nat
  | Base64Decode string
  | KeyLength nat

datatype config_error =
    Io path io_error
  | Toml path toml_error
  | Invalid invalid_reason

subsection \<open>Third-party calls\<close>

text \<open>A network of the \<open>ipnet\<close> crate: an address and a prefix length.\<close>

datatype ip_net = IpNet ip_addr nat

record conf_libs =
  ipnet_parse :: "string \<Rightarrow> ip_net option"
  ipnet_contains :: "ip_net \<Rightarrow> ip_addr \<Rightarrow> bool"
  b64_encode :: "bytes \<Rightarrow> string"
  b64_decode :: "string \<Rightarrow> bytes option"

subsection \<open>Source specifications\<close>

datatype source_spec = Any | Cidr ip_net | Single ip_addr

definition source_matches :: "conf_libs \<Rightarrow> source_spec \<Rightarrow> ip_addr \<Rightarrow> bool" where
  "source_matches L spec ip =
     (case spec of
        Any \<Rightarrow> True
      | Cidr net \<Rightarrow> ipnet_contains L net ip
      | Single addr \<Rightarrow> addr = ip)"

definition source_spec_from_str :: "conf_libs \<Rightarrow> string \<Rightarrow> config_error + source_spec" where
  "source_spec_from_str L s =
     (let s = trim s in
      if eq_ignore_ascii_case s ''any'' then Ok Any
      else case ipnet_parse L s of
        Some net \<Rightarrow> Ok (Cidr net)
      | None \<Rightarrow>
          (case parse_ip_addr s of
             Some ip \<Rightarrow> Ok (Single ip)
           | None \<Rightarrow> Err (Invalid (BadSourceSpec s))))"

text \<open>The errors of a \<open>FromStr\<close> or parser that a deserialiser passes on.\<close>

definition de_custom :: "config_error \<Rightarrow> toml_error" where
  "de_custom e = (case e of Invalid r \<Rightarrow> InvalidValue r | Toml _ t \<Rightarrow> t | Io p _ \<Rightarrow> TomlSyntax p)"

definition deserialize_source_spec :: "conf_libs \<Rightarrow> string \<Rightarrow> toml_error + source_spec" where
  "deserialize_source_spec L s = map_err de_custom (source_spec_from_str L s)"

subsection \<open>Ports\<close>

definition parse_port_proto :: "string \<Rightarrow> config_error + port_proto" where
  "parse_port_proto s =
     and_then (ok_or (split_once (CHR ''/'') s) (Invalid (ExpectedProtoPort s))) (\<lambda>(proto, port).
     and_then (let p = to_ascii_lowercase (trim proto) in
               if p = ''tcp'' then Ok Tcp
               else if p = ''udp'' then Ok Udp
               else Err (Invalid (UnknownProtocol p))) (\<lambda>proto.
     and_then (ok_or (parse_uint 65535 (trim port)) (Invalid (InvalidPort (trim port)))) (\<lambda>port.
       if port = 0 then Err (Invalid PortZero)
       else Ok (port_proto_new proto (of_nat port)))))"

definition MAX_PORTS_PER_STANZA :: nat where
  "MAX_PORTS_PER_STANZA = 1024"

fun collect_results :: "('e + 'a) list \<Rightarrow> 'e + 'a list" where
  "collect_results [] = Ok []"
| "collect_results (r # rs) = and_then r (\<lambda>a. and_then (collect_results rs) (\<lambda>as. Ok (a # as)))"

definition deserialize_port_proto_list :: "string list \<Rightarrow> toml_error + port_proto list" where
  "deserialize_port_proto_list strings =
     (if MAX_PORTS_PER_STANZA < length strings then Err (TooManyPorts (length strings))
      else collect_results (map (\<lambda>s. map_err de_custom (parse_port_proto s)) strings))"

subsection \<open>Keys\<close>

datatype base64_key = Base64Key (as_bytes: bytes)

definition is_all_zero :: "base64_key \<Rightarrow> bool" where
  "is_all_zero k = list_all (\<lambda>b. b = 0) (as_bytes k)"

definition serialize_base64_key :: "conf_libs \<Rightarrow> base64_key \<Rightarrow> string" where
  "serialize_base64_key L k = b64_encode L (as_bytes k)"

definition deserialize_base64_key :: "conf_libs \<Rightarrow> string \<Rightarrow> toml_error + base64_key" where
  "deserialize_base64_key L s =
     and_then (ok_or (b64_decode L s) (Base64Decode s)) (\<lambda>bytes.
       if length bytes \<noteq> 32 then Err (KeyLength (length bytes)) else Ok (Base64Key bytes))"

subsection \<open>Lemmas\<close>

text \<open>
  What the configuration relies on of the two crates: a network contains exactly the
  addresses of its family that agree with it on the leading \<open>prefix\<close> bits, and base64
  decodes what it encoded.
\<close>

definition same_prefix :: "nat \<Rightarrow> 'a::len word \<Rightarrow> 'a word \<Rightarrow> bool" where
  "same_prefix p a b \<longleftrightarrow> drop_bit (LENGTH('a) - p) a = drop_bit (LENGTH('a) - p) b"

definition net_contains :: "ip_net \<Rightarrow> ip_addr \<Rightarrow> bool" where
  "net_contains net ip =
     (case (net, ip) of
        (IpNet (V4 a) p, V4 b) \<Rightarrow> same_prefix p a b
      | (IpNet (V6 a) p, V6 b) \<Rightarrow> same_prefix p a b
      | _ \<Rightarrow> False)"

locale config_libs =
  fixes L :: conf_libs
  assumes contains_net: "ipnet_contains L net ip \<longleftrightarrow> net_contains net ip"
    and b64_roundtrip: "b64_decode L (b64_encode L k) = Some k"
begin

lemma base64_key_roundtrip:
  "length (as_bytes k) = 32 \<Longrightarrow> deserialize_base64_key L (serialize_base64_key L k) = Ok k"
  by (simp add: deserialize_base64_key_def serialize_base64_key_def b64_roundtrip)

end

text \<open>An instance, with one character per byte in place of base64.\<close>

definition demo_conf :: conf_libs where
  "demo_conf =
     \<lparr>ipnet_parse = (\<lambda>s. if s = ''10.0.0.0/8'' then Some (IpNet (V4 0x0A000000) 8) else None),
      ipnet_contains = net_contains,
      b64_encode = map (\<lambda>b. char_of (unat b)),
      b64_decode = (\<lambda>s. Some (map (\<lambda>c. of_nat (code c)) s))\<rparr>"

lemma unat_u8_less: "unat (b :: u8) < 256"
  using unsigned_less [of b, where ?'a = nat] by simp

interpretation demo_conf: config_libs demo_conf
  by unfold_locales (simp_all add: demo_conf_def o_def unat_u8_less)

lemma collect_results_Ok:
  "collect_results rs = Ok as \<longleftrightarrow> rs = map Ok as"
  by (induction rs arbitrary: as) (auto simp: and_then_eq_Ok)

lemma deserialize_port_proto_list_Ok:
  "deserialize_port_proto_list ss = Ok pps \<longleftrightarrow>
     length ss \<le> MAX_PORTS_PER_STANZA \<and> map parse_port_proto ss = map Ok pps"
proof -
  have "map (\<lambda>s. map_err de_custom (parse_port_proto s)) ss = map Ok pps \<longleftrightarrow>
      map parse_port_proto ss = map Ok pps"
    by (induction ss arbitrary: pps) (auto simp: Cons_eq_map_conv)
  then show ?thesis
    by (auto simp: deserialize_port_proto_list_def collect_results_Ok)
qed

lemma parse_port_proto_pos: "parse_port_proto s = Ok pp \<Longrightarrow> pp_port pp \<noteq> 0"
proof -
  assume "parse_port_proto s = Ok pp"
  then obtain proto n where "parse_uint 65535 n = Some proto" "proto \<noteq> 0" "pp_port pp = of_nat proto"
    by (auto simp: parse_port_proto_def and_then_eq_Ok guard_eq_Ok port_proto_new_def)
  then have "unat (pp_port pp) = proto" "proto \<noteq> 0"
    using parse_uint_le [of 65535] unat_of_nat_small [of proto, where ?'a = 16] by fastforce+
  then show "pp_port pp \<noteq> 0" by auto
qed

lemma lower_protocol: "to_ascii_lowercase (trim (protocol_string p)) = protocol_string p"
proof -
  have "trim (protocol_string p) = protocol_string p"
    by (cases p) (auto simp: protocol_string_def is_ascii_graphic_def code_def intro!: trim_graphic_ends)
  then show ?thesis
    by (cases p) (simp_all add: protocol_string_def to_ascii_lowercase_def to_ascii_lower_def code_def)
qed

lemma trim_dec_string: "trim (dec_string n) = dec_string n"
  using dec_string_digits [of n] digit_graphic
  by (intro trim_graphic_ends) (auto simp: list_all_iff)

lemma parse_port_proto_printed:
  "parse_port_proto (port_proto_string pp) =
     (if pp_port pp = 0 then Err (Invalid PortZero) else Ok pp)"
proof -
  have s: "split_once (CHR ''/'') (port_proto_string pp) =
      Some (protocol_string (pp_proto pp), dec_string (unat (pp_port pp)))"
    unfolding port_proto_string_def
    using split_once_append [OF protocol_string_no_sep(1)] by simp
  have n: "parse_uint 65535 (dec_string (unat (pp_port pp))) = Some (unat (pp_port pp))"
    using unsigned_less [of "pp_port pp", where ?'a = nat] by (intro parse_dec_string) simp
  show ?thesis
    by (cases "pp_proto pp")
      (simp_all add: parse_port_proto_def s n trim_dec_string lower_protocol unat_eq_zero
        port_proto_new_def del: split_once.simps, simp_all add: protocol_string_def)
qed

text \<open>
  Ports print and parse back: \<open>parse_port_proto\<close> inverts the display form of every
  \<open>proto/port\<close> pair with a non-zero port, and rejects port zero.
\<close>

theorem parse_port_proto_display:
  "parse_port_proto (port_proto_string pp) =
     (if pp_port pp = 0 then Err (Invalid PortZero) else Ok pp)"
  by (rule parse_port_proto_printed)

end
