(* ===== verification/Config.thy ===== *)
theory Config
  imports Config_Shared
begin

text \<open>
  Daemon and client configuration (\<open>fwknox-config/src/daemon.rs\<close>, \<open>client.rs\<close>, \<open>load.rs\<close>):
  the sections as records, their defaults, deserialisation, validation and loading. The TOML
  parser is a parameter that yields raw sections: optional fields where the source declares
  a default, strings where the crate has its own \<open>Deserialize\<close> implementation, and values
  where \<open>serde\<close>'s (or \<open>humantime\<close>'s) is used.
\<close>

subsection \<open>Sections\<close>

datatype firewall_backend = Nftables | Iptables

record daemon_section =
  ds_listen_addr :: ip_addr
  ds_listen_port :: u16
  ds_firewall_backend :: firewall_backend
  ds_run_user :: string
  ds_run_group :: string
  ds_max_spa_packet_age :: duration
  ds_flush_rules_at_init :: bool
  ds_flush_rules_at_exit :: bool
  ds_default_fw_timeout :: duration
  ds_max_fw_timeout :: duration
  ds_enable_systemd :: bool
  ds_enable_sandbox :: bool
  ds_enable_privsep :: bool
  ds_landlock_enabled :: bool

record replay_section =
  rp_cache_path :: path
  rp_max_age :: duration
  rp_max_entries :: nat

record rate_limit_section =
  rl_enabled :: bool
  rl_per_source_rate_per_sec :: u64
  rl_per_source_burst :: u64
  rl_tracked_sources_capacity :: nat
  rl_global_rate_per_sec :: u64
  rl_global_burst :: u64
  rl_promotion_threshold :: u32
  rl_ipv6_prefix_len :: u8

record access_stanza =
  st_name :: string
  st_source :: "source_spec list"
  st_open_ports :: "port_proto list"
  st_master_key_base64 :: base64_key
  st_fw_timeout :: "duration option"
  st_max_fw_timeout :: "duration option"
  st_require_source_match :: bool
  st_require_username :: "string option"
  st_enable_nat :: bool
  st_nat_destination :: "string option"
  st_enable_cmd_exec :: bool
  st_cmd_exec_user :: "string option"
  st_expiration_date :: "string option"

record daemon_config =
  dc_daemon :: daemon_section
  dc_replay :: replay_section
  dc_rate_limit :: rate_limit_section
  dc_access :: "access_stanza list"

subsection \<open>Defaults\<close>

definition default_listen_addr :: ip_addr where "default_listen_addr = V4 0"
definition default_listen_port :: u16 where "default_listen_port = 62201"
definition default_firewall_backend :: firewall_backend where "default_firewall_backend = Nftables"
definition default_run_user :: string where "default_run_user = ''fwknox''"
definition default_run_group :: string where "default_run_group = ''fwknox''"
definition default_max_age :: duration where "default_max_age = from_secs 120"
definition default_fw_timeout :: duration where "default_fw_timeout = from_secs 30"
definition default_max_fw_timeout :: duration where "default_max_fw_timeout = from_secs 300"
definition default_replay_path :: path where "default_replay_path = ''/var/lib/fwknox/replay.cache''"
definition default_replay_max_age :: duration where "default_replay_max_age = from_secs 86400"
definition default_replay_max_entries :: nat where "default_replay_max_entries = 10000"
definition default_per_source_rate_per_sec :: u64 where "default_per_source_rate_per_sec = 10"
definition default_per_source_burst :: u64 where "default_per_source_burst = 20"
definition default_tracked_sources_capacity :: nat where "default_tracked_sources_capacity = 1024"
definition default_global_rate_per_sec :: u64 where "default_global_rate_per_sec = 500"
definition default_global_burst :: u64 where "default_global_burst = 1000"
definition default_promotion_threshold :: u32 where "default_promotion_threshold = 5"
definition default_ipv6_prefix_len :: u8 where "default_ipv6_prefix_len = 64"
definition yes :: bool where "yes = True"

definition default_daemon_section :: daemon_section where
  "default_daemon_section =
     \<lparr>ds_listen_addr = default_listen_addr, ds_listen_port = default_listen_port,
      ds_firewall_backend = default_firewall_backend,
      ds_run_user = default_run_user, ds_run_group = default_run_group,
      ds_max_spa_packet_age = default_max_age,
      ds_flush_rules_at_init = True, ds_flush_rules_at_exit = True,
      ds_default_fw_timeout = default_fw_timeout, ds_max_fw_timeout = default_max_fw_timeout,
      ds_enable_systemd = True, ds_enable_sandbox = True, ds_enable_privsep = True,
      ds_landlock_enabled = False\<rparr>"

definition default_replay_section :: replay_section where
  "default_replay_section =
     \<lparr>rp_cache_path = default_replay_path, rp_max_age = default_replay_max_age,
      rp_max_entries = default_replay_max_entries\<rparr>"

definition default_rate_limit_section :: rate_limit_section where
  "default_rate_limit_section =
     \<lparr>rl_enabled = True,
      rl_per_source_rate_per_sec = default_per_source_rate_per_sec,
      rl_per_source_burst = default_per_source_burst,
      rl_tracked_sources_capacity = default_tracked_sources_capacity,
      rl_global_rate_per_sec = default_global_rate_per_sec,
      rl_global_burst = default_global_burst,
      rl_promotion_threshold = default_promotion_threshold,
      rl_ipv6_prefix_len = default_ipv6_prefix_len\<rparr>"

subsection \<open>Deserialisation of the daemon configuration\<close>

definition MAX_SOURCES_PER_STANZA :: nat where "MAX_SOURCES_PER_STANZA = 1024"
definition MAX_ACCESS_STANZAS :: nat where "MAX_ACCESS_STANZAS = 256"

abbreviation or_default :: "'a option \<Rightarrow> 'a \<Rightarrow> 'a" where
  "or_default v d \<equiv> (case v of None \<Rightarrow> d | Some x \<Rightarrow> x)"

record raw_daemon_section =
  rds_listen_addr :: "ip_addr option"
  rds_listen_port :: "u16 option"
  rds_firewall_backend :: "firewall_backend option"
  rds_run_user :: "string option"
  rds_run_group :: "string option"
  rds_max_spa_packet_age :: "duration option"
  rds_flush_rules_at_init :: "bool option"
  rds_flush_rules_at_exit :: "bool option"
  rds_default_fw_timeout :: "duration option"
  rds_max_fw_timeout :: "duration option"
  rds_enable_systemd :: "bool option"
  rds_enable_sandbox :: "bool option"
  rds_enable_privsep :: "bool option"
  rds_landlock_enabled :: "bool option"

definition deserialize_daemon_section :: "raw_daemon_section \<Rightarrow> daemon_section" where
  "deserialize_daemon_section r =
     \<lparr>ds_listen_addr = or_default (rds_listen_addr r) default_listen_addr,
      ds_listen_port = or_default (rds_listen_port r) default_listen_port,
      ds_firewall_backend = or_default (rds_firewall_backend r) default_firewall_backend,
      ds_run_user = or_default (rds_run_user r) default_run_user,
      ds_run_group = or_default (rds_run_group r) default_run_group,
      ds_max_spa_packet_age = or_default (rds_max_spa_packet_age r) default_max_age,
      ds_flush_rules_at_init = or_default (rds_flush_rules_at_init r) yes,
      ds_flush_rules_at_exit = or_default (rds_flush_rules_at_exit r) yes,
      ds_default_fw_timeout = or_default (rds_default_fw_timeout r) default_fw_timeout,
      ds_max_fw_timeout = or_default (rds_max_fw_timeout r) default_max_fw_timeout,
      ds_enable_systemd = or_default (rds_enable_systemd r) yes,
      ds_enable_sandbox = or_default (rds_enable_sandbox r) yes,
      ds_enable_privsep = or_default (rds_enable_privsep r) yes,
      ds_landlock_enabled = or_default (rds_landlock_enabled r) False\<rparr>"

record raw_replay_section =
  rrp_cache_path :: "path option"
  rrp_max_age :: "duration option"
  rrp_max_entries :: "nat option"

definition deserialize_replay_section :: "raw_replay_section \<Rightarrow> replay_section" where
  "deserialize_replay_section r =
     \<lparr>rp_cache_path = or_default (rrp_cache_path r) default_replay_path,
      rp_max_age = or_default (rrp_max_age r) default_replay_max_age,
      rp_max_entries = or_default (rrp_max_entries r) default_replay_max_entries\<rparr>"

record raw_rate_limit_section =
  rrl_enabled :: "bool option"
  rrl_per_source_rate_per_sec :: "u64 option"
  rrl_per_source_burst :: "u64 option"
  rrl_tracked_sources_capacity :: "nat option"
  rrl_global_rate_per_sec :: "u64 option"
  rrl_global_burst :: "u64 option"
  rrl_promotion_threshold :: "u32 option"
  rrl_ipv6_prefix_len :: "u8 option"

definition deserialize_rate_limit_section :: "raw_rate_limit_section \<Rightarrow> rate_limit_section" where
  "deserialize_rate_limit_section r =
     \<lparr>rl_enabled = or_default (rrl_enabled r) yes,
      rl_per_source_rate_per_sec = or_default (rrl_per_source_rate_per_sec r) default_per_source_rate_per_sec,
      rl_per_source_burst = or_default (rrl_per_source_burst r) default_per_source_burst,
      rl_tracked_sources_capacity =
        or_default (rrl_tracked_sources_capacity r) default_tracked_sources_capacity,
      rl_global_rate_per_sec = or_default (rrl_global_rate_per_sec r) default_global_rate_per_sec,
      rl_global_burst = or_default (rrl_global_burst r) default_global_burst,
      rl_promotion_threshold = or_default (rrl_promotion_threshold r) default_promotion_threshold,
      rl_ipv6_prefix_len = or_default (rrl_ipv6_prefix_len r) default_ipv6_prefix_len\<rparr>"

record raw_access_stanza =
  rst_name :: string
  rst_source :: "string list"
  rst_open_ports :: "string list"
  rst_master_key_base64 :: string
  rst_fw_timeout :: "duration option"
  rst_max_fw_timeout :: "duration option"
  rst_require_source_match :: "bool option"
  rst_require_username :: "string option"
  rst_enable_nat :: "bool option"
  rst_nat_destination :: "string option"
  rst_enable_cmd_exec :: "bool option"
  rst_cmd_exec_user :: "string option"
  rst_expiration_date :: "string option"

definition deserialize_bounded_sources :: "conf_libs \<Rightarrow> string list \<Rightarrow> toml_error + source_spec list" where
  "deserialize_bounded_sources L ss =
     and_then (collect_results (map (deserialize_source_spec L) ss)) (\<lambda>v.
       if MAX_SOURCES_PER_STANZA < length v then Err (TooManySources (length v)) else Ok v)"

definition deserialize_access_stanza :: "conf_libs \<Rightarrow> raw_access_stanza \<Rightarrow> toml_error + access_stanza" where
  "deserialize_access_stanza L r =
     and_then (deserialize_bounded_sources L (rst_source r)) (\<lambda>source.
     and_then (deserialize_port_proto_list (rst_open_ports r)) (\<lambda>open_ports.
     and_then (deserialize_base64_key L (rst_master_key_base64 r)) (\<lambda>master_key.
       Ok \<lparr>st_name = rst_name r, st_source = source, st_open_ports = open_ports,
           st_master_key_base64 = master_key,
           st_fw_timeout = rst_fw_timeout r, st_max_fw_timeout = rst_max_fw_timeout r,
           st_require_source_match = or_default (rst_require_source_match r) yes,
           st_require_username = rst_require_username r,
           st_enable_nat = or_default (rst_enable_nat r) False,
           st_nat_destination = rst_nat_destination r,
           st_enable_cmd_exec = or_default (rst_enable_cmd_exec r) False,
           st_cmd_exec_user = rst_cmd_exec_user r,
           st_expiration_date = rst_expiration_date r\<rparr>)))"

definition deserialize_bounded_access ::
  "conf_libs \<Rightarrow> raw_access_stanza list \<Rightarrow> toml_error + access_stanza list" where
  "deserialize_bounded_access L rs =
     and_then (collect_results (map (deserialize_access_stanza L) rs)) (\<lambda>v.
       if MAX_ACCESS_STANZAS < length v then Err (TooManyStanzas (length v)) else Ok v)"

record raw_daemon_config =
  rdc_daemon :: "raw_daemon_section option"
  rdc_replay :: "raw_replay_section option"
  rdc_rate_limit :: "raw_rate_limit_section option"
  rdc_access :: "raw_access_stanza list"

definition deserialize_daemon_config :: "conf_libs \<Rightarrow> raw_daemon_config \<Rightarrow> toml_error + daemon_config" where
  "deserialize_daemon_config L r =
     and_then (deserialize_bounded_access L (rdc_access r)) (\<lambda>access.
       Ok \<lparr>dc_daemon = or_default (map_option deserialize_daemon_section (rdc_daemon r)) default_daemon_section,
           dc_replay = or_default (map_option deserialize_replay_section (rdc_replay r)) default_replay_section,
           dc_rate_limit =
             or_default (map_option deserialize_rate_limit_section (rdc_rate_limit r)) default_rate_limit_section,
           dc_access = access\<rparr>)"

subsection \<open>Paths of the standard library\<close>

datatype component = RootDir | CurDir | ParentDir | Normal string

definition is_absolute :: "path \<Rightarrow> bool" where
  "is_absolute p \<longleftrightarrow> starts_with p ''/''"

text \<open>
  \<open>Path::components\<close> on Unix: repeated separators and \<open>.\<close> are dropped, except for a leading
  \<open>.\<close> of a relative path.
\<close>

definition components :: "path \<Rightarrow> component list" where
  "components p =
     (if is_absolute p then [RootDir]
      else if p = ''.'' \<or> starts_with p ''./'' then [CurDir] else []) @
     map (\<lambda>w. if w = ''..'' then ParentDir else Normal w)
       (filter (\<lambda>w. w \<noteq> [] \<and> w \<noteq> ''.'') (split_char (CHR ''/'') p))"

subsection \<open>Validation of the daemon configuration\<close>

definition validate_stanza :: "access_stanza \<Rightarrow> config_error + unit" where
  "validate_stanza stanza =
     (if st_open_ports stanza = [] then Err (Invalid (EmptyOpenPorts (st_name stanza)))
      else if st_enable_nat stanza \<and> st_nat_destination stanza = None
      then Err (Invalid (NatWithoutDestination (st_name stanza)))
      else if is_all_zero (st_master_key_base64 stanza)
      then Err (Invalid (PlaceholderKey (st_name stanza)))
      else if st_expiration_date stanza \<noteq> None
      then Err (Invalid (ExpirationDateUnsupported (st_name stanza)))
      else if st_enable_nat stanza then Err (Invalid (NatUnsupported (st_name stanza)))
      else if st_enable_cmd_exec stanza then Err (Invalid (CmdExecUnsupported (st_name stanza)))
      else Ok ())"

fun validate_stanzas :: "string list \<Rightarrow> access_stanza list \<Rightarrow> config_error + unit" where
  "validate_stanzas seen_names [] = Ok ()"
| "validate_stanzas seen_names (stanza # rest) =
     (if st_name stanza \<in> set seen_names then Err (Invalid (DuplicateStanza (st_name stanza)))
      else and_then (validate_stanza stanza) (\<lambda>_.
             validate_stanzas (st_name stanza # seen_names) rest))"

definition max_duration :: duration where
  "max_duration = from_secs (86400 * 7)"

fun check_durations :: "(string \<times> duration) list \<Rightarrow> config_error + unit" where
  "check_durations [] = Ok ()"
| "check_durations ((name, d) # rest) =
     (if d = 0 then Err (Invalid (DurationZero name))
      else if max_duration < d then Err (Invalid (DurationTooLong name))
      else check_durations rest)"

definition validate_durations :: "daemon_config \<Rightarrow> config_error + unit" where
  "validate_durations cfg =
     check_durations
       [(''daemon.default_fw_timeout'', ds_default_fw_timeout (dc_daemon cfg)),
        (''daemon.max_fw_timeout'', ds_max_fw_timeout (dc_daemon cfg)),
        (''daemon.max_spa_packet_age'', ds_max_spa_packet_age (dc_daemon cfg)),
        (''replay.max_age'', rp_max_age (dc_replay cfg))]"

definition validate_replay_cache_path :: "daemon_config \<Rightarrow> config_error + unit" where
  "validate_replay_cache_path cfg =
     (if \<not> is_absolute (rp_cache_path (dc_replay cfg)) then Err (Invalid CachePathRelative)
      else if ParentDir \<in> set (components (rp_cache_path (dc_replay cfg)))
      then Err (Invalid CachePathParentDir)
      else Ok ())"

definition validate_rate_limit :: "rate_limit_section \<Rightarrow> config_error + unit" where
  "validate_rate_limit rl =
     (if rl_enabled rl then
        if rl_per_source_rate_per_sec rl < 1 then Err (Invalid PerSourceRateZero)
        else if rl_global_rate_per_sec rl < 1 then Err (Invalid GlobalRateZero)
        else if rl_per_source_burst rl < rl_per_source_rate_per_sec rl
        then Err (Invalid PerSourceBurstTooSmall)
        else if rl_global_burst rl < rl_global_rate_per_sec rl then Err (Invalid GlobalBurstTooSmall)
        else if rl_tracked_sources_capacity rl = 0 then Err (Invalid TrackedCapacityZero)
        else if rl_promotion_threshold rl = 0 then Err (Invalid PromotionThresholdZero)
        else if \<not> (1 \<le> rl_ipv6_prefix_len rl \<and> rl_ipv6_prefix_len rl \<le> 128)
        then Err (Invalid Ipv6PrefixRange)
        else Ok ()
      else Ok ())"

definition validate_daemon :: "daemon_config \<Rightarrow> config_error + unit" where
  "validate_daemon cfg =
     (if dc_access cfg = [] then Err (Invalid NoAccessStanza)
      else
        and_then (validate_stanzas [] (dc_access cfg)) (\<lambda>_.
        and_then (validate_durations cfg) (\<lambda>_.
        if ds_max_fw_timeout (dc_daemon cfg) < ds_default_fw_timeout (dc_daemon cfg)
        then Err (Invalid DefaultTimeoutExceedsMax)
        else
          and_then (validate_replay_cache_path cfg) (\<lambda>_.
            validate_rate_limit (dc_rate_limit cfg)))))"

definition find_by_master_key :: "daemon_config \<Rightarrow> bytes \<Rightarrow> access_stanza option" where
  "find_by_master_key cfg key =
     List.find (\<lambda>s. as_bytes (st_master_key_base64 s) = key) (dc_access cfg)"

subsection \<open>Client configuration\<close>

datatype client_transport = UdpTransport | TcpTransport | HttpTransport

record defaults_section =
  df_transport :: client_transport
  df_resolve_ip :: bool
  df_verbose :: bool

record server_entry =
  se_name :: string
  se_destination :: string
  se_port :: u16
  se_access :: "port_proto list"
  se_master_key_base64 :: base64_key
  se_fw_timeout :: "duration option"
  se_source_ip :: string

record client_config =
  cc_defaults :: defaults_section
  cc_servers :: "server_entry list"

definition default_port :: u16 where "default_port = 62201"
definition default_source_ip :: string where "default_source_ip = ''auto''"

definition default_defaults_section :: defaults_section where
  "default_defaults_section = \<lparr>df_transport = UdpTransport, df_resolve_ip = False, df_verbose = False\<rparr>"

record raw_defaults_section =
  rdf_transport :: "client_transport option"
  rdf_resolve_ip :: "bool option"
  rdf_verbose :: "bool option"

definition deserialize_defaults_section :: "raw_defaults_section \<Rightarrow> defaults_section" where
  "deserialize_defaults_section r =
     \<lparr>df_transport = or_default (rdf_transport r) UdpTransport,
      df_resolve_ip = or_default (rdf_resolve_ip r) False,
      df_verbose = or_default (rdf_verbose r) False\<rparr>"

record raw_server_entry =
  rse_name :: string
  rse_destination :: string
  rse_port :: "u16 option"
  rse_access :: "string list"
  rse_master_key_base64 :: string
  rse_fw_timeout :: "duration option"
  rse_source_ip :: "string option"

definition deserialize_server_entry :: "conf_libs \<Rightarrow> raw_server_entry \<Rightarrow> toml_error + server_entry" where
  "deserialize_server_entry L r =
     and_then (deserialize_port_proto_list (rse_access r)) (\<lambda>access.
     and_then (deserialize_base64_key L (rse_master_key_base64 r)) (\<lambda>master_key.
       Ok \<lparr>se_name = rse_name r, se_destination = rse_destination r,
           se_port = or_default (rse_port r) default_port, se_access = access,
           se_master_key_base64 = master_key, se_fw_timeout = rse_fw_timeout r,
           se_source_ip = or_default (rse_source_ip r) default_source_ip\<rparr>))"

record raw_client_config =
  rcc_defaults :: "raw_defaults_section option"
  rcc_servers :: "raw_server_entry list"

definition deserialize_client_config :: "conf_libs \<Rightarrow> raw_client_config \<Rightarrow> toml_error + client_config" where
  "deserialize_client_config L r =
     and_then (collect_results (map (deserialize_server_entry L) (rcc_servers r))) (\<lambda>servers.
       Ok \<lparr>cc_defaults = or_default (map_option deserialize_defaults_section (rcc_defaults r))
             default_defaults_section,
           cc_servers = servers\<rparr>)"

definition validate_server :: "server_entry \<Rightarrow> config_error + unit" where
  "validate_server s =
     (if se_access s = [] then Err (Invalid (EmptyAccessList (se_name s)))
      else if trim (se_destination s) = [] then Err (Invalid (EmptyDestination (se_name s)))
      else if se_port s = 0 then Err (Invalid (ServerPortZero (se_name s)))
      else Ok ())"

fun validate_servers :: "string list \<Rightarrow> server_entry list \<Rightarrow> config_error + unit" where
  "validate_servers seen [] = Ok ()"
| "validate_servers seen (s # rest) =
     (if se_name s \<in> set seen then Err (Invalid (DuplicateServer (se_name s)))
      else and_then (validate_server s) (\<lambda>_. validate_servers (se_name s # seen) rest))"

definition validate_client :: "client_config \<Rightarrow> config_error + unit" where
  "validate_client cfg = validate_servers [] (cc_servers cfg)"

definition find_server :: "client_config \<Rightarrow> string \<Rightarrow> server_entry option" where
  "find_server cfg name = List.find (\<lambda>s. se_name s = name) (cc_servers cfg)"

subsection \<open>Loading\<close>

text \<open>The TOML parser, for each of the two schemas.\<close>

record toml_lib =
  toml_daemon :: "string \<Rightarrow> string + raw_daemon_config"
  toml_client :: "string \<Rightarrow> string + raw_client_config"

definition load_daemon_config ::
  "conf_libs \<Rightarrow> toml_lib \<Rightarrow> (path \<Rightarrow> io_error + string) \<Rightarrow> path \<Rightarrow> config_error + daemon_config" where
  "load_daemon_config L T read path =
     and_then (map_err (Io path) (read path)) (\<lambda>text.
     and_then (map_err (Toml path)
                (and_then (map_err TomlSyntax (toml_daemon T text)) (deserialize_daemon_config L))) (\<lambda>cfg.
     and_then (validate_daemon cfg) (\<lambda>_. Ok cfg)))"

definition load_client_config ::
  "conf_libs \<Rightarrow> toml_lib \<Rightarrow> (path \<Rightarrow> io_error + string) \<Rightarrow> path \<Rightarrow> config_error + client_config" where
  "load_client_config L T read path =
     and_then (map_err (Io path) (read path)) (\<lambda>text.
     and_then (map_err (Toml path)
                (and_then (map_err TomlSyntax (toml_client T text)) (deserialize_client_config L))) (\<lambda>cfg.
     and_then (validate_client cfg) (\<lambda>_. Ok cfg)))"

subsection \<open>What a valid configuration satisfies\<close>

definition valid_stanza :: "access_stanza \<Rightarrow> bool" where
  "valid_stanza s \<longleftrightarrow>
     st_open_ports s \<noteq> [] \<and> (\<exists>b \<in> set (as_bytes (st_master_key_base64 s)). b \<noteq> 0) \<and>
     st_expiration_date s = None \<and> \<not> st_enable_nat s \<and> \<not> st_enable_cmd_exec s"

definition valid_rate_limit :: "rate_limit_section \<Rightarrow> bool" where
  "valid_rate_limit rl \<longleftrightarrow>
     1 \<le> rl_per_source_rate_per_sec rl \<and> rl_per_source_rate_per_sec rl \<le> rl_per_source_burst rl \<and>
     1 \<le> rl_global_rate_per_sec rl \<and> rl_global_rate_per_sec rl \<le> rl_global_burst rl \<and>
     0 < rl_tracked_sources_capacity rl \<and> 0 < rl_promotion_threshold rl \<and>
     1 \<le> rl_ipv6_prefix_len rl \<and> rl_ipv6_prefix_len rl \<le> 128"

definition valid_daemon :: "daemon_config \<Rightarrow> bool" where
  "valid_daemon cfg \<longleftrightarrow>
     dc_access cfg \<noteq> [] \<and> distinct (map st_name (dc_access cfg)) \<and>
     list_all valid_stanza (dc_access cfg) \<and>
     0 < ds_default_fw_timeout (dc_daemon cfg) \<and>
     ds_default_fw_timeout (dc_daemon cfg) \<le> ds_max_fw_timeout (dc_daemon cfg) \<and>
     ds_max_fw_timeout (dc_daemon cfg) \<le> from_secs 604800 \<and>
     0 < ds_max_spa_packet_age (dc_daemon cfg) \<and>
     ds_max_spa_packet_age (dc_daemon cfg) \<le> from_secs 604800 \<and>
     0 < rp_max_age (dc_replay cfg) \<and> rp_max_age (dc_replay cfg) \<le> from_secs 604800 \<and>
     (\<exists>rest. rp_cache_path (dc_replay cfg) = CHR ''/'' # rest) \<and>
     ''..'' \<notin> set (split_char (CHR ''/'') (rp_cache_path (dc_replay cfg))) \<and>
     (if rl_enabled (dc_rate_limit cfg) then valid_rate_limit (dc_rate_limit cfg) else True)"

subsection \<open>A sample configuration\<close>

definition sample_raw_stanza :: raw_access_stanza where
  "sample_raw_stanza =
     \<lparr>rst_name = ''ssh'', rst_source = [''10.0.0.0/8''], 
      rst_open_ports = map port_proto_string [port_proto_new Tcp 22, port_proto_new Udp 53],
      rst_master_key_base64 = replicate 32 (CHR ''k''),
      rst_fw_timeout = None, rst_max_fw_timeout = None, rst_require_source_match = None,
      rst_require_username = None, rst_enable_nat = None, rst_nat_destination = None,
      rst_enable_cmd_exec = None, rst_cmd_exec_user = None, rst_expiration_date = None\<rparr>"

definition sample_toml :: toml_lib where
  "sample_toml =
     \<lparr>toml_daemon = (\<lambda>_. Ok \<lparr>rdc_daemon = None, rdc_replay = None, rdc_rate_limit = None,
                              rdc_access = [sample_raw_stanza]\<rparr>),
      toml_client = (\<lambda>_. Err ''not a client file'')\<rparr>"

definition sample_stanza :: access_stanza where
  "sample_stanza =
     \<lparr>st_name = ''ssh'', st_source = [Cidr (IpNet (V4 0x0A000000) 8)],
      st_open_ports = [port_proto_new Tcp 22, port_proto_new Udp 53],
      st_master_key_base64 = Base64Key (replicate 32 107),
      st_fw_timeout = None, st_max_fw_timeout = None, st_require_source_match = True,
      st_require_username = None, st_enable_nat = False, st_nat_destination = None,
      st_enable_cmd_exec = False, st_cmd_exec_user = None, st_expiration_date = None\<rparr>"

definition sample_config :: daemon_config where
  "sample_config =
     \<lparr>dc_daemon = default_daemon_section, dc_replay = default_replay_section,
      dc_rate_limit = default_rate_limit_section, dc_access = [sample_stanza]\<rparr>"

subsection \<open>Lemmas\<close>

declare default_daemon_section_def [config_defaults] default_replay_section_def [config_defaults]
  default_rate_limit_section_def [config_defaults] default_fw_timeout_def [config_defaults]
  default_max_fw_timeout_def [config_defaults] default_max_age_def [config_defaults]
  default_replay_max_age_def [config_defaults] default_replay_path_def [config_defaults]
  default_per_source_rate_per_sec_def [config_defaults]
  default_per_source_burst_def [config_defaults]
  default_tracked_sources_capacity_def [config_defaults]
  default_global_rate_per_sec_def [config_defaults] default_global_burst_def [config_defaults]
  default_promotion_threshold_def [config_defaults] default_ipv6_prefix_len_def [config_defaults]

lemma validate_stanza_Ok: "validate_stanza s = Ok u \<longleftrightarrow> valid_stanza s"
  by (auto simp: validate_stanza_def valid_stanza_def is_all_zero_def list_all_iff)

lemma validate_stanzas_Ok:
  "validate_stanzas seen ss = Ok u \<longleftrightarrow>
     distinct (map st_name ss) \<and> set seen \<inter> set (map st_name ss) = {} \<and> list_all valid_stanza ss"
  by (induction ss arbitrary: seen) (auto simp: and_then_eq_Ok validate_stanza_Ok)

lemma check_durations_Ok:
  "check_durations ds = Ok u \<longleftrightarrow> (\<forall>(name, d) \<in> set ds. 0 < d \<and> d \<le> max_duration)"
  by (induction ds rule: check_durations.induct) auto

lemma validate_durations_Ok:
  "validate_durations cfg = Ok u \<longleftrightarrow>
     (\<forall>d \<in> {ds_default_fw_timeout (dc_daemon cfg), ds_max_fw_timeout (dc_daemon cfg),
             ds_max_spa_packet_age (dc_daemon cfg), rp_max_age (dc_replay cfg)}.
        0 < d \<and> d \<le> from_secs 604800)"
  by (auto simp: validate_durations_def check_durations_Ok max_duration_def)

lemma parent_dir_component:
  "ParentDir \<in> set (components p) \<longleftrightarrow> ''..'' \<in> set (split_char (CHR ''/'') p)"
  by (auto simp: components_def image_iff split: if_splits)

lemma is_absolute_iff: "is_absolute p \<longleftrightarrow> (\<exists>rest. p = CHR ''/'' # rest)"
  by (cases p) (auto simp: is_absolute_def)

lemma validate_replay_cache_path_Ok:
  "validate_replay_cache_path cfg = Ok u \<longleftrightarrow>
     (\<exists>rest. rp_cache_path (dc_replay cfg) = CHR ''/'' # rest) \<and>
     ''..'' \<notin> set (split_char (CHR ''/'') (rp_cache_path (dc_replay cfg)))"
  by (simp add: validate_replay_cache_path_def guard_eq_Ok parent_dir_component is_absolute_iff)

lemma validate_rate_limit_Ok:
  "validate_rate_limit rl = Ok u \<longleftrightarrow> (rl_enabled rl \<longrightarrow> valid_rate_limit rl)"
  by (auto simp: validate_rate_limit_def valid_rate_limit_def not_less word_gt_0 one_le_word)

lemma validate_daemon_Ok: "validate_daemon cfg = Ok u \<longleftrightarrow> valid_daemon cfg"
  unfolding validate_daemon_def guard_eq_Ok and_then_eq_Ok validate_stanzas_Ok
    validate_durations_Ok validate_replay_cache_path_Ok validate_rate_limit_Ok
  by (auto simp: valid_daemon_def not_less)

lemma deserialize_access_stanza_Ok:
  assumes "deserialize_access_stanza L r = Ok s"
  shows "length (st_source s) \<le> MAX_SOURCES_PER_STANZA \<and> length (st_open_ports s) \<le> MAX_PORTS_PER_STANZA \<and>
    list_all (\<lambda>pp. pp_port pp \<noteq> 0) (st_open_ports s) \<and> length (as_bytes (st_master_key_base64 s)) = 32"
proof -
  have ports: "deserialize_port_proto_list (rst_open_ports r) = Ok (st_open_ports s)"
    and rest: "length (st_source s) \<le> MAX_SOURCES_PER_STANZA"
      "length (as_bytes (st_master_key_base64 s)) = 32"
    using assms by (auto simp: deserialize_access_stanza_def and_then_eq_Ok
        deserialize_bounded_sources_def deserialize_base64_key_def guard_eq_Ok)
  have m: "map parse_port_proto (rst_open_ports r) = map Ok (st_open_ports s)"
    and "length (rst_open_ports r) \<le> MAX_PORTS_PER_STANZA"
    using ports by (simp_all add: deserialize_port_proto_list_Ok)
  moreover have "pp_port pp \<noteq> 0" if "pp \<in> set (st_open_ports s)" for pp
  proof -
    have "Ok pp \<in> parse_port_proto ` set (rst_open_ports r)"
      using m that by (metis image_eqI list.set_map)
    then show ?thesis
      using parse_port_proto_pos by fastforce
  qed
  ultimately show ?thesis
    using rest map_eq_imp_length_eq [OF m] by (simp add: list_all_iff)
qed

lemma deserialize_daemon_config_Ok:
  assumes "deserialize_daemon_config L r = Ok cfg"
  shows "length (dc_access cfg) \<le> MAX_ACCESS_STANZAS \<and>
    (\<forall>s \<in> set (dc_access cfg). \<exists>raw. deserialize_access_stanza L raw = Ok s)"
proof -
  obtain raws where "map (deserialize_access_stanza L) raws = map Ok (dc_access cfg)"
    and len: "length (dc_access cfg) \<le> MAX_ACCESS_STANZAS"
    using assms by (auto simp: deserialize_daemon_config_def deserialize_bounded_access_def
        and_then_eq_Ok guard_eq_Ok collect_results_Ok)
  then have "Ok s \<in> deserialize_access_stanza L ` set raws" if "s \<in> set (dc_access cfg)" for s
    using that by (metis image_eqI list.set_map)
  then show ?thesis
    using len by fastforce
qed

subsection \<open>Properties\<close>


text \<open>
  C24. What the daemon may rely on after loading: a configuration that loads is valid, has at
  most 256 stanzas, and each stanza has at most 1024 sources, at most 1024 ports, none of
  them zero, and a 32-byte key.
\<close>

theorem load_daemon_config_wf:
  assumes "load_daemon_config L T read path = Ok cfg"
  shows "valid_daemon cfg \<and> length (dc_access cfg) \<le> 256 \<and>
    list_all (\<lambda>s. length (st_source s) \<le> 1024 \<and> length (st_open_ports s) \<le> 1024 \<and>
      list_all (\<lambda>pp. pp_port pp \<noteq> 0) (st_open_ports s) \<and>
      length (as_bytes (st_master_key_base64 s)) = 32) (dc_access cfg)"
proof -
  obtain r where v: "validate_daemon cfg = Ok ()" and d: "deserialize_daemon_config L r = Ok cfg"
    using assms by (auto simp: load_daemon_config_def and_then_eq_Ok)
  have "length (st_source s) \<le> 1024 \<and> length (st_open_ports s) \<le> 1024 \<and>
      list_all (\<lambda>pp. pp_port pp \<noteq> 0) (st_open_ports s) \<and>
      length (as_bytes (st_master_key_base64 s)) = 32" if "s \<in> set (dc_access cfg)" for s
    using deserialize_daemon_config_Ok [OF d] that deserialize_access_stanza_Ok
    by (fastforce simp: MAX_SOURCES_PER_STANZA_def MAX_PORTS_PER_STANZA_def)
  then show ?thesis
    using v deserialize_daemon_config_Ok [OF d]
    by (simp add: validate_daemon_Ok list_all_iff MAX_ACCESS_STANZAS_def)
qed

lemma sample_loads: "load_daemon_config demo_conf sample_toml (\<lambda>_. Ok []) ''/etc/fwknox/fwknoxd.toml'' = Ok sample_config"
proof -
  have p: "parse_port_proto (port_proto_string (port_proto_new proto 22)) = Ok (port_proto_new proto 22)"
    "parse_port_proto (port_proto_string (port_proto_new proto 53)) = Ok (port_proto_new proto 53)" for proto
    by (simp_all add: parse_port_proto_printed port_proto_new_def)
  have t: "trim ''10.0.0.0/8'' = ''10.0.0.0/8''"
    by (rule trim_graphic_ends) (simp_all add: is_ascii_graphic_def code_def)
  have d: "deserialize_access_stanza demo_conf sample_raw_stanza = Ok sample_stanza"
    by (simp add: deserialize_access_stanza_def sample_raw_stanza_def sample_stanza_def
        deserialize_bounded_sources_def deserialize_source_spec_def source_spec_from_str_def t
        eq_ignore_ascii_case_def to_ascii_lowercase_def to_ascii_lower_def code_def demo_conf_def
        MAX_SOURCES_PER_STANZA_def deserialize_port_proto_list_def MAX_PORTS_PER_STANZA_def p
        deserialize_base64_key_def yes_def)
  have "valid_daemon sample_config"
    by (simp add: valid_daemon_def sample_config_def sample_stanza_def valid_stanza_def
        valid_rate_limit_def from_secs_def config_defaults)
  then have "validate_daemon sample_config = Ok ()"
    by (simp add: validate_daemon_Ok)
  moreover have "deserialize_daemon_config demo_conf \<lparr>rdc_daemon = None, rdc_replay = None,
      rdc_rate_limit = None, rdc_access = [sample_raw_stanza]\<rparr> = Ok sample_config"
    by (simp add: deserialize_daemon_config_def deserialize_bounded_access_def d
        MAX_ACCESS_STANZAS_def sample_config_def)
  ultimately show ?thesis
    by (simp add: load_daemon_config_def sample_toml_def)
qed

theorem load_daemon_config_wf_witness: "valid_daemon sample_config \<and> length (dc_access sample_config) \<le> 256"
  using load_daemon_config_wf [OF sample_loads] by simp

text \<open>
  Client configurations: validation accepts exactly those whose server names are distinct
  and whose servers have a non-empty access list, a destination that is not blank and a
  non-zero port; then every server is the one found under its name.
\<close>

theorem validate_client_exact:
  "validate_client cfg = Ok () \<longleftrightarrow>
     distinct (map se_name (cc_servers cfg)) \<and>
     list_all (\<lambda>s. se_access s \<noteq> [] \<and> trim (se_destination s) \<noteq> [] \<and> se_port s \<noteq> 0 \<and>
       find_server cfg (se_name s) = Some s) (cc_servers cfg)"
proof -
  have v: "validate_servers seen ss = Ok () \<longleftrightarrow> distinct (map se_name ss) \<and>
      set seen \<inter> set (map se_name ss) = {} \<and>
      list_all (\<lambda>s. se_access s \<noteq> [] \<and> trim (se_destination s) \<noteq> [] \<and> se_port s \<noteq> 0) ss" for seen ss
    by (induction ss arbitrary: seen) (auto simp: and_then_eq_Ok validate_server_def)
  have f: "distinct (map se_name ss) \<Longrightarrow> s \<in> set ss \<Longrightarrow>
      List.find (\<lambda>t. se_name t = se_name s) ss = Some s" for ss s
    by (induction ss) auto
  show ?thesis
    by (auto simp: validate_client_def v find_server_def list_all_iff f)
qed

end
