(* ===== verification/Persist.thy ===== *)
theory Persist
  imports Std_Text
begin

text \<open>
  The on-disk form of the replay cache (\<open>fwknox-replay/src/persist.rs\<close>) and the crate's
  error type. The file system is a map from paths to contents; which of the system calls of
  an atomic write fail is an argument, \<open>write_io\<close>, and so is the iteration order of the
  standard library's \<open>HashMap\<close>: any function that permutes the entries.
\<close>

type_synonym nonce = bytes
type_synonym disk = "path \<Rightarrow> string option"
type_synonym hash_order = "(nonce \<times> u64) list \<Rightarrow> (nonce \<times> u64) list"

datatype format_reason =
  MissingNonceField nat | MissingTimestampField nat | NonceNotHex nat | TimestampNotU64 nat

datatype replay_error =
    Read path io_error
  | Write path io_error
  | InvalidFormat path format_reason

subsection \<open>Hexadecimal nonces\<close>

text \<open>The value \<open>None\<close> is the \<open>unreachable!()\<close> arm.\<close>

definition nibble_to_hex :: "u8 \<Rightarrow> char option" where
  "nibble_to_hex n =
     (if n \<le> 9 then Some (char_of (code (CHR ''0'') + unat n))
      else if n \<le> 15 then Some (char_of (code (CHR ''a'') + unat n - 10))
      else None)"

definition encode_nonce_hex :: "nonce \<Rightarrow> string" where
  "encode_nonce_hex nonce =
     concat (map (\<lambda>b. [the (nibble_to_hex (drop_bit 4 b)), the (nibble_to_hex (b AND 0xF))]) nonce)"

definition hex_to_nibble :: "char \<Rightarrow> u8 option" where
  "hex_to_nibble c =
     (if code (CHR ''0'') \<le> code c \<and> code c \<le> code (CHR ''9'')
      then Some (of_nat (code c - code (CHR ''0'')))
      else if code (CHR ''a'') \<le> code c \<and> code c \<le> code (CHR ''f'')
      then Some (of_nat (code c - code (CHR ''a'') + 10))
      else if code (CHR ''A'') \<le> code c \<and> code c \<le> code (CHR ''F'')
      then Some (of_nat (code c - code (CHR ''A'') + 10))
      else None)"

fun hex_pairs :: "string \<Rightarrow> nonce option" where
  "hex_pairs (a # b # cs) = do {
     hi \<leftarrow> hex_to_nibble a;
     lo \<leftarrow> hex_to_nibble b;
     out \<leftarrow> hex_pairs cs;
     Some ((push_bit 4 hi OR lo) # out)
   }"
| "hex_pairs _ = Some []"

definition parse_nonce_hex :: "string \<Rightarrow> nonce option" where
  "parse_nonce_hex s =
     (if length s \<noteq> 32 \<or> \<not> list_all is_ascii_hexdigit s then None else hex_pairs s)"

subsection \<open>Reading\<close>

definition parse_entry :: "path \<Rightarrow> nat \<Rightarrow> string \<Rightarrow> replay_error + (nonce \<times> u64)" where
  "parse_entry path line_num line =
     (let parts = split_whitespace line;
          first = (case parts of [] \<Rightarrow> None | w # _ \<Rightarrow> Some w);
          second = (case parts of _ # w # _ \<Rightarrow> Some w | _ \<Rightarrow> None) in
      and_then (ok_or first (InvalidFormat path (MissingNonceField (line_num + 1)))) (\<lambda>nonce_hex.
      and_then (ok_or second (InvalidFormat path (MissingTimestampField (line_num + 1)))) (\<lambda>ts_str.
      and_then (ok_or (parse_nonce_hex nonce_hex) (InvalidFormat path (NonceNotHex (line_num + 1)))) (\<lambda>nonce.
      and_then (ok_or (parse_uint (2 ^ 64 - 1) ts_str)
                  (InvalidFormat path (TimestampNotU64 (line_num + 1)))) (\<lambda>ts.
        Ok (nonce, of_nat ts))))))"

fun read_lines ::
  "path \<Rightarrow> nat \<Rightarrow> string list \<Rightarrow> (nonce \<times> u64) list \<Rightarrow> replay_error + (nonce \<times> u64) list" where
  "read_lines path line_num [] out = Ok out"
| "read_lines path line_num (raw # rest) out =
     (let line = trim raw in
      if line = [] \<or> starts_with line ''#'' then read_lines path (line_num + 1) rest out
      else and_then (parse_entry path line_num line) (\<lambda>(nonce, ts).
             read_lines path (line_num + 1) rest (AList.update nonce ts out)))"

text \<open>
  \<open>read_to_string\<close>: the argument \<open>fault\<close> is an I/O error other than a missing file.
\<close>

definition read_to_string :: "io_error option \<Rightarrow> disk \<Rightarrow> path \<Rightarrow> io_error + string" where
  "read_to_string fault disk path =
     (case fault of Some e \<Rightarrow> Err e | None \<Rightarrow> ok_or (disk path) NotFound)"

definition read_cache_file ::
  "io_error option \<Rightarrow> disk \<Rightarrow> path \<Rightarrow> replay_error + (nonce \<times> u64) list" where
  "read_cache_file fault disk path =
     (case read_to_string fault disk path of
        Ok text \<Rightarrow> read_lines path 0 (lines text) []
      | Err e \<Rightarrow> if e = NotFound then Ok [] else Err (Read path e))"

subsection \<open>Writing\<close>

record write_io =
  w_create_dir :: "io_error option"
  w_tempfile :: "io_error option"
  w_write :: "io_error option"
  w_sync :: "io_error option"
  w_persist :: "io_error option"

definition no_fault :: write_io where
  "no_fault = \<lparr>w_create_dir = None, w_tempfile = None, w_write = None, w_sync = None, w_persist = None\<rparr>"

text \<open>The outcome of a system call, with its error wrapped.\<close>

definition write_step :: "path \<Rightarrow> io_error option \<Rightarrow> replay_error + unit" where
  "write_step path outcome = (case outcome of None \<Rightarrow> Ok () | Some e \<Rightarrow> Err (Write path e))"

definition cache_text :: "(nonce \<times> u64) list \<Rightarrow> string" where
  "cache_text entries =
     ''# fwknox replay cache'' @ [newline] @
     concat (map (\<lambda>(nonce, ts). encode_nonce_hex nonce @ '' '' @ dec_string (unat ts) @ [newline]) entries)"

text \<open>
  The temporary file becomes visible under \<open>path\<close> only with the final rename, so every
  failure leaves the file system as it was.
\<close>

definition write_cache_file ::
  "write_io \<Rightarrow> hash_order \<Rightarrow> path \<Rightarrow> (nonce \<times> u64) list \<Rightarrow> disk \<Rightarrow> (replay_error + unit) \<times> disk" where
  "write_cache_file io ord path entries disk =
     (case and_then (write_step path (w_create_dir io)) (\<lambda>_.
           and_then (write_step path (w_tempfile io)) (\<lambda>_.
           and_then (write_step path (w_write io)) (\<lambda>_.
           and_then (write_step path (w_sync io)) (\<lambda>_.
             write_step path (w_persist io))))) of
        Err e \<Rightarrow> (Err e, disk)
      | Ok _ \<Rightarrow> (Ok (), disk(path \<mapsto> cache_text (ord entries))))"

subsection \<open>Association lists\<close>

lemma update_new_key: "k \<notin> fst ` set out \<Longrightarrow> AList.update k v out = out @ [(k, v)]"
  by (induction out) auto

subsection \<open>Hex lemmas\<close>

lemma hex_codes:
  "code (CHR ''0'') = 48" "code (CHR ''9'') = 57" "code (CHR ''a'') = 97"
  "code (CHR ''f'') = 102" "code (CHR ''A'') = 65" "code (CHR ''F'') = 70"
  by (simp_all add: code_def)

lemma nibble_cases:
  assumes "k < 16"
  shows "\<exists>x. nibble_to_hex (of_nat k) = Some x \<and> is_ascii_hexdigit x \<and> hex_to_nibble x = Some (of_nat k)"
proof -
  have u: "unat (of_nat k :: u8) = k"
    using assms by (intro unat_of_nat_small) simp
  then have le: "(of_nat k :: u8) \<le> 9 \<longleftrightarrow> k \<le> 9" "(of_nat k :: u8) \<le> 15"
    using assms by (simp_all add: word_le_nat_alt)
  show ?thesis
  proof (cases "k \<le> 9")
    case True
    then show ?thesis
      by (simp add: nibble_to_hex_def hex_to_nibble_def is_ascii_hexdigit_def is_ascii_digit_def
          u le hex_codes)
  next
    case False
    then have "code (char_of (97 + k - 10)) = 87 + k"
      using assms by simp
    with False show ?thesis
      using assms
      by (simp add: nibble_to_hex_def hex_to_nibble_def is_ascii_hexdigit_def is_ascii_digit_def
          u le hex_codes)
  qed
qed

lemma nibbles: "\<exists>x y. nibble_to_hex (drop_bit 4 b) = Some x \<and> nibble_to_hex (b AND 0xF) = Some y \<and>
  is_ascii_hexdigit x \<and> is_ascii_hexdigit y \<and>
  hex_to_nibble x = Some (drop_bit 4 b) \<and> hex_to_nibble y = Some (b AND 0xF)" for b :: u8
proof -
  have nib: "\<exists>x. nibble_to_hex n = Some x \<and> is_ascii_hexdigit x \<and> hex_to_nibble x = Some n"
    if "unat n < 16" for n :: u8
    using nibble_cases [of "unat n"] that by simp
  have "unat (drop_bit 4 b) < 16"
    using unsigned_less [of b, where ?'a = nat]
    by (simp only: unsigned_drop_bit_eq take_bit_eq_mod) (simp add: drop_bit_eq_div)
  moreover have m: "b AND 0xF = take_bit 4 b"
    by (simp add: take_bit_eq_mask mask_eq_exp_minus_1)
  have "unat (b AND 0xF) < 16"
    unfolding m unsigned_take_bit_eq by (simp add: take_bit_eq_mod)
  ultimately show ?thesis
    using nib by blast
qed

lemma nibbles_join: "push_bit 4 (drop_bit 4 b) OR (b AND 0xF) = b" for b :: u8
proof -
  have m: "b AND 0xF = take_bit 4 b"
    by (simp add: take_bit_eq_mask mask_eq_exp_minus_1)
  show ?thesis
    unfolding m by (rule bit_word_eqI) (auto simp: bit_simps)
qed

lemma encode_nonce_hex_Cons:
  "\<exists>x y. encode_nonce_hex (b # n) = x # y # encode_nonce_hex n \<and>
     is_ascii_hexdigit x \<and> is_ascii_hexdigit y \<and>
     hex_to_nibble x = Some (drop_bit 4 b) \<and> hex_to_nibble y = Some (b AND 0xF)"
  using nibbles [of b] by (auto simp: encode_nonce_hex_def)

lemma encode_nonce_hex_props:
  "length (encode_nonce_hex n) = 2 * length n \<and> list_all is_ascii_hexdigit (encode_nonce_hex n) \<and>
   hex_pairs (encode_nonce_hex n) = Some n"
proof (induction n)
  case (Cons b n)
  then show ?case
    using encode_nonce_hex_Cons [of b n] by (auto simp: nibbles_join)
qed (simp add: encode_nonce_hex_def)

lemma parse_encode_nonce_hex: "length n = 16 \<Longrightarrow> parse_nonce_hex (encode_nonce_hex n) = Some n"
  using encode_nonce_hex_props [of n] by (simp add: parse_nonce_hex_def)

subsection \<open>Reading back what was written\<close>

definition entry_text :: "nonce \<times> u64 \<Rightarrow> string" where
  "entry_text e = encode_nonce_hex (fst e) @ '' '' @ dec_string (unat (snd e))"

lemma cache_text_lines:
  "cache_text es = concat (map (\<lambda>w. w @ [newline]) (''# fwknox replay cache'' # map entry_text es))"
  by (simp add: cache_text_def entry_text_def o_def split_def)

lemma nonce_hex_graphic: "list_all is_ascii_graphic (encode_nonce_hex n)"
  using encode_nonce_hex_props [of n] by (auto simp: list_all_iff hexdigit_graphic)

lemma dec_string_graphic: "list_all is_ascii_graphic (dec_string n)"
  using dec_string_digits [of n] by (auto simp: list_all_iff digit_graphic)

lemma entry_text_graphic_last: "is_ascii_graphic (last (entry_text e))"
  using dec_string_graphic [of "unat (snd e)"] last_in_set [OF dec_string_not_Nil]
  by (simp add: entry_text_def list_all_iff)

lemma entry_text_no_newline: "newline \<notin> set (entry_text e)"
  using nonce_hex_graphic [of "fst e"] dec_string_graphic [of "unat (snd e)"] newline_not_graphic
  by (auto simp: entry_text_def list_all_iff newline_def)

lemma entry_text_hd:
  assumes "length (fst e) = 16"
  shows "\<exists>c cs. entry_text e = c # cs \<and> is_ascii_hexdigit c"
proof -
  obtain b n where "fst e = b # n" using assms by (cases "fst e") auto
  then show ?thesis
    using encode_nonce_hex_Cons [of b n] by (auto simp: entry_text_def)
qed

lemma parse_entry_text:
  assumes "length (fst e) = 16"
  shows "parse_entry path i (entry_text e) = Ok e"
proof -
  have ne: "encode_nonce_hex (fst e) \<noteq> []"
    using encode_nonce_hex_props [of "fst e"] assms by auto
  have "split_whitespace (entry_text e) = [encode_nonce_hex (fst e), dec_string (unat (snd e))]"
    unfolding entry_text_def
    using split_whitespace_two [OF nonce_hex_graphic ne dec_string_graphic] by simp
  moreover have "parse_uint (2 ^ 64 - 1) (dec_string (unat (snd e))) = Some (unat (snd e))"
    using unsigned_less [of "snd e", where ?'a = nat] by (intro parse_dec_string) simp
  ultimately show ?thesis
    using assms by (simp add: parse_entry_def parse_encode_nonce_hex)
qed

lemma entry_line:
  assumes "length (fst e) = 16"
  shows "trim (entry_text e) = entry_text e" "entry_text e \<noteq> []" "\<not> starts_with (entry_text e) ''#''"
proof -
  obtain c cs where e: "entry_text e = c # cs" and c: "is_ascii_hexdigit c"
    using entry_text_hd [OF assms] by blast
  show "trim (entry_text e) = entry_text e"
    using e c entry_text_graphic_last [of e]
    by (intro trim_graphic_ends) (auto simp: hexdigit_graphic)
  show "entry_text e \<noteq> []" using e by simp
  show "\<not> starts_with (entry_text e) ''#''"
    using e c by (auto simp: is_ascii_hexdigit_def is_ascii_digit_def code_def)
qed

lemma read_lines_entries:
  assumes "\<forall>e \<in> set es. length (fst e) = 16" "distinct (map fst (out @ es))"
  shows "read_lines path i (map entry_text es) out = Ok (out @ es)"
  using assms
proof (induction es arbitrary: out i)
  case (Cons e es)
  have "AList.update (fst e) (snd e) out = out @ [e]"
    using Cons.prems(2) update_new_key [of "fst e" out "snd e"] by auto
  then show ?case
    using Cons entry_line [of e] parse_entry_text [of e]
    by (simp add: Let_def case_prod_beta)
qed simp

lemma read_written:
  assumes "\<forall>e \<in> set es. length (fst e) = 16" "distinct (map fst es)" "disk path = Some (cache_text es)"
  shows "read_cache_file None disk path = Ok es"
proof -
  have "lines (cache_text es) = ''# fwknox replay cache'' # map entry_text es"
    unfolding cache_text_lines
    by (rule lines_concat)
      (simp add: entry_text_no_newline entry_text_graphic_last,
       simp add: newline_def is_ascii_graphic_def code_def)
  moreover have "trim ''# fwknox replay cache'' = ''# fwknox replay cache''"
    by (rule trim_graphic_ends) (simp_all add: is_ascii_graphic_def code_def)
  ultimately show ?thesis
    using assms read_lines_entries [of es "[]" path 1]
    by (simp add: read_cache_file_def read_to_string_def)
qed

end
