(* ===== verification/Lru.thy ===== *)
theory Lru
  imports Prelude
begin

text \<open>
  The interface to the \<open>lru\<close> crate, a bounded map with least-recently-used eviction that the
  replay cache and the rate limiter are built on. The operations are a parameter, the record
  \<open>lru_ops\<close>; the locale \<open>lru_cache\<close> states their documented behaviour over the iteration
  order (most recently used first): \<open>contains\<close> does not promote, \<open>put\<close> and \<open>push\<close> of a new
  key into a full cache evict the last entry, \<open>get_mut\<close> promotes and hands out a reference,
  given here as the value together with the function that writes it back. A list-based
  cache, \<open>list_lru\<close>, implements the interface.
\<close>

record ('k, 'v, 'c) lru_ops =
  lru_new :: "nat \<Rightarrow> 'c"
  lru_cap :: "'c \<Rightarrow> nat"
  lru_len :: "'c \<Rightarrow> nat"
  lru_iter :: "'c \<Rightarrow> ('k \<times> 'v) list"
  lru_contains :: "'c \<Rightarrow> 'k \<Rightarrow> bool"
  lru_put :: "'c \<Rightarrow> 'k \<Rightarrow> 'v \<Rightarrow> 'c"
  lru_push :: "'c \<Rightarrow> 'k \<Rightarrow> 'v \<Rightarrow> 'c \<times> ('k \<times> 'v) option"
  lru_get_mut :: "'c \<Rightarrow> 'k \<Rightarrow> ('v \<times> ('v \<Rightarrow> 'c)) option"
  lru_pop :: "'c \<Rightarrow> 'k \<Rightarrow> 'c"
  lru_clear :: "'c \<Rightarrow> 'c"

text \<open>The entries after inserting a key, and what \<open>push\<close> gives back.\<close>

definition insert_front :: "nat \<Rightarrow> 'k \<Rightarrow> 'v \<Rightarrow> ('k \<times> 'v) list \<Rightarrow> ('k \<times> 'v) list" where
  "insert_front cap k v es =
     (k, v) # (if k \<in> fst ` set es then filter (\<lambda>e. fst e \<noteq> k) es
               else if length es < cap then es else butlast es)"

definition pushed_out :: "nat \<Rightarrow> 'k \<Rightarrow> ('k \<times> 'v) list \<Rightarrow> ('k \<times> 'v) option" where
  "pushed_out cap k es =
     (case map_of es k of
        Some v \<Rightarrow> Some (k, v)
      | None \<Rightarrow> if length es < cap then None else Some (last es))"

locale lru_cache =
  fixes ops :: "('k, 'v, 'c) lru_ops" and inv :: "'c \<Rightarrow> bool"
  assumes iter_distinct: "inv c \<Longrightarrow> distinct (map fst (lru_iter ops c))"
    and iter_bounded: "inv c \<Longrightarrow> length (lru_iter ops c) \<le> lru_cap ops c"
    and cap_pos: "inv c \<Longrightarrow> 0 < lru_cap ops c"
    and new_inv: "0 < n \<Longrightarrow> inv (lru_new ops n)"
    and new_iter: "0 < n \<Longrightarrow> lru_iter ops (lru_new ops n) = []"
    and new_cap: "0 < n \<Longrightarrow> lru_cap ops (lru_new ops n) = n"
    and len_iter: "inv c \<Longrightarrow> lru_len ops c = length (lru_iter ops c)"
    and contains_iter: "inv c \<Longrightarrow> lru_contains ops c k \<longleftrightarrow> k \<in> fst ` set (lru_iter ops c)"
    and put_inv: "inv c \<Longrightarrow> inv (lru_put ops c k v)"
    and put_cap: "inv c \<Longrightarrow> lru_cap ops (lru_put ops c k v) = lru_cap ops c"
    and put_iter: "inv c \<Longrightarrow> lru_iter ops (lru_put ops c k v) =
                     insert_front (lru_cap ops c) k v (lru_iter ops c)"
    and push_put: "inv c \<Longrightarrow> lru_push ops c k v =
                     (lru_put ops c k v, pushed_out (lru_cap ops c) k (lru_iter ops c))"
    and get_mut_None: "inv c \<Longrightarrow> lru_get_mut ops c k = None \<longleftrightarrow> k \<notin> fst ` set (lru_iter ops c)"
    and get_mut_Some: "inv c \<Longrightarrow> lru_get_mut ops c k = Some (v, w) \<Longrightarrow>
                         map_of (lru_iter ops c) k = Some v"
    and get_mut_inv: "inv c \<Longrightarrow> lru_get_mut ops c k = Some (v, w) \<Longrightarrow> inv (w v')"
    and get_mut_cap: "inv c \<Longrightarrow> lru_get_mut ops c k = Some (v, w) \<Longrightarrow>
                        lru_cap ops (w v') = lru_cap ops c"
    and get_mut_iter: "inv c \<Longrightarrow> lru_get_mut ops c k = Some (v, w) \<Longrightarrow>
                         lru_iter ops (w v') = (k, v') # filter (\<lambda>e. fst e \<noteq> k) (lru_iter ops c)"
    and pop_inv: "inv c \<Longrightarrow> inv (lru_pop ops c k)"
    and pop_cap: "inv c \<Longrightarrow> lru_cap ops (lru_pop ops c k) = lru_cap ops c"
    and pop_iter: "inv c \<Longrightarrow> lru_iter ops (lru_pop ops c k) =
                     filter (\<lambda>e. fst e \<noteq> k) (lru_iter ops c)"
    and clear_inv: "inv c \<Longrightarrow> inv (lru_clear ops c)"
    and clear_cap: "inv c \<Longrightarrow> lru_cap ops (lru_clear ops c) = lru_cap ops c"
    and clear_iter: "inv c \<Longrightarrow> lru_iter ops (lru_clear ops c) = []"
begin

lemmas inv_laws = new_inv put_inv pop_inv clear_inv get_mut_inv

lemmas iter_laws = new_iter put_iter pop_iter clear_iter

lemmas cap_laws = new_cap put_cap pop_cap clear_cap

lemma put_keys_fresh:
  assumes "inv c" "k \<notin> fst ` set (lru_iter ops c)"
  shows "map fst (lru_iter ops (lru_put ops c k v)) =
    k # (if length (lru_iter ops c) < lru_cap ops c then map fst (lru_iter ops c)
         else butlast (map fst (lru_iter ops c)))"
  using assms by (simp add: put_iter insert_front_def map_butlast)

text \<open>The fold that removes a list of keys.\<close>

lemma pops:
  "inv c \<Longrightarrow> inv (foldl (lru_pop ops) c ks) \<and>
     lru_cap ops (foldl (lru_pop ops) c ks) = lru_cap ops c \<and>
     lru_iter ops (foldl (lru_pop ops) c ks) = filter (\<lambda>e. fst e \<notin> set ks) (lru_iter ops c)"
  by (induction ks arbitrary: c) (auto simp: pop_inv pop_cap pop_iter intro: filter_cong)

text \<open>The fold that inserts distinct keys into a cache with room for them.\<close>

lemma puts:
  assumes "inv c" "distinct (map fst es)" "fst ` set es \<inter> fst ` set (lru_iter ops c) = {}"
    "length es + length (lru_iter ops c) \<le> lru_cap ops c"
  shows "inv (foldl (\<lambda>c (k, v). lru_put ops c k v) c es) \<and>
    lru_cap ops (foldl (\<lambda>c (k, v). lru_put ops c k v) c es) = lru_cap ops c \<and>
    lru_iter ops (foldl (\<lambda>c (k, v). lru_put ops c k v) c es) = rev es @ lru_iter ops c"
  using assms
proof (induction es arbitrary: c)
  case (Cons e es)
  obtain k v where e: "e = (k, v)" by (cases e)
  have it: "lru_iter ops (lru_put ops c k v) = (k, v) # lru_iter ops c"
    using Cons.prems by (auto simp: put_iter insert_front_def e)
  then show ?case
    using Cons.IH [of "lru_put ops c k v"] Cons.prems e
    by (auto simp: put_inv put_cap)
qed simp

end

subsection \<open>A list-based cache\<close>

type_synonym ('k, 'v) list_cache = "nat \<times> ('k \<times> 'v) list"

definition list_cache_inv :: "('k, 'v) list_cache \<Rightarrow> bool" where
  "list_cache_inv c \<longleftrightarrow> 0 < fst c \<and> length (snd c) \<le> fst c \<and> distinct (map fst (snd c))"

definition list_lru :: "('k, 'v, ('k, 'v) list_cache) lru_ops" where
  "list_lru =
     \<lparr>lru_new = (\<lambda>n. (n, [])),
      lru_cap = fst,
      lru_len = (\<lambda>c. length (snd c)),
      lru_iter = snd,
      lru_contains = (\<lambda>c k. k \<in> fst ` set (snd c)),
      lru_put = (\<lambda>c k v. (fst c, insert_front (fst c) k v (snd c))),
      lru_push = (\<lambda>c k v. ((fst c, insert_front (fst c) k v (snd c)), pushed_out (fst c) k (snd c))),
      lru_get_mut = (\<lambda>c k. map_option (\<lambda>v. (v, \<lambda>v'. (fst c, (k, v') # filter (\<lambda>e. fst e \<noteq> k) (snd c))))
                             (map_of (snd c) k)),
      lru_pop = (\<lambda>c k. (fst c, filter (\<lambda>e. fst e \<noteq> k) (snd c))),
      lru_clear = (\<lambda>c. (fst c, []))\<rparr>"

lemma length_filter_key:
  assumes "k \<in> fst ` set es"
  shows "length (filter (\<lambda>e. fst e \<noteq> k) es) < length es"
  using assms by (auto intro: length_filter_less)

lemma length_insert_front:
  assumes "0 < cap" "length es \<le> cap"
  shows "length (insert_front cap k v es) \<le> cap"
  using assms length_filter_key [of k es]
  by (cases "k \<in> fst ` set es") (auto simp: insert_front_def)

lemma distinct_insert_front:
  "distinct (map fst es) \<Longrightarrow> distinct (map fst (insert_front cap k v es))"
  by (auto simp: insert_front_def distinct_map_fst_filter distinct_butlast map_butlast
      dest: in_set_butlastD)

lemma length_promote: "map_of es k = Some v \<Longrightarrow> Suc (length (filter (\<lambda>e. fst e \<noteq> k) es)) \<le> length es"
  using length_filter_key [of k es] by (force dest: map_of_SomeD)

interpretation list_lru: lru_cache list_lru list_cache_inv
  by unfold_locales
    (auto simp: list_lru_def list_cache_inv_def length_insert_front distinct_insert_front
      map_of_eq_None_iff
      intro: order.trans [OF length_filter_le] order.trans [OF length_promote])

end
