(* ===== verification/Replay.thy ===== *)
theory Replay
  imports Persist Lru
begin

text \<open>
  The replay cache (\<open>fwknox-replay/src/cache.rs\<close>): a bounded LRU map from nonces to the
  second they were seen, saved to disk after every insertion when a persistence path is set.
  The LRU operations, the iteration order of \<open>HashMap\<close>, the clock and the outcome of the
  system calls are arguments; the cache and the disk are passed and returned. The mutex is
  not modelled: each method holds it for a sequential critical section.
\<close>

definition DEFAULT_MAX_ENTRIES :: nat where
  "DEFAULT_MAX_ENTRIES = 10000"

record 'c replay_cache =
  rc_inner :: 'c
  rc_persist_path :: "path option"

type_synonym 'c nonce_lru = "(nonce, u64, 'c) lru_ops"

text \<open>\<open>SystemTime::now\<close> relative to the epoch; \<open>None\<close> is a clock before 1970.\<close>

type_synonym sys_time = "duration option"

definition unix_secs :: "sys_time \<Rightarrow> u64" where
  "unix_secs now = (case now of None \<Rightarrow> 0 | Some d \<Rightarrow> of_nat (as_secs d))"

definition with_capacity :: "'c nonce_lru \<Rightarrow> nat \<Rightarrow> 'c replay_cache" where
  "with_capacity ops capacity = \<lparr>rc_inner = lru_new ops capacity, rc_persist_path = None\<rparr>"

definition replay_new :: "'c nonce_lru \<Rightarrow> 'c replay_cache" where
  "replay_new ops = with_capacity ops DEFAULT_MAX_ENTRIES"

definition set_persist_path :: "path \<Rightarrow> 'c replay_cache \<Rightarrow> 'c replay_cache" where
  "set_persist_path path cache = cache\<lparr>rc_persist_path := Some path\<rparr>"

definition save_to_file ::
  "'c nonce_lru \<Rightarrow> hash_order \<Rightarrow> write_io \<Rightarrow> 'c replay_cache \<Rightarrow> path \<Rightarrow> disk
    \<Rightarrow> (replay_error + unit) \<times> disk" where
  "save_to_file ops ord io cache path disk =
     write_cache_file io ord path (lru_iter ops (rc_inner cache)) disk"

definition check_and_insert ::
  "'c nonce_lru \<Rightarrow> hash_order \<Rightarrow> sys_time \<Rightarrow> write_io \<Rightarrow> nonce \<Rightarrow> 'c replay_cache \<Rightarrow> disk
    \<Rightarrow> (replay_error + bool) \<times> 'c replay_cache \<times> disk" where
  "check_and_insert ops ord now io nonce cache disk =
     (if lru_contains ops (rc_inner cache) nonce then (Ok False, cache, disk)
      else
        let cache' = cache\<lparr>rc_inner := lru_put ops (rc_inner cache) nonce (unix_secs now)\<rparr> in
        case rc_persist_path cache' of
          None \<Rightarrow> (Ok True, cache', disk)
        | Some path \<Rightarrow>
            (case save_to_file ops ord io cache' path disk of
               (Err e, disk') \<Rightarrow>
                 (Err e, cache'\<lparr>rc_inner := lru_pop ops (rc_inner cache') nonce\<rparr>, disk')
             | (Ok _, disk') \<Rightarrow> (Ok True, cache', disk')))"

definition replay_len :: "'c nonce_lru \<Rightarrow> 'c replay_cache \<Rightarrow> nat" where
  "replay_len ops cache = lru_len ops (rc_inner cache)"

definition replay_is_empty :: "'c nonce_lru \<Rightarrow> 'c replay_cache \<Rightarrow> bool" where
  "replay_is_empty ops cache \<longleftrightarrow> replay_len ops cache = 0"

definition replay_capacity :: "'c nonce_lru \<Rightarrow> 'c replay_cache \<Rightarrow> nat" where
  "replay_capacity ops cache = lru_cap ops (rc_inner cache)"

definition prune_older_than ::
  "'c nonce_lru \<Rightarrow> hash_order \<Rightarrow> sys_time \<Rightarrow> write_io \<Rightarrow> duration \<Rightarrow> 'c replay_cache \<Rightarrow> disk
    \<Rightarrow> (replay_error + nat) \<times> 'c replay_cache \<times> disk" where
  "prune_older_than ops ord now io max_age cache disk =
     (let cutoff = saturating_sub (unix_secs now) (of_nat (as_secs max_age));
          before = lru_len ops (rc_inner cache);
          stale = map fst (filter (\<lambda>(k, ts). ts < cutoff) (lru_iter ops (rc_inner cache)));
          inner = foldl (lru_pop ops) (rc_inner cache) stale;
          pruned = before - lru_len ops inner;
          cache' = cache\<lparr>rc_inner := inner\<rparr> in
      if 0 < pruned then
        (case rc_persist_path cache' of
           None \<Rightarrow> (Ok pruned, cache', disk)
         | Some path \<Rightarrow>
             (case save_to_file ops ord io cache' path disk of
                (Err e, disk') \<Rightarrow> (Err e, cache', disk')
              | (Ok _, disk') \<Rightarrow> (Ok pruned, cache', disk')))
      else (Ok pruned, cache', disk))"

definition load_from_file ::
  "'c nonce_lru \<Rightarrow> hash_order \<Rightarrow> io_error option \<Rightarrow> disk \<Rightarrow> path \<Rightarrow> replay_error + 'c replay_cache" where
  "load_from_file ops ord fault disk path =
     and_then (read_cache_file fault disk path) (\<lambda>entries.
       Ok \<lparr>rc_inner = foldl (\<lambda>c (k, v). lru_put ops c k v) (lru_new ops DEFAULT_MAX_ENTRIES) (ord entries),
           rc_persist_path = None\<rparr>)"

subsection \<open>Sequences of operations\<close>

text \<open>What the daemon does with a cache over time, with the clock and I/O outcome of each call.\<close>

datatype replay_op =
    CheckAndInsert nonce sys_time write_io
  | PruneOlderThan duration sys_time write_io

definition run_op ::
  "'c nonce_lru \<Rightarrow> hash_order \<Rightarrow> replay_op \<Rightarrow> 'c replay_cache \<times> disk \<Rightarrow> 'c replay_cache \<times> disk" where
  "run_op ops ord op s =
     (case op of
        CheckAndInsert nonce now io \<Rightarrow> snd (check_and_insert ops ord now io nonce (fst s) (snd s))
      | PruneOlderThan age now io \<Rightarrow> snd (prune_older_than ops ord now io age (fst s) (snd s)))"

definition run_ops ::
  "'c nonce_lru \<Rightarrow> hash_order \<Rightarrow> replay_op list \<Rightarrow> 'c replay_cache \<times> disk \<Rightarrow> 'c replay_cache \<times> disk" where
  "run_ops ops ord rops s = foldl (\<lambda>s op. run_op ops ord op s) s rops"

text \<open>A prune that keeps entries with time stamp \<open>ts\<close>.\<close>

definition keeps :: "u64 \<Rightarrow> replay_op \<Rightarrow> bool" where
  "keeps ts op =
     (case op of
        CheckAndInsert _ _ _ \<Rightarrow> True
      | PruneOlderThan age now _ \<Rightarrow> saturating_sub (unix_secs now) (of_nat (as_secs age)) \<le> ts)"

definition is_check :: "replay_op \<Rightarrow> bool" where
  "is_check op = (case op of CheckAndInsert _ _ _ \<Rightarrow> True | _ \<Rightarrow> False)"

definition sample_cache :: "(nonce, u64) list_cache replay_cache" where
  "sample_cache =
     \<lparr>rc_inner = (2, [(replicate 16 5, 990), (replicate 16 4, 800)]), rc_persist_path = Some ''/r''\<rparr>"

text \<open>A short history with a failed write.\<close>

definition sample_ops :: "replay_op list" where
  "sample_ops =
     [CheckAndInsert (replicate 16 2) (Some (from_secs 1010)) no_fault,
      PruneOlderThan (from_secs 120) (Some (from_secs 1100)) no_fault,
      CheckAndInsert (replicate 16 3) (Some (from_secs 1110)) (no_fault\<lparr>w_sync := Some (OtherIo 28)\<rparr>)]"

subsection \<open>Lemmas\<close>

lemma write_cache_file_cases:
  obtains (fail) e where "write_cache_file io ord path es disk = (Err e, disk)"
    | (written) "write_cache_file io ord path es disk = (Ok (), disk(path \<mapsto> cache_text (ord es)))"
  by (fastforce simp: write_cache_file_def split: sum.splits)

lemma write_no_fault:
  "write_cache_file no_fault ord path es disk = (Ok (), disk(path \<mapsto> cache_text (ord es)))"
  by (simp add: write_cache_file_def write_step_def no_fault_def)

locale replay_store = lru_cache ops inv
  for ops :: "(nonce, u64, 'c) lru_ops" and inv :: "'c \<Rightarrow> bool" +
  fixes ord :: hash_order
  assumes ord_perm: "mset (ord es) = mset es"
begin

abbreviation entries :: "'c replay_cache \<Rightarrow> (nonce \<times> u64) list" where
  "entries cache \<equiv> lru_iter ops (rc_inner cache)"

lemma ord_distinct: "distinct (map fst es) \<Longrightarrow> distinct (map fst (ord es))"
  by (metis ord_perm mset_eq_imp_distinct_iff mset_map)

lemma ord_set [simp]: "set (ord es) = set es"
  by (metis ord_perm mset_eq_setD)

lemma ord_length [simp]: "length (ord es) = length es"
  by (metis ord_perm size_mset)

text \<open>Every outcome of \<open>check_and_insert\<close>.\<close>

lemma check_and_insert_cases [consumes 1, case_names replay fresh failed]:
  assumes "inv (rc_inner cache)"
  obtains
    (replay) "n \<in> fst ` set (entries cache)"
      "check_and_insert ops ord now io n cache disk = (Ok False, cache, disk)"
  | (fresh) cache' disk' where "n \<notin> fst ` set (entries cache)"
      "cache' = cache\<lparr>rc_inner := lru_put ops (rc_inner cache) n (unix_secs now)\<rparr>"
      "check_and_insert ops ord now io n cache disk = (Ok True, cache', disk')"
      "disk' = (case rc_persist_path cache of None \<Rightarrow> disk
                | Some path \<Rightarrow> disk(path \<mapsto> cache_text (ord (entries cache'))))"
  | (failed) e cache' path where "n \<notin> fst ` set (entries cache)" "rc_persist_path cache = Some path"
      "cache' = cache\<lparr>rc_inner := lru_pop ops (lru_put ops (rc_inner cache) n (unix_secs now)) n\<rparr>"
      "check_and_insert ops ord now io n cache disk = (Err e, cache', disk)"
proof (cases "n \<in> fst ` set (entries cache)")
  case True
  then show ?thesis
    using replay assms by (simp add: check_and_insert_def contains_iter)
next
  case False
  note f = False
  define cache' where "cache' = cache\<lparr>rc_inner := lru_put ops (rc_inner cache) n (unix_secs now)\<rparr>"
  show ?thesis
  proof (cases "rc_persist_path cache")
    case None
    then show ?thesis
      using fresh [OF f cache'_def, of disk] f assms
      by (simp add: check_and_insert_def contains_iter cache'_def Let_def)
  next
    case (Some path)
    have ci: "check_and_insert ops ord now io n cache disk =
      (case write_cache_file io ord path (entries cache') disk of
         (Err e, disk') \<Rightarrow> (Err e, cache'\<lparr>rc_inner := lru_pop ops (rc_inner cache') n\<rparr>, disk')
       | (Ok _, disk') \<Rightarrow> (Ok True, cache', disk'))"
      using f assms Some
      by (simp add: check_and_insert_def contains_iter save_to_file_def cache'_def Let_def
          split: prod.split sum.split)
    show ?thesis
    proof (cases rule: write_cache_file_cases [of io ord path "entries cache'" disk])
      case (fail e)
      then show ?thesis
        using failed [OF f Some, of _ e] ci by (simp add: cache'_def)
    next
      case written
      then show ?thesis
        using fresh [OF f cache'_def] ci Some by simp
    qed
  qed
qed

lemma prune_entries:
  assumes "inv (rc_inner cache)"
    and "prune_older_than ops ord now io age cache disk = (r, cache', disk')"
  shows "inv (rc_inner cache') \<and> rc_persist_path cache' = rc_persist_path cache \<and>
    lru_cap ops (rc_inner cache') = lru_cap ops (rc_inner cache) \<and>
    entries cache' = filter (\<lambda>e. saturating_sub (unix_secs now) (of_nat (as_secs age)) \<le> snd e)
      (entries cache)"
proof -
  define cutoff :: u64 where "cutoff = saturating_sub (unix_secs now) (of_nat (as_secs age))"
  define stale where "stale = map fst (filter (\<lambda>(k, ts). ts < cutoff) (entries cache))"
  have c: "cache' = cache\<lparr>rc_inner := foldl (lru_pop ops) (rc_inner cache) stale\<rparr>"
    using assms(2)
    by (auto simp: prune_older_than_def Let_def stale_def cutoff_def
        split: if_splits option.splits sum.splits prod.splits)
  have "(fst e \<in> set stale) = (snd e < cutoff)" if "e \<in> set (entries cache)" for e
    using that iter_distinct [OF assms(1)]
    by (force simp: stale_def distinct_map inj_on_def)
  then have "filter (\<lambda>e. fst e \<notin> set stale) (entries cache) = filter (\<lambda>e. cutoff \<le> snd e) (entries cache)"
    by (intro filter_cong) (auto simp: not_less)
  then show ?thesis
    using pops [OF assms(1), of stale] c by (simp add: cutoff_def)
qed

text \<open>Entries after an insertion of a fresh nonce, kept or rolled back.\<close>

lemma put_fresh_entries:
  assumes "inv c" "n \<notin> fst ` set (lru_iter ops c)"
  shows "lru_iter ops (lru_put ops c n t) = (n, t) #
      (if length (lru_iter ops c) < lru_cap ops c then lru_iter ops c else butlast (lru_iter ops c))"
    and "lru_iter ops (lru_pop ops (lru_put ops c n t) n) =
      (if length (lru_iter ops c) < lru_cap ops c then lru_iter ops c else butlast (lru_iter ops c))"
proof -
  show p: "lru_iter ops (lru_put ops c n t) = (n, t) #
      (if length (lru_iter ops c) < lru_cap ops c then lru_iter ops c else butlast (lru_iter ops c))"
    using assms by (simp add: put_iter insert_front_def)
  have "n \<notin> fst ` set (butlast (lru_iter ops c))"
    using assms(2) fst_in_set_butlast by metis
  then show "lru_iter ops (lru_pop ops (lru_put ops c n t) n) =
      (if length (lru_iter ops c) < lru_cap ops c then lru_iter ops c else butlast (lru_iter ops c))"
    using assms p by (simp add: pop_iter put_inv filter_fst_other)
qed

definition held :: "nonce \<Rightarrow> u64 \<Rightarrow> nat \<Rightarrow> 'c replay_cache \<Rightarrow> bool" where
  "held n ts k cache \<longleftrightarrow> inv (rc_inner cache) \<and>
     (\<exists>pre post. entries cache = pre @ (n, ts) # post \<and> length pre \<le> k)"

lemma held_shrink:
  assumes "entries cache = pre @ (n, ts) # post" "length pre + 1 < lru_cap ops (rc_inner cache)"
    "inv (rc_inner cache)"
  shows "\<exists>post'. (if length (entries cache) < lru_cap ops (rc_inner cache) then entries cache
    else butlast (entries cache)) = pre @ (n, ts) # post'"
  using assms iter_bounded [OF assms(3)] by (cases post rule: rev_cases) (auto simp: butlast_append)

lemma held_check:
  assumes h: "held n ts k cache" and k: "k + 1 < lru_cap ops (rc_inner cache)"
    and r: "check_and_insert ops ord now io m cache disk = (r, cache', disk')"
  shows "held n ts (k + 1) cache' \<and> lru_cap ops (rc_inner cache') = lru_cap ops (rc_inner cache)"
proof -
  have i: "inv (rc_inner cache)" using h by (simp add: held_def)
  obtain pre post where e: "entries cache = pre @ (n, ts) # post" "length pre \<le> k"
    using h by (auto simp: held_def)
  obtain post' where s: "(if length (entries cache) < lru_cap ops (rc_inner cache) then entries cache
    else butlast (entries cache)) = pre @ (n, ts) # post'"
    using held_shrink [OF e(1) _ i] e(2) k by fastforce
  from i show ?thesis
  proof (cases rule: check_and_insert_cases [where n = m and now = now and io = io and disk = disk])
    case replay
    then show ?thesis using h e r by (fastforce simp: held_def)
  next
    case (fresh c d)
    then have "entries cache' = ((m, unix_secs now) # pre) @ (n, ts) # post'"
      using r s put_fresh_entries(1) [OF i] by simp
    then show ?thesis
      using fresh r e i unfolding held_def by (fastforce simp: put_inv put_cap)
  next
    case (failed err c path)
    then have "entries cache' = pre @ (n, ts) # post'"
      using r s put_fresh_entries(2) [OF i] by simp
    then show ?thesis
      using failed r e i unfolding held_def by (fastforce simp: put_inv put_cap pop_inv pop_cap)
  qed
qed

lemma held_prune:
  assumes h: "held n ts k cache"
    and r: "prune_older_than ops ord now io age cache disk = (r, cache', disk')"
    and "saturating_sub (unix_secs now) (of_nat (as_secs age)) \<le> ts"
  shows "held n ts k cache' \<and> lru_cap ops (rc_inner cache') = lru_cap ops (rc_inner cache)"
proof -
  have i: "inv (rc_inner cache)" using h by (simp add: held_def)
  obtain pre post where e: "entries cache = pre @ (n, ts) # post" "length pre \<le> k"
    using h by (auto simp: held_def)
  define P where "P = (\<lambda>e. saturating_sub (unix_secs now) (of_nat (as_secs age)) \<le> snd (e :: nonce \<times> u64))"
  have "entries cache' = filter P pre @ (n, ts) # filter P post"
    using prune_entries [OF i r] e(1) assms(3) by (simp add: P_def)
  moreover have "length (filter P pre) \<le> k"
    by (rule order.trans [OF length_filter_le e(2)])
  ultimately show ?thesis
    using prune_entries [OF i r] unfolding held_def by blast
qed

lemma held_run:
  assumes "held n ts k (fst s)" "list_all (keeps ts) rops"
    "k + length (filter is_check rops) < lru_cap ops (rc_inner (fst s))"
  shows "held n ts (k + length (filter is_check rops)) (fst (run_ops ops ord rops s)) \<and>
    lru_cap ops (rc_inner (fst (run_ops ops ord rops s))) = lru_cap ops (rc_inner (fst s))"
  using assms
proof (induction rops arbitrary: s k)
  case (Cons op rops)
  show ?case
  proof (cases op)
    case (CheckAndInsert m now io)
    obtain r c d where r: "check_and_insert ops ord now io m (fst s) (snd s) = (r, c, d)"
      by (metis prod_cases3)
    have "held n ts (k + 1) c \<and> lru_cap ops (rc_inner c) = lru_cap ops (rc_inner (fst s))"
      using held_check [OF Cons.prems(1) _ r] Cons.prems(3) CheckAndInsert by (simp add: is_check_def)
    moreover have "run_op ops ord op s = (c, d)"
      using r CheckAndInsert by (simp add: run_op_def)
    ultimately show ?thesis
      using Cons.IH [of "k + 1" "(c, d)"] Cons.prems CheckAndInsert
      by (simp add: run_ops_def is_check_def)
  next
    case (PruneOlderThan age now io)
    obtain r c d where r: "prune_older_than ops ord now io age (fst s) (snd s) = (r, c, d)"
      by (metis prod_cases3)
    have "held n ts k c \<and> lru_cap ops (rc_inner c) = lru_cap ops (rc_inner (fst s))"
      using held_prune [OF Cons.prems(1) r] Cons.prems(2) PruneOlderThan by (simp add: keeps_def)
    moreover have "run_op ops ord op s = (c, d)"
      using r PruneOlderThan by (simp add: run_op_def)
    ultimately show ?thesis
      using Cons.IH [of k "(c, d)"] Cons.prems PruneOlderThan
      by (simp add: run_ops_def is_check_def)
  qed
qed (simp add: run_ops_def)

lemma inv_check:
  assumes i: "inv (rc_inner cache)"
    and r: "check_and_insert ops ord now io n cache disk = (r, cache', disk')"
  shows "inv (rc_inner cache') \<and> lru_cap ops (rc_inner cache') = lru_cap ops (rc_inner cache)"
  using i
proof (cases rule: check_and_insert_cases [where n = n and now = now and io = io and disk = disk])
  case replay
  then show ?thesis using i r by simp
next
  case (fresh c d)
  then show ?thesis using i r by (simp add: put_inv put_cap)
next
  case (failed e c path)
  then show ?thesis using i r by (simp add: put_inv put_cap pop_inv pop_cap)
qed

lemma inv_run:
  "inv (rc_inner (fst s)) \<Longrightarrow> inv (rc_inner (fst (run_ops ops ord rops s))) \<and>
     lru_cap ops (rc_inner (fst (run_ops ops ord rops s))) = lru_cap ops (rc_inner (fst s))"
proof (induction rops arbitrary: s)
  case (Cons op rops)
  obtain c d where o: "run_op ops ord op s = (c, d)" by (cases "run_op ops ord op s")
  have "inv (rc_inner c) \<and> lru_cap ops (rc_inner c) = lru_cap ops (rc_inner (fst s))"
  proof (cases op)
    case (CheckAndInsert m now io)
    then show ?thesis
      using o Cons.prems inv_check [of "fst s" now io m "snd s"] by (auto simp: run_op_def snd_def split: prod.splits)
  next
    case (PruneOlderThan age now io)
    then show ?thesis
      using o Cons.prems prune_entries [of "fst s" now io age "snd s"]
      by (auto simp: run_op_def snd_def split: prod.splits)
  qed
  then show ?case
    using Cons.IH [of "(c, d)"] o by (simp add: run_ops_def)
qed (simp add: run_ops_def)

lemma held_fresh:
  assumes "inv (rc_inner cache)"
    and "check_and_insert ops ord now io n cache disk = (Ok True, cache', disk')"
  shows "held n (unix_secs now) 0 cache' \<and>
    lru_cap ops (rc_inner cache') = lru_cap ops (rc_inner cache)"
  using assms(1)
proof (cases rule: check_and_insert_cases [where n = n and now = now and io = io and disk = disk])
  case (fresh c d)
  then show ?thesis
    using assms unfolding held_def by (auto simp: put_fresh_entries put_inv put_cap)
qed (use assms in auto)

lemma held_rejects:
  assumes "held n ts k cache"
  shows "fst (check_and_insert ops ord now io n cache disk) = Ok False"
proof -
  have "inv (rc_inner cache)" "n \<in> fst ` set (entries cache)"
    using assms by (auto simp: held_def)
  then show ?thesis
    by (simp add: check_and_insert_def contains_iter)
qed

lemma load_written:
  assumes es: "\<forall>e \<in> set es. length (fst e) = 16" "distinct (map fst es)"
    "length es \<le> DEFAULT_MAX_ENTRIES" and d: "disk path = Some (cache_text es)"
  shows "\<exists>c. load_from_file ops ord None disk path = Ok c \<and> inv (rc_inner c) \<and>
    entries c = rev (ord es) \<and> lru_cap ops (rc_inner c) = DEFAULT_MAX_ENTRIES"
proof -
  have pos: "0 < DEFAULT_MAX_ENTRIES" by (simp add: DEFAULT_MAX_ENTRIES_def)
  show ?thesis
    using puts [OF new_inv [OF pos], of "ord es"] es read_written [of es disk path, OF es(1,2) d]
    by (simp add: load_from_file_def ord_distinct new_iter [OF pos] new_cap [OF pos])
qed

end

interpretation list_replay: replay_store list_lru list_cache_inv rev
  by unfold_locales simp

declare set_persist_path_def [cache_eval] with_capacity_def [cache_eval] list_lru_def [cache_eval]
  list_cache_inv_def [cache_eval] replay_capacity_def [cache_eval] save_to_file_def [cache_eval]
  write_no_fault [cache_eval]

subsection \<open>Properties\<close>

text \<open>
  C19. No replay is accepted while it can still be fresh: after a nonce has been accepted, it
  is rejected by every later check, for any sequence of checks of other nonces and prunes in
  between, with any disk failures, as long as the checks are fewer than the capacity and
  no prune has a cutoff after the second the nonce was recorded.
\<close>

theorem accepted_nonce_stays_rejected:
  assumes "replay_store ops I ord" and "I (rc_inner cache)"
    and "check_and_insert ops ord now io n cache disk = (Ok True, cache', disk')"
    and "list_all (keeps (unix_secs now)) rops"
    and "length (filter is_check rops) < replay_capacity ops cache"
  shows "fst (check_and_insert ops ord now2 io2 n (fst (run_ops ops ord rops (cache', disk'))) disk2)
    = Ok False"
proof -
  note store = assms(1)
  have "replay_store.held ops I n (unix_secs now) (0 + length (filter is_check rops))
      (fst (run_ops ops ord rops (cache', disk')))"
    using replay_store.held_fresh [OF store assms(2,3)] assms(4,5)
    by (intro conjunct1 [OF replay_store.held_run [OF store]])
      (auto simp: replay_capacity_def)
  then show ?thesis
    by (rule replay_store.held_rejects [OF store])
qed

theorem accepted_nonce_stays_rejected_witness:
  "fst (check_and_insert list_lru rev (Some (from_secs 1115)) no_fault (replicate 16 1)
     (fst (run_ops list_lru rev sample_ops
        (snd (check_and_insert list_lru rev (Some (from_secs 1000)) no_fault (replicate 16 1)
           (set_persist_path ''/r'' (with_capacity list_lru 3)) Map.empty)))) Map.empty) = Ok False"
proof -
  define c where "c = set_persist_path ''/r'' (with_capacity (list_lru :: (nonce, u64) list_cache nonce_lru) 3)"
  obtain c' d' where r: "check_and_insert list_lru rev (Some (from_secs 1000)) no_fault
      (replicate 16 1) c Map.empty = (Ok True, c', d')"
    by (simp add: c_def check_and_insert_def cache_eval)
  have u: "unix_secs (Some (from_secs s)) = of_nat s" for s
    by (simp add: unix_secs_def)
  have "fst (check_and_insert list_lru rev (Some (from_secs 1115)) no_fault (replicate 16 1)
      (fst (run_ops list_lru rev sample_ops (c', d'))) Map.empty) = Ok False"
    by (rule accepted_nonce_stays_rejected [OF list_replay.replay_store_axioms _ r])
      (simp_all add: sample_ops_def c_def cache_eval keeps_def is_check_def u saturating_sub_def)
  then show ?thesis
    using r by (simp add: c_def)
qed

text \<open>
  Accepted nonces survive a restart: with a persistence path set, after \<open>Ok true\<close> the
  cache loaded from the file on disk has exactly the entries of the running cache, whatever
  orders the hash maps are iterated in, and rejects the nonce.
\<close>

theorem accepted_nonce_survives_restart:
  assumes "replay_store ops I ord" and "replay_store ops I ord'" and "I (rc_inner cache)"
    and "rc_persist_path cache = Some path"
    and "check_and_insert ops ord now io n cache disk = (Ok True, cache', disk')"
    and "length n = 16" and "\<forall>e \<in> set (lru_iter ops (rc_inner cache)). length (fst e) = 16"
    and "replay_capacity ops cache \<le> DEFAULT_MAX_ENTRIES"
  shows "\<exists>c. load_from_file ops ord' None disk' path = Ok c \<and>
    map_of (lru_iter ops (rc_inner c)) = map_of (lru_iter ops (rc_inner cache')) \<and>
    fst (check_and_insert ops ord' now2 io2 n c disk2) = Ok False"
proof -
  note st = assms(1) and st' = assms(2) and i = assms(3)
  note lru = replay_store.axioms(1) [OF st]
  from i obtain c' where c: "n \<notin> fst ` set (lru_iter ops (rc_inner cache))" "cache' = c'"
    "c' = cache\<lparr>rc_inner := lru_put ops (rc_inner cache) n (unix_secs now)\<rparr>"
    "disk' = disk(path \<mapsto> cache_text (ord (lru_iter ops (rc_inner c'))))"
    by (cases rule: replay_store.check_and_insert_cases [OF st,
          where n = n and now = now and io = io and disk = disk])
      (use assms(4,5) in auto)
  define es where "es = ord (lru_iter ops (rc_inner cache'))"
  have inv': "I (rc_inner cache')" "lru_cap ops (rc_inner cache') = lru_cap ops (rc_inner cache)"
    using replay_store.inv_check [OF st i assms(5)] by auto
  have it: "lru_iter ops (rc_inner cache') =
      insert_front (lru_cap ops (rc_inner cache)) n (unix_secs now) (lru_iter ops (rc_inner cache))"
    using c lru_cache.put_iter [OF lru i] by simp
  have len: "\<forall>e \<in> set es. length (fst e) = 16"
    using assms(6,7) by (auto simp: es_def replay_store.ord_set [OF st] it insert_front_def
        split: if_splits dest: in_set_butlastD)
  have dist: "distinct (map fst es)"
    unfolding es_def by (intro replay_store.ord_distinct [OF st] lru_cache.iter_distinct [OF lru] inv')
  have small: "length es \<le> DEFAULT_MAX_ENTRIES"
    using lru_cache.iter_bounded [OF lru inv'(1)] inv'(2) assms(8)
    by (simp add: es_def replay_store.ord_length [OF st] replay_capacity_def)
  obtain c2 where c2: "load_from_file ops ord' None disk' path = Ok c2" "I (rc_inner c2)"
    "lru_iter ops (rc_inner c2) = rev (ord' es)"
    using replay_store.load_written [OF st' len dist small, of disk' path] c by (auto simp: es_def)
  have m: "mset (lru_iter ops (rc_inner c2)) = mset (lru_iter ops (rc_inner cache'))"
    using c2(3) replay_store.ord_perm [OF st'] replay_store.ord_perm [OF st] by (simp add: es_def)
  have "map_of (lru_iter ops (rc_inner c2)) = map_of (lru_iter ops (rc_inner cache'))"
    using map_of_perm [OF m] lru_cache.iter_distinct [OF lru c2(2)] by simp
  moreover have "n \<in> fst ` set (lru_iter ops (rc_inner c2))"
    using mset_eq_setD [OF m] it by (simp add: insert_front_def)
  ultimately show ?thesis
    using c2 lru_cache.contains_iter [OF lru c2(2)] by (auto simp: check_and_insert_def)
qed

lemma sample_cache_inv: "list_cache_inv (rc_inner sample_cache)"
  by (simp add: sample_cache_def list_cache_inv_def)

lemma sample_fresh: "\<not> lru_contains list_lru (rc_inner sample_cache) (replicate 16 1)"
  by (simp add: sample_cache_def list_lru_def)

lemma sample_path: "rc_persist_path sample_cache = Some ''/r''"
  by (simp add: sample_cache_def)

lemma sample_check:
  "\<exists>cache' disk'. check_and_insert list_lru rev (Some (from_secs 1000)) no_fault (replicate 16 1)
     sample_cache disk = (Ok True, cache', disk')"
  by (simp add: check_and_insert_def sample_fresh sample_path Let_def save_to_file_def write_no_fault)

theorem accepted_nonce_survives_restart_witness:
  "\<exists>c. load_from_file list_lru rev None
     (snd (snd (check_and_insert list_lru rev (Some (from_secs 1000)) no_fault (replicate 16 1)
        sample_cache Map.empty))) ''/r'' = Ok c \<and>
     fst (check_and_insert list_lru rev (Some (from_secs 1005)) no_fault (replicate 16 1) c Map.empty)
       = Ok False"
proof -
  obtain cache' disk' where r: "check_and_insert list_lru rev (Some (from_secs 1000)) no_fault
      (replicate 16 1) sample_cache Map.empty = (Ok True, cache', disk')"
    using sample_check by blast
  have "\<exists>c. load_from_file list_lru rev None disk' ''/r'' = Ok c \<and>
      map_of (lru_iter list_lru (rc_inner c)) = map_of (lru_iter list_lru (rc_inner cache')) \<and>
      fst (check_and_insert list_lru rev (Some (from_secs 1005)) no_fault (replicate 16 1) c Map.empty)
        = Ok False"
    by (rule accepted_nonce_survives_restart [OF list_replay.replay_store_axioms
          list_replay.replay_store_axioms sample_cache_inv _ r])
      (simp_all add: sample_cache_def list_lru_def replay_capacity_def DEFAULT_MAX_ENTRIES_def)
  then show ?thesis using r by auto
qed

text \<open>
  C36. When the new state cannot be saved, \<open>check_and_insert\<close> reports the error, the disk is
  as before and the nonce is not in the cache; the roll-back does not restore the entry that
  the insertion evicted from a full cache.
\<close>

theorem failed_persist_rolls_back:
  assumes "replay_store ops I ord" and "I (rc_inner cache)"
    and "check_and_insert ops ord now io n cache disk = (Err e, cache', disk')"
  shows "disk' = disk \<and> n \<notin> fst ` set (lru_iter ops (rc_inner cache')) \<and>
    lru_iter ops (rc_inner cache') =
      (if length (lru_iter ops (rc_inner cache)) < replay_capacity ops cache
       then lru_iter ops (rc_inner cache) else butlast (lru_iter ops (rc_inner cache)))"
  using assms(2)
proof (cases rule: replay_store.check_and_insert_cases [OF assms(1),
      where n = n and now = now and io = io and disk = disk, consumes 1, case_names replay fresh failed])
  case (failed err c path)
  then have "lru_iter ops (rc_inner cache') =
      (if length (lru_iter ops (rc_inner cache)) < replay_capacity ops cache
       then lru_iter ops (rc_inner cache) else butlast (lru_iter ops (rc_inner cache)))"
    using assms(3) replay_store.put_fresh_entries(2) [OF assms(1,2) failed(1)]
    by (simp add: replay_capacity_def)
  moreover have "n \<notin> fst ` set (butlast (lru_iter ops (rc_inner cache)))"
    using failed(1) fst_in_set_butlast by metis
  ultimately show ?thesis
    using failed assms(3) by simp
qed (use assms(3) in auto)

theorem failed_persist_rolls_back_witness:
  "\<exists>e cache'. check_and_insert list_lru rev (Some (from_secs 1000)) (no_fault\<lparr>w_sync := Some (OtherIo 28)\<rparr>)
       (replicate 16 1) sample_cache Map.empty = (Err e, cache', Map.empty) \<and>
     lru_iter list_lru (rc_inner cache') = [(replicate 16 5, 990)]"
proof -
  obtain e c d where r: "check_and_insert list_lru rev (Some (from_secs 1000))
      (no_fault\<lparr>w_sync := Some (OtherIo 28)\<rparr>) (replicate 16 1) sample_cache Map.empty = (Err e, c, d)"
    by (simp add: check_and_insert_def sample_fresh sample_path Let_def save_to_file_def
        write_cache_file_def write_step_def no_fault_def)
  show ?thesis
    using r failed_persist_rolls_back [OF list_replay.replay_store_axioms sample_cache_inv r]
    by (simp add: sample_cache_def list_lru_def replay_capacity_def)
qed

text \<open>
  Pruning is exact: it keeps precisely the entries whose time stamp is at or after
  \<open>now - max_age\<close> (clamped at zero), in their order, and on success returns how many it
  removed.
\<close>

theorem prune_older_than_exact:
  assumes "replay_store ops I ord" and "I (rc_inner cache)"
    and "prune_older_than ops ord now io age cache disk = (r, cache', disk')"
  shows "lru_iter ops (rc_inner cache') =
      filter (\<lambda>e. unat (unix_secs now) - unat (of_nat (as_secs age) :: u64) \<le> unat (snd e))
        (lru_iter ops (rc_inner cache)) \<and>
    (\<forall>k. r = Ok k \<longrightarrow>
      k = length (lru_iter ops (rc_inner cache)) - length (lru_iter ops (rc_inner cache')))"
proof -
  note lru = replay_store.axioms(1) [OF assms(1)]
  have p: "I (rc_inner cache')" "lru_iter ops (rc_inner cache') =
      filter (\<lambda>e. saturating_sub (unix_secs now) (of_nat (as_secs age)) \<le> snd e)
        (lru_iter ops (rc_inner cache))"
    using replay_store.prune_entries [OF assms] by auto
  have "k = lru_len ops (rc_inner cache) - lru_len ops (rc_inner cache')" if "r = Ok k" for k
    using assms(3) that
    by (auto simp: prune_older_than_def Let_def
        split: if_splits option.splits sum.splits prod.splits)
  then show ?thesis
    using p assms(2) lru_cache.len_iter [OF lru]
    by (simp add: word_le_nat_alt unat_saturating_sub)
qed

theorem prune_older_than_exact_witness:
  "lru_iter list_lru (rc_inner (fst (snd (prune_older_than list_lru rev (Some (from_secs 1000)) no_fault
      (from_secs 120) sample_cache Map.empty)))) = [(replicate 16 5, 990)]"
proof -
  obtain r c d where r: "prune_older_than list_lru rev (Some (from_secs 1000)) no_fault
      (from_secs 120) sample_cache Map.empty = (r, c, d)"
    by (metis prod_cases3)
  show ?thesis
    using prune_older_than_exact [OF list_replay.replay_store_axioms sample_cache_inv r] r
    by (simp add: sample_cache_def list_lru_def unix_secs_def)
qed

text \<open>
  Memory is bounded: starting from an empty cache of capacity \<open>cap\<close>, no sequence of
  checks and prunes makes it hold more than \<open>cap\<close> nonces, and its capacity never changes.
\<close>

theorem replay_cache_bounded:
  assumes "replay_store ops I ord" and "0 < cap"
  shows "replay_len ops (fst (run_ops ops ord rops (with_capacity ops cap, disk))) \<le> cap \<and>
    replay_capacity ops (fst (run_ops ops ord rops (with_capacity ops cap, disk))) = cap"
proof -
  note lru = replay_store.axioms(1) [OF assms(1)]
  have "I (rc_inner (with_capacity ops cap))" "lru_cap ops (rc_inner (with_capacity ops cap)) = cap"
    using lru_cache.new_inv [OF lru assms(2)] lru_cache.new_cap [OF lru assms(2)]
    by (simp_all add: with_capacity_def)
  then show ?thesis
    using replay_store.inv_run [OF assms(1), of "(with_capacity ops cap, disk)" rops]
      lru_cache.iter_bounded [OF lru] lru_cache.len_iter [OF lru]
    by (metis fst_conv replay_len_def replay_capacity_def)
qed

theorem replay_cache_bounded_witness:
  "replay_len list_lru (fst (run_ops list_lru rev sample_ops (with_capacity list_lru 2, Map.empty))) \<le> 2"
  using replay_cache_bounded [OF list_replay.replay_store_axioms, of 2 sample_ops Map.empty] by simp

text \<open>
  A cache loaded from disk has the default capacity of 10000 entries, whatever capacity
  the cache that was saved had.
\<close>

theorem load_from_file_capacity:
  assumes "replay_store ops I ord" and "load_from_file ops ord fault disk path = Ok cache"
  shows "replay_capacity ops cache = DEFAULT_MAX_ENTRIES"
proof -
  note lru = replay_store.axioms(1) [OF assms(1)]
  have puts: "I c \<Longrightarrow> lru_cap ops (foldl (\<lambda>c (k, v). lru_put ops c k v) c es) = lru_cap ops c" for c es
    by (induction es arbitrary: c)
      (auto simp: lru_cache.put_inv [OF lru] lru_cache.put_cap [OF lru])
  have pos: "0 < DEFAULT_MAX_ENTRIES" by (simp add: DEFAULT_MAX_ENTRIES_def)
  show ?thesis
    using assms(2) puts [OF lru_cache.new_inv [OF lru pos]] lru_cache.new_cap [OF lru pos]
    by (auto simp: load_from_file_def and_then_eq_Ok replay_capacity_def)
qed

theorem load_from_file_capacity_witness:
  "\<exists>cache. load_from_file list_lru rev None Map.empty ''/r'' = Ok cache \<and>
     replay_capacity list_lru cache = 10000"
proof -
  have l: "load_from_file list_lru rev None Map.empty ''/r'' =
      Ok \<lparr>rc_inner = lru_new list_lru DEFAULT_MAX_ENTRIES, rc_persist_path = None\<rparr>"
    by (simp add: load_from_file_def read_cache_file_def read_to_string_def)
  show ?thesis
    using l load_from_file_capacity [OF list_replay.replay_store_axioms l]
    by (simp add: DEFAULT_MAX_ENTRIES_def)
qed

end
