(* ===== verification/F64.thy ===== *)
theory F64
  imports Complex_Main "HOL-Library.Log_Nat" Prelude
begin

text \<open>
  IEEE 754 binary64 arithmetic as the token bucket uses it. A value is the rational it
  denotes; every operation rounds its exact result to the nearest number with a 53-bit
  significand, ties to even. The exponent range is not bounded: the bucket's values lie
  between \<open>10 ^ -9\<close> and \<open>2 ^ 129\<close>, far from overflow and from subnormal numbers.
\<close>

type_synonym f64 = rat

subsection \<open>Rounding\<close>

definition round_even :: "rat \<Rightarrow> int" where
  "round_even r =
     (let f = \<lfloor>r\<rfloor>; d = r - of_int f in
      if d < 1 / 2 then f else if 1 / 2 < d then f + 1 else if even f then f else f + 1)"

text \<open>The exponent of a positive number: \<open>2 ^ flog2 q \<le> q < 2 ^ (flog2 q + 1)\<close>.\<close>

definition flog2 :: "rat \<Rightarrow> int" where
  "flog2 q =
     (let (a, b) = quotient_of q; k = bitlen a - bitlen b in
      if 2 powi k \<le> q then k else k - 1)"

definition rnd_pos :: "rat \<Rightarrow> rat" where
  "rnd_pos q = (let e = flog2 q - 52 in of_int (round_even (q / 2 powi e)) * 2 powi e)"

definition rnd :: "rat \<Rightarrow> f64" where
  "rnd q = (if q = 0 then 0 else if 0 < q then rnd_pos q else - rnd_pos (- q))"

subsection \<open>Operations\<close>

definition f64_of_u64 :: "u64 \<Rightarrow> f64" where
  "f64_of_u64 w = rnd (of_nat (unat w))"

definition f64_add :: "f64 \<Rightarrow> f64 \<Rightarrow> f64" where
  "f64_add a b = rnd (a + b)"

definition f64_sub :: "f64 \<Rightarrow> f64 \<Rightarrow> f64" where
  "f64_sub a b = rnd (a - b)"

definition f64_mul :: "f64 \<Rightarrow> f64 \<Rightarrow> f64" where
  "f64_mul a b = rnd (a * b)"

definition f64_div :: "f64 \<Rightarrow> f64 \<Rightarrow> f64" where
  "f64_div a b = rnd (a / b)"

text \<open>The standard library's \<open>Duration::as_secs_f64\<close>.\<close>

definition as_secs_f64 :: "duration \<Rightarrow> f64" where
  "as_secs_f64 d =
     f64_add (rnd (of_nat (as_secs d))) (f64_div (rnd (of_nat (subsec_nanos d))) (rnd 1000000000))"

subsection \<open>Rounding to an integer\<close>

lemma round_even_bounds: "of_int (round_even r) - 1 / 2 \<le> r" "r \<le> of_int (round_even r) + 1 / 2"
  unfolding round_even_def Let_def by (auto, linarith+)

lemma round_even_int [simp]: "round_even (of_int m) = m"
  by (simp add: round_even_def)

lemma round_even_mono:
  assumes "r \<le> s"
  shows "round_even r \<le> round_even s"
proof (cases "\<lfloor>r\<rfloor> = \<lfloor>s\<rfloor>")
  case True
  then show ?thesis
    using assms by (auto simp: round_even_def Let_def)
next
  case False
  have "\<lfloor>r\<rfloor> < \<lfloor>s\<rfloor>"
    using False floor_mono [OF assms] by simp
  moreover have "round_even r \<le> \<lfloor>r\<rfloor> + 1" "\<lfloor>s\<rfloor> \<le> round_even s"
    by (auto simp: round_even_def Let_def)
  ultimately show ?thesis by simp
qed

subsection \<open>The exponent\<close>

lemma two_powi_pos: "0 < (2 :: rat) powi k"
  by simp

lemma powi_less: "(2 :: rat) powi i < 2 powi j \<longleftrightarrow> i < j"
  using power_int_strict_increasing [of i j "2 :: rat"] power_int_increasing [of j i "2 :: rat"]
  by (cases "i < j") auto

lemma powi_le: "(2 :: rat) powi i \<le> 2 powi j \<longleftrightarrow> i \<le> j"
  using powi_less [of j i] by linarith

lemma bitlen_powi:
  assumes "0 < (x :: int)"
  shows "(2 :: rat) powi (bitlen x - 1) \<le> of_int x" "of_int x < (2 :: rat) powi (bitlen x)"
proof -
  have pos: "1 \<le> bitlen x"
    using assms bitlen_nonneg [of x] bitlen_eq_zero_iff [of x] by linarith
  have b: "2 ^ nat (bitlen x - 1) \<le> x" "x < 2 ^ nat (bitlen x)"
    using bitlen_bounds [OF assms] by auto
  have p: "(2 :: rat) powi k = of_int (2 ^ nat k)" if "0 \<le> k" for k
    using that by (simp add: power_int_def)
  show "(2 :: rat) powi (bitlen x - 1) \<le> of_int x"
    using b(1) pos by (subst p) (simp_all only: of_int_le_iff)
  show "of_int x < (2 :: rat) powi (bitlen x)"
    using b(2) pos by (subst p) (simp_all only: of_int_less_iff)
qed

lemma flog2_bounds:
  assumes "0 < q"
  shows "2 powi (flog2 q) \<le> q" "q < 2 powi (flog2 q + 1)"
proof -
  obtain a b where ab: "quotient_of q = (a, b)" by (cases "quotient_of q")
  have b: "0 < b" and q: "q = of_int a / of_int b"
    using quotient_of_denom_pos [OF ab] quotient_of_div [OF ab] by auto
  have a: "0 < a"
    using assms b q by (simp add: zero_less_divide_iff)
  define k where "k = bitlen a - bitlen b"
  have lo: "2 powi (k - 1) < q"
  proof -
    have "(2 :: rat) powi (k - 1) * of_int b < 2 powi (k - 1) * 2 powi (bitlen b)"
      using bitlen_powi(2) [OF b] by simp
    also have "\<dots> = 2 powi (bitlen a - 1)"
      by (simp add: k_def flip: power_int_add)
    also have "\<dots> \<le> of_int a" by (rule bitlen_powi(1) [OF a])
    finally show ?thesis using b by (simp add: q pos_less_divide_eq)
  qed
  have hi: "q < 2 powi (k + 1)"
  proof -
    have "of_int a < (2 :: rat) powi (bitlen a)" by (rule bitlen_powi(2) [OF a])
    also have "\<dots> = 2 powi (k + 1) * 2 powi (bitlen b - 1)"
      by (simp add: k_def flip: power_int_add)
    also have "\<dots> \<le> 2 powi (k + 1) * of_int b"
      using bitlen_powi(1) [OF b] by simp
    finally show ?thesis using b by (simp add: q pos_divide_less_eq)
  qed
  have f: "flog2 q = (if 2 powi k \<le> q then k else k - 1)"
    by (simp add: flog2_def ab k_def Let_def)
  show "2 powi (flog2 q) \<le> q" "q < 2 powi (flog2 q + 1)"
    using lo hi by (simp_all add: f)
qed

lemma flog2_unique:
  assumes "2 powi k \<le> q" "q < 2 powi (k + 1)"
  shows "flog2 q = k"
proof -
  have "0 < q" using assms(1) two_powi_pos [of k] by linarith
  then have "(2 :: rat) powi (flog2 q) < 2 powi (k + 1)" "(2 :: rat) powi k < 2 powi (flog2 q + 1)"
    using flog2_bounds [of q] assms by linarith+
  then show ?thesis by (simp add: powi_less)
qed

subsection \<open>Rounding to 53 bits\<close>

lemma scaled_bounds:
  assumes "0 < q"
  shows "2 ^ 52 \<le> q / 2 powi (flog2 q - 52)" "q / 2 powi (flog2 q - 52) < 2 ^ 53"
proof -
  have e: "(2 :: rat) powi (flog2 q) = 2 ^ 52 * 2 powi (flog2 q - 52)"
    "(2 :: rat) powi (flog2 q + 1) = 2 ^ 53 * 2 powi (flog2 q - 52)"
    using power_int_add [of "2 :: rat" 52 "flog2 q - 52"] power_int_add [of "2 :: rat" 53 "flog2 q - 52"]
    by (simp_all add: add.commute)
  show "2 ^ 52 \<le> q / 2 powi (flog2 q - 52)" "q / 2 powi (flog2 q - 52) < 2 ^ 53"
    using flog2_bounds [OF assms] by (simp_all add: pos_le_divide_eq pos_divide_less_eq e)
qed

lemma significand_bounds:
  assumes "0 < q"
  shows "2 ^ 52 \<le> round_even (q / 2 powi (flog2 q - 52))" "round_even (q / 2 powi (flog2 q - 52)) \<le> 2 ^ 53"
  using round_even_mono [OF scaled_bounds(1) [OF assms]]
    round_even_mono [OF less_imp_le [OF scaled_bounds(2) [OF assms]]]
    round_even_int [of "2 ^ 52"] round_even_int [of "2 ^ 53"] by simp_all

lemma rnd_pos_binade:
  assumes "0 < q"
  shows "2 powi (flog2 q) \<le> rnd_pos q" "rnd_pos q \<le> 2 powi (flog2 q + 1)"
proof -
  define e where "e = flog2 q - 52"
  have e: "(2 :: rat) powi (flog2 q) = of_int (2 ^ 52) * 2 powi e"
    "(2 :: rat) powi (flog2 q + 1) = of_int (2 ^ 53) * 2 powi e"
    using power_int_add [of "2 :: rat" 52 e] power_int_add [of "2 :: rat" 53 e]
    by (simp_all add: e_def add.commute)
  show "2 powi (flog2 q) \<le> rnd_pos q" "rnd_pos q \<le> 2 powi (flog2 q + 1)"
    unfolding rnd_pos_def Let_def e e_def [symmetric]
    using significand_bounds [OF assms]
    by (intro mult_right_mono; simp only: of_int_le_iff e_def; simp)+
qed

lemma rnd_error:
  assumes "0 \<le> q"
  shows "\<bar>rnd q - q\<bar> \<le> q / 2 ^ 53"
proof (cases "q = 0")
  case False
  then have pos: "0 < q" using assms by simp
  define e where "e = flog2 q - 52"
  define r where "r = q / 2 powi e"
  have q: "q = r * 2 powi e" by (simp add: r_def)
  have "\<bar>of_int (round_even r) - r\<bar> \<le> 1 / 2"
    using round_even_bounds [of r] by linarith
  then have "\<bar>of_int (round_even r) - r\<bar> \<le> r / 2 ^ 53"
    using scaled_bounds(1) [OF pos] by (simp add: r_def e_def)
  then have "\<bar>of_int (round_even r) - r\<bar> * 2 powi e \<le> r / 2 ^ 53 * 2 powi e"
    by (rule mult_right_mono) simp
  moreover have "rnd q = of_int (round_even r) * 2 powi e"
    using pos by (simp add: rnd_def rnd_pos_def Let_def r_def e_def)
  moreover have "\<bar>of_int (round_even r) * 2 powi e - r * 2 powi e\<bar> =
      \<bar>of_int (round_even r) - r\<bar> * 2 powi e"
    by (simp add: abs_mult flip: left_diff_distrib)
  ultimately show ?thesis
    using q by simp
qed (simp add: rnd_def)

lemma rnd_upper: "0 \<le> q \<Longrightarrow> rnd q \<le> q * (1 + 1 / 2 ^ 53)"
  using abs_le_D1 [OF rnd_error [of q]] by (simp add: algebra_simps)

lemma rnd_0 [simp]: "rnd 0 = 0"
  by (simp add: rnd_def)

lemma rnd_nonneg: "0 \<le> q \<Longrightarrow> 0 \<le> rnd q"
  using order.trans [OF less_imp_le [OF two_powi_pos] rnd_pos_binade(1) [of q]] by (auto simp: rnd_def)

lemma rnd_mono:
  assumes "0 \<le> p" "p \<le> q"
  shows "rnd p \<le> rnd q"
proof (cases "p = 0")
  case True
  then show ?thesis using assms rnd_nonneg by simp
next
  case False
  then have pos: "0 < p" "0 < q" using assms by simp_all
  have "rnd_pos p \<le> rnd_pos q"
  proof (cases "flog2 p = flog2 q")
    case True
    have "round_even (p / 2 powi (flog2 q - 52)) \<le> round_even (q / 2 powi (flog2 q - 52))"
      using assms by (intro round_even_mono divide_right_mono) auto
    then show ?thesis
      by (simp add: rnd_pos_def True Let_def)
  next
    case False
    have "(2 :: rat) powi (flog2 p) < 2 powi (flog2 q + 1)"
      using flog2_bounds(1) [OF pos(1)] flog2_bounds(2) [OF pos(2)] assms(2) by linarith
    then have "flog2 p + 1 \<le> flog2 q"
      using False by (simp add: powi_less)
    then have "(2 :: rat) powi (flog2 p + 1) \<le> 2 powi (flog2 q)"
      by (simp add: powi_le)
    then show ?thesis
      using rnd_pos_binade(2) [OF pos(1)] rnd_pos_binade(1) [OF pos(2)] by linarith
  qed
  then show ?thesis using pos by (simp add: rnd_def)
qed

lemma rnd_scaled_int:
  assumes "2 ^ 52 \<le> m" "m < 2 ^ 53"
  shows "rnd (of_int m * 2 powi e) = of_int m * 2 powi e"
proof -
  have e: "(2 :: rat) powi (52 + e) = of_int (2 ^ 52) * 2 powi e"
    "(2 :: rat) powi (52 + e + 1) = of_int (2 ^ 53) * 2 powi e"
    using power_int_add [of "2 :: rat" 52 e] power_int_add [of "2 :: rat" 53 e]
    by (simp_all add: ac_simps)
  have "flog2 (of_int m * 2 powi e) = 52 + e"
    using assms mult_right_mono [of "of_int (2 ^ 52)" "of_int m" "(2 :: rat) powi e"]
      mult_strict_right_mono [of "of_int m" "of_int (2 ^ 53)" "(2 :: rat) powi e"]
    by (intro flog2_unique; unfold e) (simp_all only: of_int_le_iff of_int_less_iff two_powi_pos less_imp_le)
  moreover have "0 < (of_int m :: rat)" using assms(1) by simp
  ultimately show ?thesis
    by (simp add: rnd_def rnd_pos_def)
qed

lemma rnd_idem [simp]:
  assumes "0 \<le> q"
  shows "rnd (rnd q) = rnd q"
proof (cases "q = 0")
  case False
  then have pos: "0 < q" using assms by simp
  define e where "e = flog2 q - 52"
  define m where "m = round_even (q / 2 powi e)"
  have r: "rnd q = of_int m * 2 powi e"
    using pos by (simp add: rnd_def rnd_pos_def m_def e_def Let_def)
  have m: "2 ^ 52 \<le> m" "m \<le> 2 ^ 53"
    using significand_bounds [OF pos] by (simp_all add: m_def e_def)
  show ?thesis
  proof (cases "m = 2 ^ 53")
    case True
    have "(2 :: rat) powi (e + 1) = 2 * 2 powi e"
      by (simp add: power_int_add)
    then have "of_int m * 2 powi e = of_int (2 ^ 52) * (2 :: rat) powi (e + 1)"
      by (simp add: True)
    then show ?thesis
      using rnd_scaled_int [of "2 ^ 52" "e + 1"] r by simp
  next
    case False
    then show ?thesis using rnd_scaled_int [of m e] m r by simp
  qed
qed simp

lemma rnd_1 [simp]: "rnd 1 = 1"
  using rnd_scaled_int [of "2 ^ 52" "-52"] by (simp add: power_int_minus)

lemma rnd_ge_1: "1 \<le> q \<Longrightarrow> 1 \<le> rnd q"
  using rnd_mono [of 1 q] by simp

end
