(* ===== verification/Bucket.thy ===== *)
theory Bucket
  imports F64
begin

text \<open>
  The continuous-refill token bucket (\<open>fwknox-ratelimit/src/bucket.rs\<close>), in binary64
  arithmetic, and the rate it enforces.
\<close>

datatype bucket_decision = BucketPass | BucketDrop

record token_bucket =
  tb_capacity :: f64
  tb_rate_per_sec :: f64
  tb_tokens :: f64
  tb_last_refill :: instant
  tb_last_warn_log :: "instant option"

definition bucket_new :: "u64 \<Rightarrow> u64 \<Rightarrow> instant \<Rightarrow> token_bucket" where
  "bucket_new rate_per_sec capacity now =
     \<lparr>tb_capacity = f64_of_u64 capacity, tb_rate_per_sec = f64_of_u64 rate_per_sec,
      tb_tokens = f64_of_u64 capacity, tb_last_refill = now, tb_last_warn_log = None\<rparr>"

definition bucket_refill :: "instant \<Rightarrow> token_bucket \<Rightarrow> token_bucket" where
  "bucket_refill now b =
     (case checked_duration_since now (tb_last_refill b) of
        None \<Rightarrow> b
      | Some elapsed \<Rightarrow>
          let added = f64_mul (as_secs_f64 elapsed) (tb_rate_per_sec b) in
          b\<lparr>tb_tokens := min (f64_add (tb_tokens b) added) (tb_capacity b), tb_last_refill := now\<rparr>)"

definition bucket_consume :: "instant \<Rightarrow> token_bucket \<Rightarrow> bucket_decision \<times> token_bucket" where
  "bucket_consume now b =
     (let b = bucket_refill now b in
      if 1 \<le> tb_tokens b then (BucketPass, b\<lparr>tb_tokens := f64_sub (tb_tokens b) 1\<rparr>)
      else (BucketDrop, b))"

text \<open>A history of attempts: how many passed, and the bucket afterwards.\<close>

fun run_bucket :: "instant list \<Rightarrow> token_bucket \<Rightarrow> nat \<times> token_bucket" where
  "run_bucket [] b = (0, b)"
| "run_bucket (t # ts) b =
     (let (d, b') = bucket_consume t b; (n, b'') = run_bucket ts b' in
      (if d = BucketPass then n + 1 else n, b''))"

subsection \<open>Invariant\<close>

definition bucket_inv :: "token_bucket \<Rightarrow> bool" where
  "bucket_inv b \<longleftrightarrow> 0 \<le> tb_tokens b \<and> tb_tokens b \<le> tb_capacity b \<and>
     rnd (tb_capacity b) = tb_capacity b \<and> 0 \<le> tb_rate_per_sec b"

lemma f64_of_u64_nonneg: "0 \<le> f64_of_u64 w"
  unfolding f64_of_u64_def by (rule rnd_nonneg [OF of_nat_0_le_iff])

lemma f64_of_u64_ge_1: "0 < w \<Longrightarrow> 1 \<le> f64_of_u64 w"
proof -
  assume "0 < w"
  then have "1 \<le> unat w" by (simp add: word_gt_0 unat_gt_0 Suc_le_eq)
  then have "of_nat 1 \<le> (of_nat (unat w) :: rat)" by (rule of_nat_mono)
  then show ?thesis
    unfolding f64_of_u64_def of_nat_1 by (rule rnd_ge_1)
qed

lemma rnd_f64_of_u64: "rnd (f64_of_u64 w) = f64_of_u64 w"
  unfolding f64_of_u64_def by (rule rnd_idem [OF of_nat_0_le_iff])

lemma bucket_new_inv: "bucket_inv (bucket_new rate cap now)"
  by (simp add: bucket_inv_def bucket_new_def f64_of_u64_nonneg rnd_f64_of_u64)

lemma as_secs_f64_nonneg: "0 \<le> as_secs_f64 d"
  by (auto simp: as_secs_f64_def f64_add_def f64_div_def intro!: rnd_nonneg add_nonneg_nonneg divide_nonneg_nonneg)

lemma bucket_refill_inv:
  "bucket_inv b \<Longrightarrow> bucket_inv (bucket_refill now b)"
  by (auto simp: bucket_inv_def bucket_refill_def f64_add_def f64_mul_def Let_def
      intro!: rnd_nonneg add_nonneg_nonneg mult_nonneg_nonneg as_secs_f64_nonneg split: option.splits)

lemma bucket_consume_inv:
  assumes "bucket_inv b"
  shows "bucket_inv (snd (bucket_consume now b))"
proof (cases "1 \<le> tb_tokens (bucket_refill now b)")
  case True
  define c where "c = bucket_refill now b"
  have c: "bucket_inv c" "1 \<le> tb_tokens c"
    using True bucket_refill_inv [OF assms] by (simp_all add: c_def)
  then have "rnd (tb_tokens c - 1) \<le> rnd (tb_capacity c)"
    by (intro rnd_mono) (auto simp: bucket_inv_def)
  then show ?thesis
    using c by (simp add: bucket_consume_def c_def [symmetric] bucket_inv_def f64_sub_def rnd_nonneg)
next
  case False
  then show ?thesis
    using bucket_refill_inv [OF assms] by (simp add: bucket_consume_def)
qed

lemma bucket_consume_fixed:
  "tb_capacity (snd (bucket_consume now b)) = tb_capacity b"
  "tb_rate_per_sec (snd (bucket_consume now b)) = tb_rate_per_sec b"
  "tb_last_refill (snd (bucket_consume now b)) = max (tb_last_refill b) now"
  by (auto simp: bucket_consume_def bucket_refill_def checked_duration_since_def Let_def)

lemma run_bucket_inv: "bucket_inv b \<Longrightarrow> bucket_inv (snd (run_bucket ts b))"
proof (induction ts arbitrary: b)
  case (Cons t ts)
  then show ?case
    using bucket_consume_inv [OF Cons.prems, of t] by (auto simp: case_prod_beta Let_def)
qed simp

subsection \<open>The rate\<close>

definition ulp :: rat where
  "ulp = 1 / 2 ^ 53"

lemma ulp_pos: "0 < ulp" "1 \<le> 1 + ulp"
  by (simp_all add: ulp_def)

lemma rnd_le: "0 \<le> q \<Longrightarrow> q \<le> x \<Longrightarrow> rnd q \<le> x * (1 + ulp)"
  using rnd_upper [of q] mult_right_mono [of q x "1 + ulp"] by (simp add: ulp_def)

lemma rnd_billion: "rnd 1000000000 = 1000000000"
  using rnd_scaled_int [of "1000000000 * 2 ^ 23" "-23"] by (simp add: power_int_minus)

lemma as_secs_f64_upper: "as_secs_f64 d \<le> of_nat d / 10 ^ 9 * (1 + ulp) ^ 3"
proof -
  define s n where "s = (of_nat (as_secs d) :: rat)" and "n = (of_nat (subsec_nanos d) :: rat)"
  have "as_secs d * 1000000000 + subsec_nanos d = d"
    by (simp add: as_secs_def subsec_nanos_def)
  then have d: "(of_nat d :: rat) = s * 1000000000 + n"
    by (metis s_def n_def of_nat_add of_nat_mult of_nat_numeral)
  have nn: "0 \<le> s" "0 \<le> n" by (simp_all add: s_def n_def)
  have u: "0 \<le> ulp" using ulp_pos by simp
  have frac: "f64_div (rnd n) (rnd 1000000000) \<le> n / 1000000000 * (1 + ulp) * (1 + ulp)"
    unfolding f64_div_def rnd_billion
    using rnd_le [OF nn(2) order.refl] rnd_nonneg [OF nn(2)] by (intro rnd_le) simp_all
  have "s * (1 + ulp) * 1 \<le> s * (1 + ulp) * (1 + ulp)"
    using nn(1) u by (intro mult_left_mono) auto
  then have "rnd s \<le> s * (1 + ulp) * (1 + ulp)"
    using rnd_le [OF nn(1) order.refl] by linarith
  then have "rnd s + f64_div (rnd n) (rnd 1000000000) \<le>
      s * (1 + ulp) * (1 + ulp) + n / 1000000000 * (1 + ulp) * (1 + ulp)"
    using frac by linarith
  also have "\<dots> = of_nat d / 10 ^ 9 * (1 + ulp) ^ 2"
    by (simp add: d power2_eq_square field_simps)
  finally have "as_secs_f64 d \<le> of_nat d / 10 ^ 9 * (1 + ulp) ^ 2 * (1 + ulp)"
    unfolding as_secs_f64_def f64_add_def s_def [symmetric] n_def [symmetric]
    by (intro rnd_le) (simp_all add: rnd_nonneg nn f64_div_def rnd_billion)
  then show ?thesis
    by (simp add: power3_eq_cube power2_eq_square mult.assoc)
qed

text \<open>One attempt: what passes comes out of the tokens, the refill and the rounding error.\<close>

lemma bucket_refill_upper:
  assumes inv: "bucket_inv b"
  shows "tb_tokens (bucket_refill now b) \<le> tb_tokens b +
    tb_rate_per_sec b * of_nat (now - tb_last_refill b) / 10 ^ 9 * (1 + ulp) ^ 4 + 2 * tb_capacity b * ulp"
proof (cases "tb_last_refill b \<le> now")
  case True
  define x where "x = as_secs_f64 (now - tb_last_refill b) * tb_rate_per_sec b"
  define a where "a = rnd x"
  have C: "0 \<le> tb_tokens b" "tb_tokens b \<le> tb_capacity b" "0 \<le> tb_rate_per_sec b"
    using inv by (auto simp: bucket_inv_def)
  have x: "0 \<le> x" "x \<le> of_nat (now - tb_last_refill b) / 10 ^ 9 * (1 + ulp) ^ 3 * tb_rate_per_sec b"
    unfolding x_def using as_secs_f64_nonneg C(3)
    by (simp, intro mult_right_mono as_secs_f64_upper C(3))
  have a: "0 \<le> a" "a \<le> tb_rate_per_sec b * of_nat (now - tb_last_refill b) / 10 ^ 9 * (1 + ulp) ^ 4"
    using rnd_nonneg [OF x(1)] rnd_le [OF x]
    by (simp_all add: a_def power4_eq_xxxx power3_eq_cube mult_ac)
  have "min (rnd (tb_tokens b + a)) (tb_capacity b) \<le> tb_tokens b + a + 2 * tb_capacity b * ulp"
  proof (cases "tb_tokens b + a \<le> 2 * tb_capacity b")
    case True
    then have "(tb_tokens b + a) * ulp \<le> 2 * tb_capacity b * ulp"
      using ulp_pos by (intro mult_right_mono) auto
    moreover have "rnd (tb_tokens b + a) \<le> (tb_tokens b + a) * (1 + ulp)"
      using C a(1) by (intro rnd_le) auto
    ultimately show ?thesis
      by (simp add: distrib_left min_le_iff_disj)
  next
    case False
    moreover have "0 \<le> 2 * tb_capacity b * ulp" using C ulp_pos by simp
    ultimately have "tb_capacity b \<le> tb_tokens b + a + 2 * tb_capacity b * ulp"
      using C by linarith
    then show ?thesis by (simp add: min_le_iff_disj)
  qed
  then show ?thesis
    using a(2) True
    by (simp add: bucket_refill_def checked_duration_since_def f64_add_def f64_mul_def Let_def
        x_def [symmetric] a_def [symmetric])
next
  case False
  then show ?thesis
    using inv ulp_pos by (simp add: bucket_refill_def checked_duration_since_def bucket_inv_def)
qed

lemma bucket_consume_upper:
  assumes inv: "bucket_inv b"
  shows "(if fst (bucket_consume now b) = BucketPass then 1 else 0) + tb_tokens (snd (bucket_consume now b)) \<le>
    tb_tokens b + tb_rate_per_sec b * of_nat (now - tb_last_refill b) / 10 ^ 9 * (1 + ulp) ^ 4
      + 3 * tb_capacity b * ulp"
proof -
  define c where "c = bucket_refill now b"
  have c: "bucket_inv c" "tb_capacity c = tb_capacity b"
    using bucket_refill_inv [OF inv] by (auto simp: c_def bucket_refill_def Let_def split: option.splits)
  have up: "tb_tokens c \<le> tb_tokens b +
      tb_rate_per_sec b * of_nat (now - tb_last_refill b) / 10 ^ 9 * (1 + ulp) ^ 4 + 2 * tb_capacity b * ulp"
    unfolding c_def by (rule bucket_refill_upper [OF inv])
  have C: "0 \<le> tb_capacity b * ulp"
    using inv ulp_pos by (simp add: bucket_inv_def)
  show ?thesis
  proof (cases "1 \<le> tb_tokens c")
    case True
    have "rnd (tb_tokens c - 1) \<le> (tb_tokens c - 1) * (1 + ulp)"
      using True by (intro rnd_le) auto
    moreover have "(tb_tokens c - 1) * ulp \<le> tb_capacity b * ulp"
      using c ulp_pos by (intro mult_right_mono) (auto simp: bucket_inv_def)
    ultimately show ?thesis
      using up True by (simp add: bucket_consume_def c_def [symmetric] f64_sub_def distrib_left)
  next
    case False
    then show ?thesis using up C by (simp add: bucket_consume_def c_def [symmetric])
  qed
qed

lemma run_bucket_upper:
  assumes "bucket_inv b"
  shows "of_nat (fst (run_bucket ts b)) + tb_tokens (snd (run_bucket ts b)) \<le>
    tb_tokens b + tb_rate_per_sec b * of_nat (foldl max (tb_last_refill b) ts - tb_last_refill b) / 10 ^ 9
      * (1 + ulp) ^ 4 + 3 * tb_capacity b * ulp * of_nat (length ts)"
  using assms
proof (induction ts arbitrary: b)
  case (Cons t ts)
  define c where "c = snd (bucket_consume t b)"
  define p :: nat where "p = (if fst (bucket_consume t b) = BucketPass then 1 else 0)"
  define k where "k = tb_rate_per_sec b / 10 ^ 9 * (1 + ulp) ^ 4"
  have c: "bucket_inv c" "tb_capacity c = tb_capacity b" "tb_rate_per_sec c = tb_rate_per_sec b"
    "tb_last_refill c = max (tb_last_refill b) t"
    using bucket_consume_inv [OF Cons.prems] by (simp_all add: c_def bucket_consume_fixed)
  have r: "fst (run_bucket (t # ts) b) = p + fst (run_bucket ts c)"
    "snd (run_bucket (t # ts) b) = snd (run_bucket ts c)"
    by (simp_all add: c_def p_def case_prod_beta Let_def)
  have mono: "m \<le> foldl max m ts" for m :: nat
    by (induction ts arbitrary: m) (auto intro: order.trans [OF max.cobounded1])
  have "of_nat p + tb_tokens c \<le> tb_tokens b + k * of_nat (t - tb_last_refill b) + 3 * tb_capacity b * ulp"
    using bucket_consume_upper [OF Cons.prems, of t] by (simp add: p_def c_def k_def mult_ac split: if_splits)
  moreover have "of_nat (fst (run_bucket ts c)) + tb_tokens (snd (run_bucket ts c)) \<le>
      tb_tokens c + k * of_nat (foldl max (tb_last_refill c) ts - tb_last_refill c)
        + 3 * tb_capacity b * ulp * of_nat (length ts)"
    using Cons.IH [OF c(1)] c by (simp add: k_def mult_ac)
  moreover have "t - tb_last_refill b + (foldl max (tb_last_refill c) ts - tb_last_refill c) =
      foldl max (tb_last_refill b) (t # ts) - tb_last_refill b"
    using mono [of "tb_last_refill c"] by (simp add: c(4) max_def)
  then have "k * of_nat (t - tb_last_refill b) + k * of_nat (foldl max (tb_last_refill c) ts - tb_last_refill c) =
      k * of_nat (foldl max (tb_last_refill b) (t # ts) - tb_last_refill b)"
    by (metis of_nat_add distrib_left)
  ultimately show ?case
    unfolding r by (simp add: k_def mult_ac distrib_left)
qed simp

lemma bucket_pass_after:
  assumes "bucket_inv b" and "1 \<le> tb_rate_per_sec b" and "1 \<le> tb_capacity b"
    and "tb_last_refill b + from_secs 1 \<le> now"
  shows "fst (bucket_consume now b) = BucketPass"
proof -
  define d where "d = now - tb_last_refill b"
  have "1 \<le> as_secs d"
    using as_secs_mono [of "from_secs 1" d] assms(4) by (simp add: d_def)
  then have "1 \<le> rnd (of_nat (as_secs d))"
    by (intro rnd_ge_1) simp
  moreover have "0 \<le> f64_div (rnd (of_nat (subsec_nanos d))) (rnd 1000000000)"
    unfolding f64_div_def rnd_billion by (intro rnd_nonneg divide_nonneg_nonneg) simp_all
  ultimately have s: "1 \<le> as_secs_f64 d"
    unfolding as_secs_f64_def f64_add_def by (intro rnd_ge_1) linarith
  have "1 * 1 \<le> as_secs_f64 d * tb_rate_per_sec b"
    using s assms(2) by (intro mult_mono) auto
  then have "1 \<le> f64_mul (as_secs_f64 d) (tb_rate_per_sec b)"
    unfolding f64_mul_def by (intro rnd_ge_1) simp
  then have "1 \<le> f64_add (tb_tokens b) (f64_mul (as_secs_f64 d) (tb_rate_per_sec b))"
    unfolding f64_add_def using assms(1) by (intro rnd_ge_1) (simp add: bucket_inv_def)
  then have "1 \<le> tb_tokens (bucket_refill now b)"
    using assms(3,4) by (simp add: bucket_refill_def checked_duration_since_def d_def Let_def)
  then show ?thesis
    by (simp add: bucket_consume_def Let_def)
qed

subsection \<open>Properties\<close>

text \<open>
  The bucket enforces its rate: in any history of attempts on a fresh bucket, the number
  that pass is at most the capacity plus the rate times the elapsed seconds, up to the
  rounding of binary64 (a relative error below \<open>2 ^ -50\<close> of the refill, and \<open>3 * 2 ^ -53\<close> of
  the capacity per attempt), also when the clock steps backwards.
\<close>

theorem bucket_rate_bound:
  "of_nat (fst (run_bucket ts (bucket_new rate cap start))) \<le>
     f64_of_u64 cap
     + f64_of_u64 rate * of_nat (foldl max start ts - start) / 10 ^ 9 * (1 + 1 / 2 ^ 53) ^ 4
     + 3 * f64_of_u64 cap / 2 ^ 53 * of_nat (length ts)"
proof -
  have "0 \<le> tb_tokens (snd (run_bucket ts (bucket_new rate cap start)))"
    using run_bucket_inv [OF bucket_new_inv] by (simp add: bucket_inv_def)
  then show ?thesis
    using run_bucket_upper [OF bucket_new_inv, of ts rate cap start]
    by (simp add: bucket_new_def ulp_def)
qed

text \<open>
  The bucket recovers: with a rate and a capacity of at least one token, an attempt one
  second or more after the last refill passes, however empty the bucket was.
\<close>

theorem bucket_recovers:
  assumes "bucket_inv b" and "1 \<le> tb_rate_per_sec b" and "1 \<le> tb_capacity b"
    and "tb_last_refill b + from_secs 1 \<le> now"
  shows "fst (bucket_consume now b) = BucketPass"
  using bucket_pass_after [OF assms] .

theorem bucket_recovers_witness:
  "fst (bucket_consume (from_secs 5)
     \<lparr>tb_capacity = 1, tb_rate_per_sec = 1, tb_tokens = 0, tb_last_refill = from_secs 4,
      tb_last_warn_log = None\<rparr>) = BucketPass"
  by (rule bucket_recovers) (simp_all add: bucket_inv_def from_secs_def)

end
