(* ===== verification/Source_Key.thy ===== *)
theory Source_Key
  imports Std_Net
begin

text \<open>
  Keys of the rate limiter (\<open>fwknox-ratelimit/src/key.rs\<close>): IPv4 addresses in full, IPv6
  addresses masked byte by byte to a configurable prefix.
\<close>

datatype discriminator = KeyV4 | KeyV6

record source_key =
  sk_discriminator :: discriminator
  sk_bytes :: bytes

definition key_from_ipv4 :: "u32 \<Rightarrow> source_key" where
  "key_from_ipv4 v4 = \<lparr>sk_discriminator = KeyV4, sk_bytes = v4_octets v4 @ replicate 12 0\<rparr>"

definition clamp :: "'a::linorder \<Rightarrow> 'a \<Rightarrow> 'a \<Rightarrow> 'a" where
  "clamp lo hi x = (if x < lo then lo else if hi < x then hi else x)"

definition zero_from :: "nat \<Rightarrow> bytes \<Rightarrow> bytes" where
  "zero_from k bs = take k bs @ replicate (length bs - k) 0"

definition key_from_ipv6_masked :: "128 word \<Rightarrow> u8 \<Rightarrow> source_key" where
  "key_from_ipv6_masked v6 prefix_len =
     (let prefix_len = clamp 1 128 prefix_len;
          bytes = v6_octets v6;
          full_bytes = unat (prefix_len div 8);
          remaining_bits = prefix_len mod 8;
          bytes =
            (if full_bytes < 16 then
               if 0 < remaining_bits then
                 let m = push_bit (unat (8 - remaining_bits)) 0xFF :: u8 in
                 zero_from (full_bytes + 1) (bytes[full_bytes := bytes ! full_bytes AND m])
               else zero_from full_bytes bytes
             else bytes)
      in \<lparr>sk_discriminator = KeyV6, sk_bytes = bytes\<rparr>)"

definition key_from_ip :: "ip_addr \<Rightarrow> u8 \<Rightarrow> source_key" where
  "key_from_ip ip ipv6_prefix_len =
     (case ip of V4 v4 \<Rightarrow> key_from_ipv4 v4 | V6 v6 \<Rightarrow> key_from_ipv6_masked v6 ipv6_prefix_len)"

subsection \<open>Lemmas\<close>

lemma v6_octets_length [simp]: "length (v6_octets w) = 16"
  by (simp add: v6_octets_def)

lemma bit_v6_octet:
  assumes "i < 16" "j < 8"
  shows "bit (v6_octets w ! i) j \<longleftrightarrow> bit w (8 * (15 - i) + j)"
  using assms by (simp add: v6_octets_def bit_simps)

text \<open>The bytes of a masked address in closed form: bit \<open>7 - j\<close> of byte \<open>i\<close> is bit \<open>8 * i + j\<close> from the top.\<close>

definition masked :: "nat \<Rightarrow> 128 word \<Rightarrow> bytes" where
  "masked p w = map (\<lambda>i. v6_octets w ! i AND (if 8 * i + 8 \<le> p then - 1
     else if p \<le> 8 * i then 0 else push_bit (8 * i + 8 - p) (- 1))) [0..<16]"

lemma nth_zero_from: "i < length bs \<Longrightarrow> zero_from k bs ! i = (if i < k then bs ! i else 0)"
  by (auto simp: zero_from_def nth_append)

lemma clamp_range: "1 \<le> unat (clamp 1 128 (p :: u8))" "unat (clamp 1 128 (p :: u8)) \<le> 128"
proof -
  have "1 \<le> clamp 1 128 p" "clamp 1 128 p \<le> 128"
    by (auto simp: clamp_def one_le_word)
  then show "1 \<le> unat (clamp 1 128 p)" "unat (clamp 1 128 p) \<le> 128"
    by (simp_all add: word_le_nat_alt)
qed

text \<open>The mask as the code computes it, with the arithmetic on \<open>u8\<close> read as natural numbers.\<close>

lemma key_from_ipv6_masked_nat:
  assumes "n = unat (clamp 1 128 p)"
  shows "sk_bytes (key_from_ipv6_masked w p) =
    (if n div 8 < 16 then
       if 0 < n mod 8 then zero_from (n div 8 + 1)
         ((v6_octets w)[n div 8 := v6_octets w ! (n div 8) AND push_bit (8 - n mod 8) (- 1)])
       else zero_from (n div 8) (v6_octets w)
     else v6_octets w)"
proof -
  define q where "q = clamp 1 128 p"
  have div: "unat (q div 8) = n div 8" and mod: "unat (q mod 8) = n mod 8"
    by (simp_all add: assms q_def unat_div unat_mod)
  have mod0: "0 < q mod 8 \<longleftrightarrow> 0 < n mod 8"
    using mod by (simp add: word_less_nat_alt)
  have sub: "unat (8 - q mod 8) = 8 - n mod 8"
    using mod by (subst unat_sub) (auto simp: word_le_nat_alt)
  have ff: "(0xFF :: u8) = - 1" by simp
  show ?thesis
    unfolding key_from_ipv6_masked_def Let_def q_def [symmetric] div mod0 sub ff by simp
qed

lemma key_from_ipv6_masked_bytes:
  "sk_bytes (key_from_ipv6_masked w p) = masked (unat (clamp 1 128 p)) w"
proof -
  define n where "n = unat (clamp 1 128 p)"
  have m: "8 * (n div 8) + n mod 8 = n" by simp
  note bytes = key_from_ipv6_masked_nat [OF n_def]
  have "sk_bytes (key_from_ipv6_masked w p) ! i = masked n w ! i" if i: "i < 16" for i
  proof -
    consider "i < n div 8" | "i = n div 8" | "n div 8 < i" by linarith
    then show ?thesis
    proof cases
      case 1
      then have "8 * i + 8 \<le> n" using m by linarith
      then show ?thesis using 1 i by (simp add: bytes masked_def nth_zero_from)
    next
      case 2
      then have "8 * i + 8 - n = 8 - n mod 8" "\<not> 8 * i + 8 \<le> n" "n \<le> 8 * i \<longleftrightarrow> n mod 8 = 0"
        using m mod_less_divisor [of 8 n] by linarith+
      then show ?thesis using 2 i by (simp add: bytes masked_def nth_zero_from)
    next
      case 3
      then have "n \<le> 8 * i" using m mod_less_divisor [of 8 n] by linarith
      then show ?thesis using 3 i by (simp add: bytes masked_def nth_zero_from)
    qed
  qed
  then show ?thesis
    unfolding n_def [symmetric]
    by (intro nth_equalityI) (auto simp: bytes masked_def zero_from_def split: if_splits)
qed

lemma bit_masked:
  assumes "i < 16" "j < 8"
  shows "bit (masked p w ! i) j \<longleftrightarrow> bit w (8 * (15 - i) + j) \<and> 8 * i + (7 - j) < p"
  using assms bit_v6_octet [OF assms, of w] by (auto simp: masked_def bit_simps)

lemma masked_eq_iff:
  assumes "p \<le> 128"
  shows "masked p a = masked p b \<longleftrightarrow> drop_bit (128 - p) a = drop_bit (128 - p) b"
proof
  assume eq: "masked p a = masked p b"
  show "drop_bit (128 - p) a = drop_bit (128 - p) b"
  proof (rule bit_word_eqI)
    fix n assume "n < LENGTH(128)"
    define m where "m = 128 - p + n"
    show "bit (drop_bit (128 - p) a) n = bit (drop_bit (128 - p) b) n"
    proof (cases "m < 128")
      case True
      define i where "i = 15 - m div 8"
      have i: "i < 16" "m mod 8 < 8" "8 * (15 - i) + m mod 8 = m"
        using True by (auto simp: i_def)
      moreover have "8 * i + (7 - m mod 8) < p"
        using i True assms by (simp add: m_def)
      ultimately have "bit a m \<longleftrightarrow> bit b m"
        using bit_masked [OF i(1,2), of p a] bit_masked [OF i(1,2), of p b] eq by simp
      then show ?thesis by (simp add: bit_simps m_def)
    next
      case False
      then show ?thesis
        using bit_imp_le_length [of a m] bit_imp_le_length [of b m] by (auto simp: bit_simps m_def)
    qed
  qed
next
  assume eq: "drop_bit (128 - p) a = drop_bit (128 - p) b"
  have top: "bit a m \<longleftrightarrow> bit b m" if "128 - p \<le> m" for m
    using arg_cong [OF eq, of "\<lambda>w. bit w (m - (128 - p))"] that by (simp add: bit_simps)
  show "masked p a = masked p b"
  proof (rule nth_equalityI)
    fix i assume "i < length (masked p a)"
    then have i: "i < 16" by (simp add: masked_def)
    show "masked p a ! i = masked p b ! i"
      by (rule bit_word_eqI)
        (use top i assms in \<open>auto simp: bit_masked\<close>)
  qed (simp add: masked_def)
qed

lemma v4_octets_inject: "v4_octets a = v4_octets b \<longleftrightarrow> a = b"
proof
  assume eq: "v4_octets a = v4_octets b"
  have oct: "(ucast (drop_bit (8 * k) a) :: u8) = ucast (drop_bit (8 * k) b)" if "k < 4" for k
  proof -
    have "k = 0 \<or> k = 1 \<or> k = 2 \<or> k = 3" using that by linarith
    then show ?thesis using eq by (elim disjE) (simp_all add: v4_octets_def)
  qed
  have u8: "bit (ucast (drop_bit (8 * k) w) :: u8) j = bit w (8 * k + j)" if "j < 8" for k j and w :: u32
    using that by (simp add: bit_simps)
  show "a = b"
  proof (rule bit_word_eqI)
    fix n assume "n < LENGTH(32)"
    then have "n div 8 < 4" "n mod 8 < 8" by auto
    then have "bit a (8 * (n div 8) + n mod 8) = bit b (8 * (n div 8) + n mod 8)"
      using oct [of "n div 8"] u8 [of "n mod 8" "n div 8"] by metis
    then show "bit a n = bit b n" by simp
  qed
qed simp

subsection \<open>Properties\<close>

text \<open>
  C37. Two addresses share a rate-limit key iff they are the same IPv4 address, or both IPv6
  addresses that agree on the first \<open>ipv6_prefix_len\<close> bits (clamped to 1..128): the
  byte-wise masking is exactly prefix equality.
\<close>

theorem key_from_ip_eq_iff:
  "key_from_ip x p = key_from_ip y p \<longleftrightarrow>
     (case (x, y) of
        (V4 a, V4 b) \<Rightarrow> a = b
      | (V6 a, V6 b) \<Rightarrow>
          let n = unat (clamp 1 128 p) in drop_bit (128 - n) a = drop_bit (128 - n) b
      | _ \<Rightarrow> False)"
proof -
  have v6: "key_from_ipv6_masked a p = key_from_ipv6_masked b p \<longleftrightarrow>
      masked (unat (clamp 1 128 p)) a = masked (unat (clamp 1 128 p)) b" for a b
    using key_from_ipv6_masked_bytes [of a p] key_from_ipv6_masked_bytes [of b p]
    by (auto simp: key_from_ipv6_masked_def Let_def)
  have "sk_discriminator (key_from_ipv6_masked a p) = KeyV6" for a
    by (simp add: key_from_ipv6_masked_def Let_def)
  then show ?thesis
    by (cases x; cases y)
      (auto simp: key_from_ip_def v6 masked_eq_iff [OF clamp_range(2)] key_from_ipv4_def
        v4_octets_inject Let_def, (metis discriminator.distinct(1) source_key.select_convs(1))+)
qed

end
