(* ===== verification/Ratelimit.thy ===== *)
theory Ratelimit
  imports Bucket Source_Key Lru Config
begin

text \<open>
  The two-tier rate limiter (\<open>fwknox-ratelimit/src/limiter.rs\<close>, \<open>stats.rs\<close>, \<open>clock.rs\<close>):
  promoted sources have a bucket each in an LRU map, all others share a global bucket and
  are counted towards promotion in a bounded candidate map. The LRU operations are the
  parameter of theory \<open>Lru\<close>; the candidate \<open>HashMap\<close> is an association list; the mutex is
  its poison flag. The reading of the monotonic clock is an argument of \<open>check\<close>.
\<close>

subsection \<open>Clock and statistics\<close>

datatype clock = SystemClock | MockClock instant

definition clock_now :: "instant \<Rightarrow> clock \<Rightarrow> instant" where
  "clock_now sys c = (case c of SystemClock \<Rightarrow> sys | MockClock current \<Rightarrow> current)"

definition mock_new :: "instant \<Rightarrow> clock" where
  "mock_new sys = MockClock sys"

definition mock_advance :: "duration \<Rightarrow> clock \<Rightarrow> clock" where
  "mock_advance delta c = (case c of SystemClock \<Rightarrow> SystemClock | MockClock current \<Rightarrow> MockClock (current + delta))"

record stats =
  s_allowed :: u64
  s_dropped_per_source :: u64
  s_dropped_global :: u64
  s_promotions :: u64
  s_evictions :: u64

definition stats_default :: stats where
  "stats_default = \<lparr>s_allowed = 0, s_dropped_per_source = 0, s_dropped_global = 0,
     s_promotions = 0, s_evictions = 0\<rparr>"

definition incr_allowed :: "stats \<Rightarrow> stats" where
  "incr_allowed s = s\<lparr>s_allowed := s_allowed s + 1\<rparr>"

definition incr_dropped_per_source :: "stats \<Rightarrow> stats" where
  "incr_dropped_per_source s = s\<lparr>s_dropped_per_source := s_dropped_per_source s + 1\<rparr>"

definition incr_dropped_global :: "stats \<Rightarrow> stats" where
  "incr_dropped_global s = s\<lparr>s_dropped_global := s_dropped_global s + 1\<rparr>"

definition incr_promotions :: "stats \<Rightarrow> stats" where
  "incr_promotions s = s\<lparr>s_promotions := s_promotions s + 1\<rparr>"

definition incr_evictions :: "stats \<Rightarrow> stats" where
  "incr_evictions s = s\<lparr>s_evictions := s_evictions s + 1\<rparr>"

definition stats_snapshot :: "stats \<Rightarrow> stats" where
  "stats_snapshot s =
     \<lparr>s_allowed = s_allowed s, s_dropped_per_source = s_dropped_per_source s,
      s_dropped_global = s_dropped_global s, s_promotions = s_promotions s,
      s_evictions = s_evictions s\<rparr>"

subsection \<open>The limiter\<close>

definition CANDIDATE_TTL :: duration where
  "CANDIDATE_TTL = from_secs 60"

datatype drop_reason = PerSourceExhausted | GlobalExhausted

datatype decision = Pass | Drop drop_reason

record 'c limiter_inner =
  in_tracked :: 'c
  in_candidates :: "(source_key \<times> (u32 \<times> instant)) list"
  in_max_candidates :: nat
  in_global :: token_bucket
  in_clock :: clock
  in_last_global_drop_warn :: "instant option"
  in_poisoned :: bool

record 'c rate_limiter =
  lim_config :: rate_limit_section
  lim_inner :: "'c limiter_inner option"
  lim_stats :: stats

type_synonym 'c key_lru = "(source_key, token_bucket, 'c) lru_ops"

definition sweep_expired_candidates :: "instant \<Rightarrow> 'c limiter_inner \<Rightarrow> 'c limiter_inner" where
  "sweep_expired_candidates now inner =
     inner\<lparr>in_candidates :=
       filter (\<lambda>(_, (_, last_seen)). duration_since now last_seen < CANDIDATE_TTL) (in_candidates inner)\<rparr>"

definition limiter_reset ::
  "'c key_lru \<Rightarrow> rate_limit_section \<Rightarrow> instant \<Rightarrow> 'c limiter_inner \<Rightarrow> 'c limiter_inner" where
  "limiter_reset ops config now inner =
     inner\<lparr>in_tracked := lru_clear ops (in_tracked inner), in_candidates := [],
       in_global := bucket_new (rl_global_rate_per_sec config) (rl_global_burst config) now,
       in_last_global_drop_warn := None\<rparr>"

definition should_warn_log :: "instant option \<Rightarrow> instant \<Rightarrow> bool \<times> instant option" where
  "should_warn_log last_log now =
     (case last_log of
        Some prev \<Rightarrow> if duration_since now prev < from_secs 1 then (False, last_log) else (True, Some now)
      | None \<Rightarrow> (True, Some now))"

text \<open>\<open>None\<close> is the panic for a zero capacity.\<close>

definition with_clock :: "'c key_lru \<Rightarrow> rate_limit_section \<Rightarrow> instant \<Rightarrow> clock \<Rightarrow> 'c rate_limiter option" where
  "with_clock ops config sys clk =
     (if \<not> rl_enabled config
      then Some \<lparr>lim_config = config, lim_inner = None, lim_stats = stats_default\<rparr>
      else
        let now = clock_now sys clk; capacity = rl_tracked_sources_capacity config in
        if capacity = 0 then None
        else Some \<lparr>lim_config = config,
                   lim_inner = Some
                     \<lparr>in_tracked = lru_new ops capacity, in_candidates = [],
                      in_max_candidates = rl_tracked_sources_capacity config,
                      in_global = bucket_new (rl_global_rate_per_sec config) (rl_global_burst config) now,
                      in_clock = clk, in_last_global_drop_warn = None, in_poisoned = False\<rparr>,
                   lim_stats = stats_default\<rparr>)"

definition from_config :: "'c key_lru \<Rightarrow> rate_limit_section \<Rightarrow> instant \<Rightarrow> 'c rate_limiter option" where
  "from_config ops config sys = with_clock ops config sys SystemClock"

definition lock_recovering ::
  "'c key_lru \<Rightarrow> rate_limit_section \<Rightarrow> instant \<Rightarrow> 'c limiter_inner \<Rightarrow> 'c limiter_inner" where
  "lock_recovering ops config sys inner =
     (if in_poisoned inner
      then (limiter_reset ops config (clock_now sys (in_clock inner)) inner)\<lparr>in_poisoned := False\<rparr>
      else inner)"

text \<open>Tier 1: the source has its own bucket; \<open>write_back\<close> is the reference to it.\<close>

definition check_tracked ::
  "instant \<Rightarrow> token_bucket \<Rightarrow> (token_bucket \<Rightarrow> 'c) \<Rightarrow> 'c limiter_inner \<Rightarrow> stats
    \<Rightarrow> decision \<times> 'c limiter_inner \<times> stats" where
  "check_tracked now bucket write_back inner st =
     (case bucket_consume now bucket of
        (BucketPass, bucket') \<Rightarrow> (Pass, inner\<lparr>in_tracked := write_back bucket'\<rparr>, incr_allowed st)
      | (BucketDrop, bucket') \<Rightarrow>
          let (_, warned) = should_warn_log (tb_last_warn_log bucket') now in
          (Drop PerSourceExhausted,
           inner\<lparr>in_tracked := write_back (bucket'\<lparr>tb_last_warn_log := warned\<rparr>)\<rparr>,
           incr_dropped_per_source st))"

text \<open>
  Counting a packet that passed the global bucket towards promotion. The second component
  is \<open>None\<close> where the candidate map is full and the packet is not counted.
\<close>

definition bump_candidate ::
  "instant \<Rightarrow> source_key \<Rightarrow> 'c limiter_inner \<Rightarrow> 'c limiter_inner \<times> u32 option" where
  "bump_candidate now key inner =
     (case map_of (in_candidates inner) key of
        Some (seen, last_seen) \<Rightarrow>
          let seen = saturating_add seen 1 in
          (inner\<lparr>in_candidates := AList.update key (seen, now) (in_candidates inner)\<rparr>, Some seen)
      | None \<Rightarrow>
          let inner = (if in_max_candidates inner \<le> length (in_candidates inner)
                       then sweep_expired_candidates now inner else inner) in
          if in_max_candidates inner \<le> length (in_candidates inner) then (inner, None)
          else (inner\<lparr>in_candidates := AList.update key (1, now) (in_candidates inner)\<rparr>, Some 1))"

definition promote ::
  "'c key_lru \<Rightarrow> rate_limit_section \<Rightarrow> instant \<Rightarrow> source_key \<Rightarrow> 'c limiter_inner \<Rightarrow> stats
    \<Rightarrow> 'c limiter_inner \<times> stats" where
  "promote ops config now key inner st =
     (let bucket = bucket_new (rl_per_source_rate_per_sec config) (rl_per_source_burst config) now;
          inner = inner\<lparr>in_candidates := AList.delete key (in_candidates inner)\<rparr>;
          (tracked, out) = lru_push ops (in_tracked inner) key bucket;
          st = (case out of Some (evicted_key, _) \<Rightarrow> if evicted_key \<noteq> key then incr_evictions st else st
                | None \<Rightarrow> st)
      in (inner\<lparr>in_tracked := tracked\<rparr>, incr_promotions st))"

text \<open>Tier 2: the global bucket, then the candidate count and promotion.\<close>

definition check_global ::
  "'c key_lru \<Rightarrow> rate_limit_section \<Rightarrow> instant \<Rightarrow> source_key \<Rightarrow> 'c limiter_inner \<Rightarrow> stats
    \<Rightarrow> decision \<times> 'c limiter_inner \<times> stats" where
  "check_global ops config now key inner st =
     (case bucket_consume now (in_global inner) of
        (BucketDrop, g) \<Rightarrow>
          let (_, warned) = should_warn_log (in_last_global_drop_warn inner) now in
          (Drop GlobalExhausted, inner\<lparr>in_global := g, in_last_global_drop_warn := warned\<rparr>,
           incr_dropped_global st)
      | (BucketPass, g) \<Rightarrow>
          (case bump_candidate now key (inner\<lparr>in_global := g\<rparr>) of
             (inner, None) \<Rightarrow> (Pass, inner, incr_allowed st)
           | (inner, Some new_count) \<Rightarrow>
               let (inner, st) = (if rl_promotion_threshold config \<le> new_count
                                  then promote ops config now key inner st else (inner, st))
               in (Pass, inner, incr_allowed st)))"

text \<open>
  \<open>sys\<close> is the reading of the system clock during the check, \<open>sys_reset\<close> the one taken while
  recovering from a poisoned mutex.
\<close>

definition check ::
  "'c key_lru \<Rightarrow> instant \<Rightarrow> instant \<Rightarrow> ip_addr \<Rightarrow> 'c rate_limiter \<Rightarrow> decision \<times> 'c rate_limiter" where
  "check ops sys_reset sys src_ip rl =
     (case lim_inner rl of
        None \<Rightarrow> (Pass, rl\<lparr>lim_stats := incr_allowed (lim_stats rl)\<rparr>)
      | Some inner \<Rightarrow>
          let key = key_from_ip src_ip (rl_ipv6_prefix_len (lim_config rl));
              inner = lock_recovering ops (lim_config rl) sys_reset inner;
              now = clock_now sys (in_clock inner);
              (d, inner, st) =
                (case lru_get_mut ops (in_tracked inner) key of
                   Some (bucket, write_back) \<Rightarrow> check_tracked now bucket write_back inner (lim_stats rl)
                 | None \<Rightarrow> check_global ops (lim_config rl) now key inner (lim_stats rl))
          in (d, rl\<lparr>lim_inner := Some inner, lim_stats := st\<rparr>))"

definition limiter_stats :: "'c rate_limiter \<Rightarrow> stats" where
  "limiter_stats rl = stats_snapshot (lim_stats rl)"

subsection \<open>Histories\<close>

fun run_checks ::
  "'c key_lru \<Rightarrow> (instant \<times> ip_addr) list \<Rightarrow> 'c rate_limiter \<Rightarrow> decision list \<times> 'c rate_limiter" where
  "run_checks ops [] rl = ([], rl)"
| "run_checks ops ((t, ip) # es) rl =
     (let (d, rl') = check ops t t ip rl; (ds, rl'') = run_checks ops es rl' in (d # ds, rl''))"

text \<open>The packets of a history that passed through the global bucket.\<close>

definition is_tracked :: "'c key_lru \<Rightarrow> ip_addr \<Rightarrow> 'c rate_limiter \<Rightarrow> bool" where
  "is_tracked ops ip rl =
     (case lim_inner rl of
        None \<Rightarrow> False
      | Some inner \<Rightarrow>
          key_from_ip ip (rl_ipv6_prefix_len (lim_config rl)) \<in> fst ` set (lru_iter ops (in_tracked inner)))"

fun global_passes :: "'c key_lru \<Rightarrow> (instant \<times> ip_addr) list \<Rightarrow> 'c rate_limiter \<Rightarrow> nat" where
  "global_passes ops [] rl = 0"
| "global_passes ops ((t, ip) # es) rl =
     (let (d, rl') = check ops t t ip rl in
      (if d = Pass \<and> \<not> is_tracked ops ip rl then 1 else 0) + global_passes ops es rl')"

subsection \<open>Invariant\<close>

definition limiter_shape :: "'c key_lru \<Rightarrow> ('c \<Rightarrow> bool) \<Rightarrow> rate_limit_section \<Rightarrow> 'c limiter_inner \<Rightarrow> bool" where
  "limiter_shape ops I config inner \<longleftrightarrow>
     I (in_tracked inner) \<and> lru_cap ops (in_tracked inner) = rl_tracked_sources_capacity config \<and>
     in_max_candidates inner = rl_tracked_sources_capacity config"

definition limiter_inv :: "'c key_lru \<Rightarrow> ('c \<Rightarrow> bool) \<Rightarrow> rate_limit_section \<Rightarrow> 'c limiter_inner \<Rightarrow> bool" where
  "limiter_inv ops I config inner \<longleftrightarrow>
     limiter_shape ops I config inner \<and> \<not> in_poisoned inner \<and>
     distinct (map fst (in_candidates inner)) \<and>
     length (in_candidates inner) \<le> in_max_candidates inner \<and>
     fst ` set (in_candidates inner) \<inter> fst ` set (lru_iter ops (in_tracked inner)) = {} \<and>
     (\<forall>(k, n, t) \<in> set (in_candidates inner). n < rl_promotion_threshold config) \<and>
     bucket_inv (in_global inner) \<and>
     (\<forall>(k, b) \<in> set (lru_iter ops (in_tracked inner)). bucket_inv b)"

definition limiter_ok :: "'c key_lru \<Rightarrow> ('c \<Rightarrow> bool) \<Rightarrow> 'c rate_limiter \<Rightarrow> bool" where
  "limiter_ok ops I rl =
     (case lim_inner rl of
        None \<Rightarrow> True
      | Some inner \<Rightarrow>
          limiter_shape ops I (lim_config rl) inner \<and>
          (\<not> in_poisoned inner \<longrightarrow> limiter_inv ops I (lim_config rl) inner))"

subsection \<open>A sample limiter\<close>

definition sample_rl_config :: rate_limit_section where
  "sample_rl_config = default_rate_limit_section\<lparr>rl_promotion_threshold := 2, rl_tracked_sources_capacity := 2\<rparr>"

definition sample_ip :: ip_addr where
  "sample_ip = V4 0x0A000001"

definition sample_inner :: "(source_key, token_bucket) list_cache limiter_inner" where
  "sample_inner =
     \<lparr>in_tracked = (2, []), in_candidates = [(key_from_ip sample_ip 64, 1, from_secs 10)],
      in_max_candidates = 2, in_global = bucket_new 500 1000 (from_secs 10), in_clock = SystemClock,
      in_last_global_drop_warn = None, in_poisoned = False\<rparr>"

definition sample_limiter :: "(source_key, token_bucket) list_cache rate_limiter" where
  "sample_limiter = \<lparr>lim_config = sample_rl_config, lim_inner = Some sample_inner, lim_stats = stats_default\<rparr>"

definition empty_limiter :: "(source_key, token_bucket) list_cache rate_limiter" where
  "empty_limiter = sample_limiter\<lparr>lim_inner := Some (sample_inner\<lparr>in_global := bucket_new 0 0 0\<rparr>)\<rparr>"

subsection \<open>Lemmas on the candidate map\<close>

lemma sweep_candidates:
  "in_candidates (sweep_expired_candidates now inner) =
     filter (\<lambda>(_, (_, last_seen)). now - last_seen < CANDIDATE_TTL) (in_candidates inner)"
  by (simp add: sweep_expired_candidates_def duration_since_def)

lemma length_update: "length (AList.update k v al) = (if k \<in> fst ` set al then length al else Suc (length al))"
  by (induction al) auto

lemma set_update: "e \<in> set (AList.update k v al) \<Longrightarrow> e = (k, v) \<or> e \<in> set al"
  by (induction al) (auto split: if_splits)

lemma bump_fields:
  "bump_candidate now key inner = (inner', c) \<Longrightarrow>
     \<exists>cs. inner' = inner\<lparr>in_candidates := cs\<rparr>"
  by (auto simp: bump_candidate_def sweep_expired_candidates_def Let_def split: option.splits prod.splits if_splits)

lemma bump_candidates:
  assumes "bump_candidate now key inner = (inner', c)" "distinct (map fst (in_candidates inner))"
    "length (in_candidates inner) \<le> in_max_candidates inner"
  shows "distinct (map fst (in_candidates inner')) \<and>
    length (in_candidates inner') \<le> in_max_candidates inner \<and>
    set (in_candidates inner') \<subseteq>
      (case c of None \<Rightarrow> {} | Some n \<Rightarrow> {(key, n, now)}) \<union> set (in_candidates inner) \<and>
    (\<forall>k. k \<noteq> key \<longrightarrow> (\<forall>n t. map_of (in_candidates inner) k = Some (n, t) \<longrightarrow> now - t < CANDIDATE_TTL
        \<longrightarrow> map_of (in_candidates inner') k = Some (n, t)))"
proof (cases "map_of (in_candidates inner) key")
  case (Some a)
  then have "key \<in> fst ` set (in_candidates inner)"
    by (force dest: map_of_SomeD)
  then have "length (AList.update key v (in_candidates inner)) = length (in_candidates inner)" for v
    by (simp add: length_update)
  then show ?thesis
    using assms Some
    by (auto simp: bump_candidate_def Let_def distinct_update update_conv'
        dest: set_update map_of_SomeD split: prod.splits)
next
  case None
  define sw where "sw = (if in_max_candidates inner \<le> length (in_candidates inner)
    then sweep_expired_candidates now inner else inner)"
  have cs: "in_candidates sw = in_candidates inner \<or> in_candidates sw =
      filter (\<lambda>(_, (_, last_seen)). now - last_seen < CANDIDATE_TTL) (in_candidates inner)"
    by (auto simp: sw_def sweep_candidates)
  have mx: "in_max_candidates sw = in_max_candidates inner"
    by (simp add: sw_def sweep_expired_candidates_def)
  have d: "distinct (map fst (in_candidates sw))" and sub: "set (in_candidates sw) \<subseteq> set (in_candidates inner)"
    using cs assms(2) by auto
  have len: "length (in_candidates sw) \<le> in_max_candidates inner"
    using cs assms(3) by (auto intro: order.trans [OF length_filter_le])
  have live: "map_of (in_candidates sw) k = Some (n, t)"
    if "map_of (in_candidates inner) k = Some (n, t)" "now - t < CANDIDATE_TTL" for k n t
    using cs that map_of_SomeD [OF that(1)] d map_of_is_SomeI [OF d, of k "(n, t)"] by auto
  have b: "bump_candidate now key inner =
      (if in_max_candidates inner \<le> length (in_candidates sw) then (sw, None)
       else (sw\<lparr>in_candidates := AList.update key (1, now) (in_candidates sw)\<rparr>, Some 1))"
    using None mx by (simp add: bump_candidate_def sw_def Let_def)
  have new: "key \<notin> fst ` set (in_candidates sw)"
    using None sub by (auto simp: map_of_eq_None_iff)
  have "set (AList.update key (1, now) (in_candidates sw)) \<subseteq> insert (key, 1, now) (set (in_candidates inner))"
    using set_update [of _ key "(1, now)" "in_candidates sw"] sub by blast
  then show ?thesis
    using assms(1) d len sub live new unfolding b
    by (auto simp: distinct_update length_update update_conv' split: if_splits)
qed

subsection \<open>Counting\<close>

lemma plus_one_less:
  fixes n m :: u32
  assumes "n < m"
  shows "unat (n + 1) = unat n + 1" "saturating_add n 1 = n + 1"
proof -
  have "unat n + 1 < 2 ^ 32"
    using assms unsigned_less [of m, where ?'a = nat] by (simp add: word_less_nat_alt)
  then show "unat (n + 1) = unat n + 1" "saturating_add n 1 = n + 1"
    by (simp_all add: saturating_add_def unat_word_ariths)
qed

lemma check_enabled:
  "lim_inner rl = Some inner \<Longrightarrow> \<exists>inner'. lim_inner (snd (check ops sys_reset sys ip rl)) = Some inner'"
  by (simp add: check_def case_prod_beta Let_def)

subsection \<open>Every check preserves the invariant\<close>

locale key_tracker = lru_cache ops I
  for ops :: "(source_key, token_bucket, 'c) lru_ops" and I :: "'c \<Rightarrow> bool"
begin

lemma bucket_inv_warn: "bucket_inv (b\<lparr>tb_last_warn_log := t\<rparr>) = bucket_inv b"
  by (simp add: bucket_inv_def)

lemma check_tracked_inv:
  assumes inv: "limiter_inv ops I config inner"
    and g: "lru_get_mut ops (in_tracked inner) key = Some (b, w)"
    and r: "check_tracked now b w inner st = (d, inner', st')"
  shows "limiter_inv ops I config inner' \<and> in_candidates inner' = in_candidates inner \<and>
    in_global inner' = in_global inner"
proof -
  have i: "I (in_tracked inner)" using inv by (simp add: limiter_inv_def limiter_shape_def)
  have b: "bucket_inv b"
    using get_mut_Some [OF i g] inv by (auto simp: limiter_inv_def dest: map_of_SomeD)
  have k: "key \<in> fst ` set (lru_iter ops (in_tracked inner))"
    using get_mut_None [OF i, of key] g by auto
  obtain b' where b': "bucket_inv b'" "inner' = inner\<lparr>in_tracked := w b'\<rparr>"
    using r bucket_consume_inv [OF b, of now] bucket_inv_warn
    by (auto simp: check_tracked_def Let_def
        split: prod.splits bucket_decision.splits)
  have it: "lru_iter ops (w b') = (key, b') # filter (\<lambda>e. fst e \<noteq> key) (lru_iter ops (in_tracked inner))"
    by (rule get_mut_iter [OF i g])
  have keys: "fst ` set (lru_iter ops (w b')) = fst ` set (lru_iter ops (in_tracked inner))"
    using k by (auto simp: it)
  have "\<forall>(k, b) \<in> set (lru_iter ops (w b')). bucket_inv b"
    using inv b'(1) by (auto simp: it limiter_inv_def)
  then show ?thesis
    using inv b'(2) keys get_mut_inv [OF i g] get_mut_cap [OF i g]
    by (simp add: limiter_inv_def limiter_shape_def)
qed

lemma promote_inv:
  assumes shape: "limiter_shape ops I config inner" and np: "\<not> in_poisoned inner"
    and dist: "distinct (map fst (in_candidates inner))"
    and len: "length (in_candidates inner) \<le> in_max_candidates inner"
    and disj: "fst ` set (in_candidates inner) \<inter> fst ` set (lru_iter ops (in_tracked inner)) \<subseteq> {}"
    and cnt: "\<forall>(k, n, t) \<in> set (in_candidates inner). k \<noteq> key \<longrightarrow> n < rl_promotion_threshold config"
    and bk: "bucket_inv (in_global inner)" "\<forall>(k, b) \<in> set (lru_iter ops (in_tracked inner)). bucket_inv b"
    and new: "key \<notin> fst ` set (lru_iter ops (in_tracked inner))"
    and r: "promote ops config now key inner st = (inner', st')"
  shows "limiter_inv ops I config inner' \<and> in_global inner' = in_global inner \<and>
    in_candidates inner' = AList.delete key (in_candidates inner)"
proof -
  have i: "I (in_tracked inner)" using shape by (simp add: limiter_shape_def)
  define b where "b = bucket_new (rl_per_source_rate_per_sec config) (rl_per_source_burst config) now"
  have inner': "inner' = inner\<lparr>in_candidates := AList.delete key (in_candidates inner),
      in_tracked := lru_put ops (in_tracked inner) key b\<rparr>"
    using r by (auto simp: promote_def push_put [OF i] b_def Let_def)
  have it: "lru_iter ops (lru_put ops (in_tracked inner) key b) = (key, b) #
      (if length (lru_iter ops (in_tracked inner)) < lru_cap ops (in_tracked inner)
       then lru_iter ops (in_tracked inner) else butlast (lru_iter ops (in_tracked inner)))"
    using new by (simp add: put_iter [OF i] insert_front_def)
  have sub: "set (lru_iter ops (lru_put ops (in_tracked inner) key b)) \<subseteq>
      insert (key, b) (set (lru_iter ops (in_tracked inner)))"
    by (auto simp: it dest: in_set_butlastD)
  have del: "set (AList.delete key (in_candidates inner)) = {e \<in> set (in_candidates inner). fst e \<noteq> key}"
    by (auto simp: AList.delete_eq)
  have "length (AList.delete key (in_candidates inner)) \<le> in_max_candidates inner"
    using len by (auto simp: AList.delete_eq intro: order.trans [OF length_filter_le])
  moreover have "fst ` set (AList.delete key (in_candidates inner)) \<inter>
      fst ` set (lru_iter ops (lru_put ops (in_tracked inner) key b)) = {}"
  proof (rule equals0I)
    fix k assume "k \<in> fst ` set (AList.delete key (in_candidates inner)) \<inter>
      fst ` set (lru_iter ops (lru_put ops (in_tracked inner) key b))"
    then obtain e e' where "e \<in> set (in_candidates inner)" "k = fst e" "k \<noteq> key"
      "e' \<in> insert (key, b) (set (lru_iter ops (in_tracked inner)))" "k = fst e'"
      using sub by (auto simp: del)
    then have "k \<in> fst ` set (in_candidates inner)" "k \<in> fst ` set (lru_iter ops (in_tracked inner))"
      by (auto intro: rev_image_eqI)
    then show False using disj by blast
  qed
  moreover have "\<forall>(k, b) \<in> set (lru_iter ops (lru_put ops (in_tracked inner) key b)). bucket_inv b"
    using bk(2) subsetD [OF sub] bucket_new_inv [of "rl_per_source_rate_per_sec config" "rl_per_source_burst config" now]
    unfolding b_def [symmetric] by blast
  moreover have "\<forall>(k, n, t) \<in> set (AList.delete key (in_candidates inner)). n < rl_promotion_threshold config"
    using cnt by (auto simp: del)
  ultimately show ?thesis
    using shape np dist bk(1) put_inv [OF i] put_cap [OF i]
    by (simp add: limiter_inv_def limiter_shape_def inner' distinct_delete)
qed

text \<open>What tier 2 does: the global bucket is consumed, and only a pass touches the candidates.\<close>

text \<open>What counting a candidate leaves of the candidates, for a source that is not tracked.\<close>

lemma bump_global:
  assumes inv: "limiter_inv ops I config inner"
    and new: "key \<notin> fst ` set (lru_iter ops (in_tracked inner))"
    and b: "bump_candidate now key (inner\<lparr>in_global := g\<rparr>) = (inner1, cnt)"
  obtains cs where "inner1 = inner\<lparr>in_global := g, in_candidates := cs\<rparr>"
    "distinct (map fst cs)" "length cs \<le> in_max_candidates inner"
    "\<forall>k. k \<noteq> key \<longrightarrow> (\<forall>n t. map_of (in_candidates inner) k = Some (n, t) \<longrightarrow> now - t < CANDIDATE_TTL
      \<longrightarrow> map_of cs k = Some (n, t))"
    "fst ` set cs \<inter> fst ` set (lru_iter ops (in_tracked inner)) = {}"
    "\<forall>(k, n, t) \<in> set cs. n < rl_promotion_threshold config \<or> k = key \<and> cnt = Some n"
proof -
  obtain cs where cs: "inner1 = inner\<lparr>in_global := g, in_candidates := cs\<rparr>"
    using bump_fields [OF b] by auto
  have bc: "distinct (map fst cs)" "length cs \<le> in_max_candidates inner"
    "set cs \<subseteq> (case cnt of None \<Rightarrow> {} | Some n \<Rightarrow> {(key, n, now)}) \<union> set (in_candidates inner)"
    "\<forall>k. k \<noteq> key \<longrightarrow> (\<forall>n t. map_of (in_candidates inner) k = Some (n, t) \<longrightarrow> now - t < CANDIDATE_TTL
      \<longrightarrow> map_of cs k = Some (n, t))"
    using bump_candidates [OF b] inv by (simp_all add: cs limiter_inv_def)
  have "fst ` set cs \<subseteq> insert key (fst ` set (in_candidates inner))"
    using bc(3) by (auto split: option.splits)
  moreover have "fst ` set (in_candidates inner) \<inter> fst ` set (lru_iter ops (in_tracked inner)) = {}"
    using inv by (simp add: limiter_inv_def)
  ultimately have disj: "fst ` set cs \<inter> fst ` set (lru_iter ops (in_tracked inner)) = {}"
    using new by blast
  have "\<forall>(k, n, t) \<in> set (in_candidates inner). n < rl_promotion_threshold config"
    using inv by (auto simp: limiter_inv_def)
  then have "\<forall>(k, n, t) \<in> set cs. n < rl_promotion_threshold config \<or> k = key \<and> cnt = Some n"
    using bc(3) by (fastforce split: option.splits)
  then show ?thesis
    using that [OF cs bc(1,2,4) disj] by blast
qed

lemma check_global_inv:
  assumes inv: "limiter_inv ops I config inner"
    and new: "key \<notin> fst ` set (lru_iter ops (in_tracked inner))"
    and r: "check_global ops config now key inner st = (d, inner', st')"
  shows "limiter_inv ops I config inner' \<and> in_global inner' = snd (bucket_consume now (in_global inner)) \<and>
    (d = Pass \<longleftrightarrow> fst (bucket_consume now (in_global inner)) = BucketPass) \<and>
    (d \<noteq> Pass \<longrightarrow> in_candidates inner' = in_candidates inner) \<and>
    (\<forall>k. k \<noteq> key \<longrightarrow> (\<forall>n t. map_of (in_candidates inner) k = Some (n, t) \<longrightarrow> now - t < CANDIDATE_TTL
        \<longrightarrow> map_of (in_candidates inner') k = Some (n, t)))"
proof -
  obtain bd g where c: "bucket_consume now (in_global inner) = (bd, g)"
    by (cases "bucket_consume now (in_global inner)")
  have g: "bucket_inv g"
    using bucket_consume_inv [of "in_global inner" now] inv c by (simp add: limiter_inv_def)
  show ?thesis
  proof (cases bd)
    case BucketDrop
    then obtain warned where i: "inner' = inner\<lparr>in_global := g, in_last_global_drop_warn := warned\<rparr>"
      and d: "d = Drop GlobalExhausted"
      using r c by (auto simp: check_global_def Let_def split: prod.splits)
    have "limiter_inv ops I config inner'"
      using inv g by (simp add: i limiter_inv_def limiter_shape_def)
    then show ?thesis
      using c BucketDrop by (simp add: i d)
  next
    case BucketPass
    obtain inner1 cnt where b: "bump_candidate now key (inner\<lparr>in_global := g\<rparr>) = (inner1, cnt)"
      by (cases "bump_candidate now key (inner\<lparr>in_global := g\<rparr>)")
    obtain cs where cs: "inner1 = inner\<lparr>in_global := g, in_candidates := cs\<rparr>"
      and bc: "distinct (map fst cs)" "length cs \<le> in_max_candidates inner"
        "\<forall>k. k \<noteq> key \<longrightarrow> (\<forall>n t. map_of (in_candidates inner) k = Some (n, t) \<longrightarrow> now - t < CANDIDATE_TTL
          \<longrightarrow> map_of cs k = Some (n, t))"
        "fst ` set cs \<inter> fst ` set (lru_iter ops (in_tracked inner)) = {}"
      and thr: "\<forall>(k, n, t) \<in> set cs. n < rl_promotion_threshold config \<or> k = key \<and> cnt = Some n"
      by (rule bump_global [OF inv new b])
    show ?thesis
    proof (cases "\<exists>n. cnt = Some n \<and> rl_promotion_threshold config \<le> n")
      case True
      then obtain n where n: "cnt = Some n" "rl_promotion_threshold config \<le> n" by blast
      obtain inner2 st2 where p: "promote ops config now key inner1 st = (inner2, st2)"
        by (cases "promote ops config now key inner1 st")
      have q: "limiter_inv ops I config inner2 \<and> in_global inner2 = in_global inner1 \<and>
          in_candidates inner2 = AList.delete key (in_candidates inner1)"
      proof (rule promote_inv [OF _ _ _ _ _ _ _ _ _ p])
        show "\<forall>(k, n, t) \<in> set (in_candidates inner1). k \<noteq> key \<longrightarrow> n < rl_promotion_threshold config"
          using thr by (auto simp: cs)
      qed (use inv bc new g in \<open>simp_all add: cs limiter_inv_def limiter_shape_def\<close>)
      have "map_of (AList.delete key cs) k = map_of cs k" if "k \<noteq> key" for k
        using that by (simp add: delete_conv')
      then show ?thesis
        using r c b n p q bc(3) BucketPass by (auto simp: check_global_def cs)
    next
      case False
      have "\<forall>(k, n, t) \<in> set cs. n < rl_promotion_threshold config"
        using thr False by (auto simp: not_le)
      then have "limiter_inv ops I config inner1"
        using inv bc g by (simp add: cs limiter_inv_def limiter_shape_def)
      moreover have "d = Pass" "inner' = inner1"
        using r c b False BucketPass by (auto simp: check_global_def Let_def split: option.splits if_splits)
      ultimately show ?thesis
        using c bc(3) BucketPass by (simp add: cs)
    qed
  qed
qed

lemma lock_recovering_inv:
  assumes "limiter_shape ops I config inner"
    and "\<not> in_poisoned inner \<Longrightarrow> limiter_inv ops I config inner"
  shows "limiter_inv ops I config (lock_recovering ops config sys inner)"
  using assms
  by (auto simp: lock_recovering_def limiter_reset_def limiter_inv_def limiter_shape_def
      clear_inv clear_cap clear_iter bucket_new_inv)

lemma check_global_clock:
  "check_global ops config now key inner st = (d, inner', st') \<Longrightarrow> in_clock inner' = in_clock inner"
  by (auto simp: check_global_def promote_def Let_def dest!: bump_fields
      split: prod.splits bucket_decision.splits option.splits if_splits)

lemma check_tracked_clock:
  "check_tracked now b w inner st = (d, inner', st') \<Longrightarrow> in_clock inner' = in_clock inner"
  by (auto simp: check_tracked_def Let_def split: prod.splits bucket_decision.splits)

text \<open>One check of an enabled limiter.\<close>

lemma check_step:
  assumes inner: "lim_inner rl = Some inner" and inv: "limiter_inv ops I (lim_config rl) inner"
    and r: "check ops sys_reset sys ip rl = (d, rl')"
  defines "key \<equiv> key_from_ip ip (rl_ipv6_prefix_len (lim_config rl))"
    and "now \<equiv> clock_now sys (in_clock inner)"
  shows "\<exists>inner'. lim_inner rl' = Some inner' \<and> lim_config rl' = lim_config rl \<and>
    limiter_inv ops I (lim_config rl) inner' \<and> in_clock inner' = in_clock inner \<and>
    (d \<noteq> Pass \<longrightarrow> in_candidates inner' = in_candidates inner) \<and>
    (\<forall>k. k \<noteq> key \<longrightarrow> (\<forall>n t. map_of (in_candidates inner) k = Some (n, t) \<longrightarrow> now - t < CANDIDATE_TTL
        \<longrightarrow> map_of (in_candidates inner') k = Some (n, t))) \<and>
    (if is_tracked ops ip rl then in_global inner' = in_global inner
     else in_global inner' = snd (bucket_consume now (in_global inner)) \<and>
          (d = Pass \<longleftrightarrow> fst (bucket_consume now (in_global inner)) = BucketPass))"
proof -
  have i: "I (in_tracked inner)" using inv by (simp add: limiter_inv_def limiter_shape_def)
  have lock: "lock_recovering ops (lim_config rl) sys_reset inner = inner"
    using inv by (simp add: lock_recovering_def limiter_inv_def)
  show ?thesis
  proof (cases "lru_get_mut ops (in_tracked inner) key")
    case None
    then have nt: "key \<notin> fst ` set (lru_iter ops (in_tracked inner))"
      using get_mut_None [OF i] by simp
    then have "\<not> is_tracked ops ip rl"
      by (simp add: is_tracked_def inner key_def)
    moreover obtain inner' st where g: "check_global ops (lim_config rl) now key inner (lim_stats rl) = (d, inner', st)"
      "rl' = rl\<lparr>lim_inner := Some inner', lim_stats := st\<rparr>"
      using r None by (auto simp: check_def inner lock key_def now_def split: prod.splits)
    ultimately show ?thesis
      using check_global_inv [OF inv nt g(1)] check_global_clock [OF g(1)] by simp
  next
    case (Some bw)
    obtain b w where bw: "lru_get_mut ops (in_tracked inner) key = Some (b, w)"
      using Some by (cases bw) auto
    then have t: "is_tracked ops ip rl"
      using get_mut_None [OF i, of key] by (simp add: is_tracked_def inner key_def)
    obtain inner' st where g: "check_tracked now b w inner (lim_stats rl) = (d, inner', st)"
      "rl' = rl\<lparr>lim_inner := Some inner', lim_stats := st\<rparr>"
      using r bw by (auto simp: check_def inner lock key_def now_def split: prod.splits)
    then show ?thesis
      using check_tracked_inv [OF inv bw g(1)] check_tracked_clock [OF g(1)] t by simp
  qed
qed

lemma check_recovers:
  assumes inner: "lim_inner rl = Some inner" and shape: "limiter_shape ops I (lim_config rl) inner"
    and p: "in_poisoned inner"
  shows "check ops sys_reset sys ip rl = check ops sys_reset sys ip
    (rl\<lparr>lim_inner := Some (lock_recovering ops (lim_config rl) sys_reset inner)\<rparr>)"
  using p by (simp add: check_def inner lock_recovering_def Let_def cong: option.case_cong)

lemma check_ok:
  assumes ok: "limiter_ok ops I rl" and r: "check ops sys_reset sys ip rl = (d, rl')"
  shows "limiter_ok ops I rl' \<and> lim_config rl' = lim_config rl \<and>
    (\<forall>inner'. lim_inner rl' = Some inner' \<longrightarrow> limiter_inv ops I (lim_config rl) inner')"
proof (cases "lim_inner rl")
  case None
  then show ?thesis using r by (auto simp: check_def limiter_ok_def)
next
  case (Some inner)
  have shape: "limiter_shape ops I (lim_config rl) inner"
    using ok Some by (simp add: limiter_ok_def)
  define rl0 where "rl0 = rl\<lparr>lim_inner := Some (lock_recovering ops (lim_config rl) sys_reset inner)\<rparr>"
  have inv0: "limiter_inv ops I (lim_config rl0) (lock_recovering ops (lim_config rl) sys_reset inner)"
    using lock_recovering_inv [OF shape] ok Some by (simp add: rl0_def limiter_ok_def)
  have inner0: "lim_inner rl0 = Some (lock_recovering ops (lim_config rl) sys_reset inner)"
    by (simp add: rl0_def)
  have r0: "check ops sys_reset sys ip rl0 = (d, rl')"
  proof (cases "in_poisoned inner")
    case True
    then show ?thesis using check_recovers [OF Some shape True] r by (simp add: rl0_def)
  next
    case False
    then have "rl0 = rl" using Some by (simp add: rl0_def lock_recovering_def)
    then show ?thesis using r by simp
  qed
  obtain inner' where "lim_inner rl' = Some inner'" "lim_config rl' = lim_config rl0"
    "limiter_inv ops I (lim_config rl0) inner'"
    using check_step [OF inner0 inv0 r0] by blast
  then show ?thesis
    by (simp add: limiter_ok_def rl0_def limiter_inv_def)
qed

lemma with_clock_ok: "with_clock ops config sys clk = Some rl \<Longrightarrow> limiter_ok ops I rl \<and> lim_config rl = config"
  by (auto simp: with_clock_def limiter_ok_def limiter_inv_def limiter_shape_def Let_def new_inv new_cap
      new_iter bucket_new_inv split: if_splits)

lemma run_checks_ok:
  "limiter_ok ops I rl \<Longrightarrow> lim_inner (snd (run_checks ops es rl)) = Some inner \<Longrightarrow>
     es \<noteq> [] \<or> lim_inner rl = Some inner \<and> \<not> in_poisoned inner \<Longrightarrow>
     limiter_inv ops I (lim_config rl) inner"
proof (induction es arbitrary: rl)
  case Nil
  then show ?case by (simp add: limiter_ok_def)
next
  case (Cons e es)
  obtain t ip where e: "e = (t, ip)" by (cases e)
  obtain d rl' where c: "check ops t t ip rl = (d, rl')" by (cases "check ops t t ip rl")
  have r: "lim_inner (snd (run_checks ops es rl')) = Some inner"
    using Cons.prems(2) by (simp add: e c case_prod_beta Let_def)
  have k: "limiter_ok ops I rl'" "lim_config rl' = lim_config rl"
    "\<forall>inner'. lim_inner rl' = Some inner' \<longrightarrow> limiter_inv ops I (lim_config rl) inner'"
    using check_ok [OF Cons.prems(1) c] by auto
  show ?case
  proof (cases es)
    case Nil
    then show ?thesis using r k by simp
  next
    case (Cons e' es')
    then show ?thesis using Cons.IH [OF k(1) r] k(2) by simp
  qed
qed

text \<open>A packet of a counted source that passes the global bucket.\<close>

lemma check_counts:
  assumes inner: "lim_inner rl = Some inner" and inv: "limiter_inv ops I (lim_config rl) inner"
    and r: "check ops sys_reset sys ip rl = (Pass, rl')"
    and key: "key = key_from_ip ip (rl_ipv6_prefix_len (lim_config rl))"
    and now: "now = clock_now sys (in_clock inner)"
    and cand: "map_of (in_candidates inner) key = Some (n, t)"
  shows "\<exists>inner'. lim_inner rl' = Some inner' \<and>
    (if unat (rl_promotion_threshold (lim_config rl)) \<le> unat n + 1
     then map_of (in_candidates inner') key = None \<and>
       map_of (lru_iter ops (in_tracked inner')) key =
         Some (bucket_new (rl_per_source_rate_per_sec (lim_config rl))
           (rl_per_source_burst (lim_config rl)) now)
     else map_of (in_candidates inner') key = Some (n + 1, now) \<and> unat (n + 1) = unat n + 1)"
proof -
  have i: "I (in_tracked inner)" using inv by (simp add: limiter_inv_def limiter_shape_def)
  have lock: "lock_recovering ops (lim_config rl) sys_reset inner = inner"
    using inv by (simp add: lock_recovering_def limiter_inv_def)
  have "key \<in> fst ` set (in_candidates inner)"
    using cand by (force dest: map_of_SomeD)
  moreover have "fst ` set (in_candidates inner) \<inter> fst ` set (lru_iter ops (in_tracked inner)) = {}"
    using inv by (simp add: limiter_inv_def)
  ultimately have "key \<notin> fst ` set (lru_iter ops (in_tracked inner))"
    by (meson disjoint_iff)
  then have nt: "lru_get_mut ops (in_tracked inner) key = None"
    by (rule iffD2 [OF get_mut_None [OF i]])
  have n: "n < rl_promotion_threshold (lim_config rl)"
    using inv map_of_SomeD [OF cand] by (auto simp: limiter_inv_def)
  then have u: "saturating_add n 1 = n + 1" "unat (n + 1) = unat n + 1"
    using plus_one_less [OF n] by auto
  have thr: "rl_promotion_threshold (lim_config rl) \<le> n + 1 \<longleftrightarrow>
      unat (rl_promotion_threshold (lim_config rl)) \<le> unat n + 1"
    by (simp add: word_le_nat_alt u(2))
  have "\<not> is_tracked ops ip rl"
    using nt get_mut_None [OF i, of key] by (simp add: is_tracked_def inner key)
  then have "fst (bucket_consume now (in_global inner)) = BucketPass"
    using check_step [OF inner inv r] by (auto simp: now)
  then obtain g where g: "bucket_consume now (in_global inner) = (BucketPass, g)"
    by (cases "bucket_consume now (in_global inner)") auto
  define inner1 where "inner1 = inner\<lparr>in_global := g,
    in_candidates := AList.update key (n + 1, now) (in_candidates inner)\<rparr>"
  have bump: "bump_candidate now key (inner\<lparr>in_global := g\<rparr>) = (inner1, Some (n + 1))"
    using cand u by (simp add: bump_candidate_def inner1_def Let_def)
  obtain inner2 st2 where p: "promote ops (lim_config rl) now key inner1 (lim_stats rl) = (inner2, st2)"
    by (cases "promote ops (lim_config rl) now key inner1 (lim_stats rl)")
  then have inner2: "in_candidates inner2 = AList.delete key (in_candidates inner1)"
    "in_tracked inner2 = lru_put ops (in_tracked inner) key (bucket_new
       (rl_per_source_rate_per_sec (lim_config rl)) (rl_per_source_burst (lim_config rl)) now)"
    by (auto simp: promote_def push_put [OF i] inner1_def Let_def)
  have "check_global ops (lim_config rl) now key inner (lim_stats rl) =
      (if rl_promotion_threshold (lim_config rl) \<le> n + 1 then (Pass, inner2, incr_allowed st2)
       else (Pass, inner1, incr_allowed (lim_stats rl)))"
    by (simp add: check_global_def g bump p)
  then have "lim_inner rl' = Some (if rl_promotion_threshold (lim_config rl) \<le> n + 1 then inner2 else inner1)"
    using r nt by (auto simp: check_def inner lock key [symmetric] now [symmetric])
  then show ?thesis
    using thr u(2) inner2
    by (simp add: inner1_def put_iter [OF i] insert_front_def update_conv' delete_conv')
qed

text \<open>Histories that stay away from one key, within its time to live.\<close>

lemma run_checks_keeps_candidate:
  assumes "lim_inner rl = Some inner" "limiter_inv ops I (lim_config rl) inner" "in_clock inner = SystemClock"
    "map_of (in_candidates inner) k = Some (n, t)"
    "list_all (\<lambda>(s, ip). key_from_ip ip (rl_ipv6_prefix_len (lim_config rl)) \<noteq> k \<and> s < t + CANDIDATE_TTL) es"
  shows "\<exists>inner'. lim_inner (snd (run_checks ops es rl)) = Some inner' \<and>
    map_of (in_candidates inner') k = Some (n, t)"
  using assms
proof (induction es arbitrary: rl inner)
  case (Cons e es)
  obtain s ip where e: "e = (s, ip)" by (cases e)
  obtain d rl' where c: "check ops s s ip rl = (d, rl')" by (cases "check ops s s ip rl")
  have k: "k \<noteq> key_from_ip ip (rl_ipv6_prefix_len (lim_config rl))"
    and ttl: "clock_now s (in_clock inner) - t < CANDIDATE_TTL"
    using Cons.prems(3,5) by (auto simp: e clock_now_def CANDIDATE_TTL_def from_secs_def)
  obtain inner' where i: "lim_inner rl' = Some inner'" "lim_config rl' = lim_config rl"
    "limiter_inv ops I (lim_config rl) inner'" "in_clock inner' = in_clock inner"
    "map_of (in_candidates inner') k = Some (n, t)"
    using check_step [OF Cons.prems(1,2) c] k ttl Cons.prems(4) by blast
  have "\<exists>inner''. lim_inner (snd (run_checks ops es rl')) = Some inner'' \<and>
      map_of (in_candidates inner'') k = Some (n, t)"
    using Cons.IH [OF i(1)] i Cons.prems(3,5) by simp
  then show ?case by (simp add: e c case_prod_beta Let_def)
qed simp

text \<open>The packets of untracked sources are attempts on one bucket.\<close>

lemma global_passes_run_bucket:
  assumes "lim_inner rl = Some inner" "limiter_inv ops I (lim_config rl) inner" "in_clock inner = SystemClock"
  shows "\<exists>ts. global_passes ops es rl = fst (run_bucket ts (in_global inner)) \<and>
    length ts \<le> length es \<and> set ts \<subseteq> fst ` set es"
  using assms
proof (induction es arbitrary: rl inner)
  case Nil
  show ?case by (intro exI [of _ "[]"]) simp
next
  case (Cons e es)
  obtain s ip where e: "e = (s, ip)" by (cases e)
  obtain d rl' where c: "check ops s s ip rl = (d, rl')" by (cases "check ops s s ip rl")
  have now: "clock_now s (in_clock inner) = s"
    using Cons.prems(3) by (simp add: clock_now_def)
  obtain inner' where i: "lim_inner rl' = Some inner'" "lim_config rl' = lim_config rl"
    "limiter_inv ops I (lim_config rl) inner'" "in_clock inner' = in_clock inner"
    and g: "if is_tracked ops ip rl then in_global inner' = in_global inner
     else in_global inner' = snd (bucket_consume s (in_global inner)) \<and>
          (d = Pass \<longleftrightarrow> fst (bucket_consume s (in_global inner)) = BucketPass)"
    using check_step [OF Cons.prems(1,2) c] unfolding now by blast
  obtain ts where ts: "global_passes ops es rl' = fst (run_bucket ts (in_global inner'))"
    "length ts \<le> length es" "set ts \<subseteq> fst ` set es"
    using Cons.IH [OF i(1)] i Cons.prems(3) by auto
  show ?case
  proof (cases "is_tracked ops ip rl")
    case True
    then show ?thesis using ts g by (intro exI [of _ ts]) (auto simp: e c)
  next
    case False
    then show ?thesis using ts g by (intro exI [of _ "s # ts"]) (auto simp: e c case_prod_beta Let_def)
  qed
qed

end

interpretation list_keys: key_tracker list_lru list_cache_inv
  by unfold_locales

lemma sample_limiter_inv: "limiter_inv list_lru list_cache_inv (lim_config sample_limiter) sample_inner"
  by (simp add: limiter_inv_def limiter_shape_def sample_inner_def list_lru_def list_cache_inv_def
      sample_limiter_def sample_rl_config_def bucket_new_inv)

lemma sample_limiter_inner: "lim_inner sample_limiter = Some sample_inner"
  by (simp add: sample_limiter_def)

subsection \<open>Properties\<close>

text \<open>
  Traffic of sources without their own bucket is rate limited: in any history of a fresh
  limiter that ends by \<open>finish\<close>, the number of packets from untracked sources that pass is
  at most the global burst plus the global rate times the elapsed time, up to binary64
  rounding, for any number of distinct source addresses.
\<close>

theorem untracked_traffic_bounded:
  assumes "key_tracker ops I" and "rl_enabled config" and "from_config ops config start = Some rl"
    and "list_all (\<lambda>(s, ip). s \<le> finish) es" and "start \<le> finish"
  shows "of_nat (global_passes ops es rl) \<le>
     f64_of_u64 (rl_global_burst config)
     + f64_of_u64 (rl_global_rate_per_sec config) * of_nat (finish - start) / 10 ^ 9 * (1 + 1 / 2 ^ 53) ^ 4
     + 3 * f64_of_u64 (rl_global_burst config) / 2 ^ 53 * of_nat (length es)"
proof -
  define b where "b = bucket_new (rl_global_rate_per_sec config) (rl_global_burst config) start"
  have wc: "with_clock ops config start SystemClock = Some rl"
    using assms(3) by (simp add: from_config_def)
  have ok: "limiter_ok ops I rl" "lim_config rl = config"
    using key_tracker.with_clock_ok [OF assms(1) wc] by auto
  obtain inner where inner: "lim_inner rl = Some inner" "in_clock inner = SystemClock" "in_global inner = b"
    "\<not> in_poisoned inner"
    using wc assms(2) by (auto simp: with_clock_def b_def clock_now_def Let_def split: if_splits)
  have inv: "limiter_inv ops I (lim_config rl) inner"
    using ok(1) inner by (simp add: limiter_ok_def)
  obtain ts where ts: "global_passes ops es rl = fst (run_bucket ts b)" "length ts \<le> length es"
    "set ts \<subseteq> fst ` set es"
    using key_tracker.global_passes_run_bucket [OF assms(1) inner(1) inv inner(2)] inner(3) by blast
  have "\<forall>t \<in> set ts. t \<le> finish"
    using ts(3) assms(4) by (fastforce simp: list_all_iff)
  then have "foldl max start ts \<le> finish"
    using assms(5) by (induction ts arbitrary: start) auto
  then have "of_nat (foldl max start ts - start) \<le> (of_nat (finish - start) :: rat)"
    by simp
  then have "tb_rate_per_sec b * of_nat (foldl max start ts - start) / 10 ^ 9 * (1 + ulp) ^ 4
      \<le> tb_rate_per_sec b * of_nat (finish - start) / 10 ^ 9 * (1 + ulp) ^ 4"
    using ulp_pos bucket_new_inv
    by (intro mult_right_mono divide_right_mono mult_left_mono) (auto simp: b_def bucket_inv_def)
  moreover have "3 * tb_capacity b * ulp * of_nat (length ts) \<le> 3 * tb_capacity b * ulp * of_nat (length es)"
    using ts(2) ulp_pos f64_of_u64_nonneg by (intro mult_left_mono) (auto simp: b_def bucket_new_def)
  moreover have "0 \<le> tb_tokens (snd (run_bucket ts b))"
    using run_bucket_inv [OF bucket_new_inv] by (simp add: b_def bucket_inv_def)
  moreover have "of_nat (fst (run_bucket ts b)) + tb_tokens (snd (run_bucket ts b)) \<le> tb_capacity b
      + tb_rate_per_sec b * of_nat (foldl max start ts - start) / 10 ^ 9 * (1 + ulp) ^ 4
      + 3 * tb_capacity b * ulp * of_nat (length ts)"
    using run_bucket_upper [OF bucket_new_inv, of ts "rl_global_rate_per_sec config" "rl_global_burst config" start]
    by (simp add: b_def bucket_new_def)
  ultimately have "of_nat (global_passes ops es rl) \<le> tb_capacity b
      + tb_rate_per_sec b * of_nat (finish - start) / 10 ^ 9 * (1 + ulp) ^ 4
      + 3 * tb_capacity b * ulp * of_nat (length es)"
    unfolding ts(1) by linarith
  then show ?thesis
    by (simp add: b_def bucket_new_def ulp_def)
qed

theorem untracked_traffic_bounded_witness:
  "\<exists>rl. from_config list_lru default_rate_limit_section 0 = Some rl \<and>
     of_nat (global_passes list_lru [(from_secs 1, V4 1), (from_secs 2, V4 2)] rl) \<le>
       f64_of_u64 1000 + f64_of_u64 500 * of_nat (from_secs 2 - 0) / 10 ^ 9 * (1 + 1 / 2 ^ 53) ^ 4
       + 3 * f64_of_u64 1000 / 2 ^ 53 * of_nat (length [(from_secs 1, V4 1), (from_secs 2, V4 2)])"
proof -
  have e: "rl_enabled default_rate_limit_section" "rl_global_burst default_rate_limit_section = 1000"
    "rl_global_rate_per_sec default_rate_limit_section = 500"
    by (simp_all add: default_rate_limit_section_def default_global_burst_def default_global_rate_per_sec_def)
  obtain rl where rl: "from_config (list_lru :: (source_key, token_bucket) list_cache key_lru)
      default_rate_limit_section 0 = Some rl"
    using e(1) by (simp add: from_config_def with_clock_def default_rate_limit_section_def
        default_tracked_sources_capacity_def Let_def)
  show ?thesis
    using rl untracked_traffic_bounded [OF list_keys.key_tracker_axioms e(1) rl,
        of "from_secs 2" "[(from_secs 1, V4 1), (from_secs 2, V4 2)]"] e(2,3)
    by (auto simp: from_secs_def)
qed

text \<open>
  C38. A flood cannot displace a source that is on its way to promotion: a candidate seen less
  than 60 seconds ago keeps its count and time stamp through every history of packets from
  other sources, however many distinct addresses they use.
\<close>

theorem flood_keeps_candidate:
  assumes "key_tracker ops I" and "lim_inner rl = Some inner" and "limiter_inv ops I (lim_config rl) inner"
    and "in_clock inner = SystemClock" and "map_of (in_candidates inner) k = Some (n, t)"
    and "list_all (\<lambda>(s, ip). key_from_ip ip (rl_ipv6_prefix_len (lim_config rl)) \<noteq> k \<and>
           s < t + CANDIDATE_TTL) es"
  shows "\<exists>inner'. lim_inner (snd (run_checks ops es rl)) = Some inner' \<and>
    map_of (in_candidates inner') k = Some (n, t)"
  using key_tracker.run_checks_keeps_candidate [OF assms] .

theorem flood_keeps_candidate_witness:
  "\<exists>inner'. lim_inner (snd (run_checks list_lru [(from_secs 11, V4 1), (from_secs 12, V4 2),
       (from_secs 69, V4 3)] sample_limiter)) = Some inner' \<and>
     map_of (in_candidates inner') (key_from_ip sample_ip 64) = Some (1, from_secs 10)"
  by (rule flood_keeps_candidate [OF list_keys.key_tracker_axioms sample_limiter_inner sample_limiter_inv])
    (simp_all add: sample_inner_def sample_limiter_def sample_ip_def CANDIDATE_TTL_def from_secs_def
      key_from_ip_def key_from_ipv4_def v4_octets_inject)

text \<open>
  Dropped traffic does not count towards promotion: a packet that is dropped leaves the
  candidate map as it was.
\<close>

theorem dropped_not_counted:
  assumes "key_tracker ops I" and "lim_inner rl = Some inner" and "limiter_inv ops I (lim_config rl) inner"
    and "check ops sys_reset sys ip rl = (Drop reason, rl')"
  shows "\<exists>inner'. lim_inner rl' = Some inner' \<and> in_candidates inner' = in_candidates inner"
  using key_tracker.check_step [OF assms] by auto

theorem dropped_not_counted_witness:
  "\<exists>rl' inner'. check list_lru 0 0 (V4 1) empty_limiter = (Drop GlobalExhausted, rl') \<and>
     lim_inner rl' = Some inner' \<and> in_candidates inner' = [(key_from_ip sample_ip 64, 1, from_secs 10)]"
proof -
  have inner: "lim_inner empty_limiter = Some (sample_inner\<lparr>in_global := bucket_new 0 0 0\<rparr>)"
    and cfg: "lim_config empty_limiter = lim_config sample_limiter"
    by (simp_all add: empty_limiter_def)
  have inv: "limiter_inv list_lru list_cache_inv (lim_config empty_limiter)
      (sample_inner\<lparr>in_global := bucket_new 0 0 0\<rparr>)"
    using sample_limiter_inv by (simp add: cfg limiter_inv_def limiter_shape_def bucket_new_inv)
  have b: "bucket_consume 0 (bucket_new 0 0 0) = (BucketDrop, bucket_new 0 0 0)"
    by (simp add: bucket_consume_def bucket_refill_def bucket_new_def checked_duration_since_def
        f64_of_u64_def as_secs_f64_def f64_add_def f64_mul_def f64_div_def as_secs_def subsec_nanos_def)
  obtain rl' where r: "check list_lru 0 0 (V4 1) empty_limiter = (Drop GlobalExhausted, rl')"
    by (simp add: check_def inner lock_recovering_def sample_inner_def list_lru_def clock_now_def
        check_global_def b should_warn_log_def Let_def split: prod.splits)
  show ?thesis
    using r dropped_not_counted [OF list_keys.key_tracker_axioms inner inv r]
    by (simp add: sample_inner_def)
qed

text \<open>
  C39. Memory is bounded, and a poisoned mutex is recovered from: construction establishes
  \<open>limiter_ok\<close>, which says nothing about the contents of a poisoned limiter; from such a
  limiter, after at least one packet, the mutex is healthy and the tracked map and the
  candidate map hold at most \<open>tracked_sources_capacity\<close> entries each.
\<close>

theorem limiter_memory_bounded:
  assumes "key_tracker ops I"
  shows "(from_config ops config start = Some rl0 \<longrightarrow> limiter_ok ops I rl0) \<and>
    (limiter_ok ops I rl \<and> lim_inner (snd (run_checks ops (e # es) rl)) = Some inner \<longrightarrow>
       \<not> in_poisoned inner \<and>
       length (lru_iter ops (in_tracked inner)) \<le> rl_tracked_sources_capacity (lim_config rl) \<and>
       length (in_candidates inner) \<le> rl_tracked_sources_capacity (lim_config rl))"
proof (intro conjI impI)
  assume "from_config ops config start = Some rl0"
  then show "limiter_ok ops I rl0"
    using key_tracker.with_clock_ok [OF assms] by (auto simp: from_config_def)
next
  assume "limiter_ok ops I rl \<and> lim_inner (snd (run_checks ops (e # es) rl)) = Some inner"
  then have "limiter_inv ops I (lim_config rl) inner"
    using key_tracker.run_checks_ok [OF assms, of rl "e # es" inner] by blast
  then show "\<not> in_poisoned inner"
    "length (lru_iter ops (in_tracked inner)) \<le> rl_tracked_sources_capacity (lim_config rl)"
    "length (in_candidates inner) \<le> rl_tracked_sources_capacity (lim_config rl)"
    using lru_cache.iter_bounded [OF key_tracker.axioms [OF assms], of "in_tracked inner"]
    by (simp_all add: limiter_inv_def limiter_shape_def)
qed

theorem limiter_memory_bounded_witness:
  "limiter_ok list_lru list_cache_inv (sample_limiter\<lparr>lim_inner := Some (sample_inner\<lparr>in_poisoned := True\<rparr>)\<rparr>) \<and>
   (\<exists>inner. lim_inner (snd (run_checks list_lru [(from_secs 11, V4 1)]
       (sample_limiter\<lparr>lim_inner := Some (sample_inner\<lparr>in_poisoned := True\<rparr>)\<rparr>))) = Some inner \<and>
      \<not> in_poisoned inner \<and> length (in_candidates inner) \<le> 2)"
proof -
  define rl where "rl = sample_limiter\<lparr>lim_inner := Some (sample_inner\<lparr>in_poisoned := True\<rparr>)\<rparr>"
  have ok: "limiter_ok list_lru list_cache_inv rl"
    using sample_limiter_inv by (simp add: rl_def limiter_ok_def limiter_inv_def limiter_shape_def)
  obtain inner where i: "lim_inner (snd (run_checks list_lru [(from_secs 11, V4 1)] rl)) = Some inner"
    using check_enabled [of rl _ list_lru] by (fastforce simp: rl_def case_prod_beta Let_def)
  show ?thesis
    using ok i limiter_memory_bounded [OF list_keys.key_tracker_axioms, where rl = rl and
        e = "(from_secs 11, V4 1)" and es = "[]" and inner = inner]
    unfolding rl_def by (simp add: sample_limiter_def sample_rl_config_def)
qed

text \<open>
  A source that keeps sending is promoted: for an untracked source with \<open>n\<close> packets
  counted, a packet that passes makes the count \<open>n + 1\<close>, or, when that reaches the
  threshold, removes it from the candidates and gives it a full bucket of its own.
\<close>

theorem counted_source_promoted:
  assumes "key_tracker ops I" and "lim_inner rl = Some inner" and "limiter_inv ops I (lim_config rl) inner"
    and "check ops sys_reset sys ip rl = (Pass, rl')"
    and "key = key_from_ip ip (rl_ipv6_prefix_len (lim_config rl))"
    and "now = clock_now sys (in_clock inner)"
    and "map_of (in_candidates inner) key = Some (n, t)"
  shows "\<exists>inner'. lim_inner rl' = Some inner' \<and>
    (if unat (rl_promotion_threshold (lim_config rl)) \<le> unat n + 1
     then map_of (in_candidates inner') key = None \<and>
       map_of (lru_iter ops (in_tracked inner')) key =
         Some (bucket_new (rl_per_source_rate_per_sec (lim_config rl))
           (rl_per_source_burst (lim_config rl)) now)
     else map_of (in_candidates inner') key = Some (n + 1, now) \<and> unat (n + 1) = unat n + 1)"
  using key_tracker.check_counts [OF assms] .

theorem counted_source_promoted_witness:
  "\<exists>rl' inner'. check list_lru 0 (from_secs 12) sample_ip sample_limiter = (Pass, rl') \<and>
     lim_inner rl' = Some inner' \<and>
     map_of (lru_iter list_lru (in_tracked inner')) (key_from_ip sample_ip 64) =
       Some (bucket_new 10 20 (from_secs 12))"
proof -
  have cfg: "rl_ipv6_prefix_len (lim_config sample_limiter) = 64"
    "rl_promotion_threshold (lim_config sample_limiter) = 2"
    "rl_per_source_rate_per_sec (lim_config sample_limiter) = 10"
    "rl_per_source_burst (lim_config sample_limiter) = 20"
    by (simp_all add: sample_limiter_def sample_rl_config_def default_rate_limit_section_def
        default_ipv6_prefix_len_def default_per_source_rate_per_sec_def default_per_source_burst_def)
  have "1 \<le> f64_of_u64 500" "1 \<le> f64_of_u64 1000"
    by (rule f64_of_u64_ge_1; simp)+
  then have "fst (bucket_consume (from_secs 12) (in_global sample_inner)) = BucketPass"
    using bucket_pass_after [of "in_global sample_inner" "from_secs 12"] bucket_new_inv
    by (simp add: sample_inner_def bucket_new_def from_secs_def)
  then obtain g where g: "bucket_consume (from_secs 12) (in_global sample_inner) = (BucketPass, g)"
    by (cases "bucket_consume (from_secs 12) (in_global sample_inner)") auto
  have "lru_get_mut list_lru (in_tracked sample_inner) k = None" for k
    by (simp add: sample_inner_def list_lru_def)
  then have "fst (check list_lru 0 (from_secs 12) sample_ip sample_limiter) = Pass"
    using g by (simp add: check_def sample_limiter_inner lock_recovering_def check_global_def clock_now_def
        sample_inner_def Let_def split: prod.splits option.splits)
  then obtain rl' where r: "check list_lru 0 (from_secs 12) sample_ip sample_limiter = (Pass, rl')"
    by (cases "check list_lru 0 (from_secs 12) sample_ip sample_limiter") auto
  have m: "map_of (in_candidates sample_inner) (key_from_ip sample_ip 64) = Some (1, from_secs 10)"
    by (simp add: sample_inner_def)
  show ?thesis
    using r counted_source_promoted [OF list_keys.key_tracker_axioms sample_limiter_inner sample_limiter_inv r,
        of "key_from_ip sample_ip 64" "from_secs 12" 1 "from_secs 10"] m
    by (auto simp: cfg sample_inner_def clock_now_def)
qed

end
