(* ===== verification/Firewall.thy ===== *)
theory Firewall
  imports Proto_Types
begin

text \<open>
  The firewall abstraction (\<open>fwknox-firewall/src/rule.rs\<close>, \<open>error.rs\<close>, \<open>backend.rs\<close>) and its
  in-memory implementation (\<open>mock.rs\<close>). The trait is a record of operations on a state;
  the locale \<open>firewall_contract\<close> is what the daemon relies on, stated over the set of
  (source, port) pairs a backend lets through.
\<close>

subsection \<open>Rules, errors and the trait\<close>

record access_rule =
  ar_source_ip :: ip_addr
  ar_ports :: "port_proto list"
  ar_timeout :: duration
  ar_comment :: string

datatype rule_handle = RuleHandle (handle_str: string)

datatype firewall_error =
    Backend string
  | RuleNotFound string
  | InconsistentState string
  | Unsupported string

record 'f firewall_ops =
  fw_init :: "'f \<Rightarrow> (firewall_error + unit) \<times> 'f"
  fw_open_access :: "access_rule \<Rightarrow> 'f \<Rightarrow> (firewall_error + rule_handle) \<times> 'f"
  fw_remove_rule :: "rule_handle \<Rightarrow> 'f \<Rightarrow> (firewall_error + unit) \<times> 'f"
  fw_flush :: "'f \<Rightarrow> (firewall_error + unit) \<times> 'f"

definition rule_pairs :: "access_rule \<Rightarrow> (ip_addr \<times> port_proto) set" where
  "rule_pairs rule = {(ar_source_ip rule, pp) |pp. pp \<in> set (ar_ports rule)}"

locale firewall_contract =
  fixes fw :: "'f firewall_ops" and ok :: "'f \<Rightarrow> bool" and ready :: "'f \<Rightarrow> bool"
    and lets_through :: "'f \<Rightarrow> (ip_addr \<times> port_proto) set"
  assumes init_ok: "ok f \<Longrightarrow> fw_init fw f = (r, f') \<Longrightarrow> ok f' \<and> lets_through f' \<subseteq> lets_through f"
    and init_ready: "ok f \<Longrightarrow> fw_init fw f = (Ok u, f') \<Longrightarrow> ready f'"
    and open_Ok: "ok f \<Longrightarrow> fw_open_access fw rule f = (Ok h, f') \<Longrightarrow>
      ready f \<and> ok f' \<and> ready f' \<and> rule_pairs rule \<subseteq> lets_through f' \<and>
      lets_through f' \<subseteq> lets_through f \<union> rule_pairs rule"
    and open_Err: "ok f \<Longrightarrow> fw_open_access fw rule f = (Err e, f') \<Longrightarrow>
      ok f' \<and> (ready f' \<longleftrightarrow> ready f) \<and> lets_through f' = lets_through f"
    and open_not_ready: "ok f \<Longrightarrow> \<not> ready f \<Longrightarrow> fw_open_access fw rule f =
      (Err (InconsistentState ''open_access called before init''), f)"
    and remove_ok: "ok f \<Longrightarrow> fw_remove_rule fw h f = (r, f') \<Longrightarrow>
      ok f' \<and> (ready f' \<longleftrightarrow> ready f) \<and> lets_through f' \<subseteq> lets_through f"
    and flush_Ok: "ok f \<Longrightarrow> fw_flush fw f = (r, f') \<Longrightarrow>
      r = Ok () \<and> ok f' \<and> \<not> ready f' \<and> lets_through f' \<subseteq> lets_through f"
begin

text \<open>Opening never lets through more than the rule's own pairs.\<close>

lemma open_adds_only:
  assumes "ok f" "fw_open_access fw rule f = (r, f')"
  shows "lets_through f' \<subseteq> lets_through f \<union> rule_pairs rule"
  using assms open_Ok [of f rule _ f'] open_Err [of f rule _ f'] by (cases r) auto

end

subsection \<open>The mock backend\<close>

record mock_state =
  mk_initialized :: bool
  mk_next_id :: u64
  mk_rules :: "string \<rightharpoonup> access_rule"

definition mock_default :: mock_state where
  "mock_default = \<lparr>mk_initialized = False, mk_next_id = 0, mk_rules = Map.empty\<rparr>"

definition mock_is_initialized :: "mock_state \<Rightarrow> bool" where
  "mock_is_initialized s = mk_initialized s"

definition mock_installed_rules :: "mock_state \<Rightarrow> string \<rightharpoonup> access_rule" where
  "mock_installed_rules s = mk_rules s"

definition mock_init :: "mock_state \<Rightarrow> (firewall_error + unit) \<times> mock_state" where
  "mock_init s = (Ok (), s\<lparr>mk_initialized := True\<rparr>)"

definition mock_open_access :: "access_rule \<Rightarrow> mock_state \<Rightarrow> (firewall_error + rule_handle) \<times> mock_state" where
  "mock_open_access rule s =
     (if \<not> mk_initialized s then (Err (InconsistentState ''open_access called before init''), s)
      else
        let hid = ''mock-'' @ dec_string (unat (mk_next_id s)) in
        (Ok (RuleHandle hid),
         s\<lparr>mk_next_id := mk_next_id s + 1, mk_rules := (mk_rules s)(hid \<mapsto> rule)\<rparr>))"

definition mock_remove_rule :: "rule_handle \<Rightarrow> mock_state \<Rightarrow> (firewall_error + unit) \<times> mock_state" where
  "mock_remove_rule h s =
     (if mk_rules s (handle_str h) = None then (Err (RuleNotFound (handle_str h)), s)
      else (Ok (), s\<lparr>mk_rules := (mk_rules s)(handle_str h := None)\<rparr>))"

definition mock_flush :: "mock_state \<Rightarrow> (firewall_error + unit) \<times> mock_state" where
  "mock_flush s = (Ok (), s\<lparr>mk_rules := Map.empty, mk_initialized := False\<rparr>)"

definition mock_backend :: "mock_state firewall_ops" where
  "mock_backend = \<lparr>fw_init = mock_init, fw_open_access = mock_open_access,
     fw_remove_rule = mock_remove_rule, fw_flush = mock_flush\<rparr>"

subsection \<open>The mock meets the contract\<close>

definition mock_lets_through :: "mock_state \<Rightarrow> (ip_addr \<times> port_proto) set" where
  "mock_lets_through s = (\<Union>rule \<in> ran (mk_rules s). rule_pairs rule)"

lemma ran_upd_subset: "ran (m(k \<mapsto> v)) \<subseteq> insert v (ran m)" "v \<in> ran (m(k \<mapsto> v))"
  "ran (m(k := None)) \<subseteq> ran m"
  by (auto simp: ran_def split: if_splits)

interpretation mock: firewall_contract mock_backend "\<lambda>_. True" mk_initialized mock_lets_through
proof (unfold_locales, goal_cases)
  case (3 f rule h f')
  have m: "mk_rules f' = (mk_rules f)(''mock-'' @ dec_string (unat (mk_next_id f)) \<mapsto> rule)"
    and i: "mk_initialized f" "mk_initialized f'"
    using 3 by (auto simp: mock_backend_def mock_open_access_def Let_def split: if_splits)
  have "ran (mk_rules f') \<subseteq> insert rule (ran (mk_rules f))" "rule \<in> ran (mk_rules f')"
    unfolding m by (rule ran_upd_subset)+
  then show ?case
    using i unfolding mock_lets_through_def by blast
next
  case (6 f h r f')
  then show ?case
    using ran_upd_subset(3) [of "mk_rules f" "handle_str h"]
    by (auto simp: mock_backend_def mock_remove_rule_def mock_lets_through_def split: if_splits)
qed (auto simp: mock_backend_def mock_init_def mock_open_access_def mock_flush_def mock_lets_through_def
    Let_def split: if_splits)

end
