(* ===== verification/Nftables.thy ===== *)
theory Nftables
  imports Firewall
begin

text \<open>
  The nftables backend (\<open>fwknox-firewall/src/nftables.rs\<close>): building rulesets, handles, error
  classification. The \<open>nftables\<close> crate's schema appears as the datatypes below, with the
  constructors the backend uses; applying a ruleset and listing the current one are
  parameters that act on a kernel state of any type. The locale \<open>nft_kernel\<close> states the
  documented behaviour of a transaction on the allow set; a reference kernel implements it.
\<close>

subsection \<open>Schema of the nftables crate\<close>

datatype nf_family = INet

datatype expression =
    EString string
  | ENumber u32
  | EConcat "expression list"
  | EElem expression "u32 option"
  | EPayload string string
  | EMetaL4proto

datatype set_type = Ipv4Addr | InetProto | InetService
datatype set_flag = TimeoutFlag | ConstantFlag
datatype chain_type = FilterChain
datatype nf_hook = InputHook
datatype chain_policy = AcceptPolicy
datatype match_operator = OpIn
datatype stmt = Match expression expression match_operator | Accept

datatype nf_list_object =
    NfTable nf_family string
  | NfSet nf_family string string "set_type list" "set_flag list" "expression list option"
  | NfChain nf_family string string chain_type nf_hook int chain_policy
  | NfRule nf_family string string "stmt list"
  | NfElement nf_family string string "expression list"

datatype nf_object = ListObject nf_list_object | CmdAdd nf_list_object | CmdDelete nf_list_object

type_synonym nft_ruleset = "nf_object list"

datatype nftables_error = NftFailed path string string string | NftOther string

text \<open>\<open>Batch::add\<close> and \<open>Batch::delete\<close>.\<close>

definition batch_add :: "nf_list_object \<Rightarrow> nft_ruleset \<Rightarrow> nft_ruleset" where
  "batch_add obj b = b @ [CmdAdd obj]"

definition batch_delete :: "nf_list_object \<Rightarrow> nft_ruleset \<Rightarrow> nft_ruleset" where
  "batch_delete obj b = b @ [CmdDelete obj]"

subsection \<open>Appliers\<close>

definition TABLE_NAME :: string where "TABLE_NAME = ''fwknox''"
definition SET_NAME :: string where "SET_NAME = ''fwknox_allow_v4''"
definition CHAIN_NAME :: string where "CHAIN_NAME = ''input''"

record 'k ruleset_applier =
  ap_apply :: "nft_ruleset \<Rightarrow> 'k \<Rightarrow> (firewall_error + unit) \<times> 'k"
  ap_get_current :: "'k \<Rightarrow> firewall_error + nft_ruleset"

definition default_get_current :: "'k \<Rightarrow> firewall_error + nft_ruleset" where
  "default_get_current k = Err (Unsupported ''get_current not implemented for this applier'')"

text \<open>
  The \<open>{:?}\<close> form of a string: quoted, with quotes, backslashes and control characters
  escaped. Bytes of non-ASCII characters are printed as they are.
\<close>

definition escape_debug :: "char \<Rightarrow> string" where
  "escape_debug c =
     (let n = code c in
      if c = CHR 0x22 then [CHR 0x5C, CHR 0x22]
      else if c = CHR 0x5C then [CHR 0x5C, CHR 0x5C]
      else if n = 10 then [CHR 0x5C, CHR ''n'']
      else if n = 13 then [CHR 0x5C, CHR ''r'']
      else if n = 9 then [CHR 0x5C, CHR ''t'']
      else if n = 0 then [CHR 0x5C, CHR ''0'']
      else if n < 32 \<or> n = 127 then
        let hex = (\<lambda>d. if d < 10 then char_of (48 + d) else char_of (87 + d)) in
        [CHR 0x5C, CHR ''u'', CHR 0x7B] @
        (if n < 16 then [hex n] else [hex (n div 16), hex (n mod 16)]) @ [CHR 0x7D]
      else [c])"

definition debug_string :: "string \<Rightarrow> string" where
  "debug_string s = [CHR 0x22] @ concat (map escape_debug s) @ [CHR 0x22]"

definition nftables_error_to_firewall :: "nftables_error \<Rightarrow> firewall_error" where
  "nftables_error_to_firewall err =
     (case err of
        NftFailed program hint stdout stderr \<Rightarrow>
          Backend (program @ '' failed while '' @ hint @ '': stdout='' @ debug_string stdout @
                   '' stderr='' @ debug_string stderr)
      | NftOther msg \<Rightarrow> Backend msg)"

record 'k nft_helper =
  nh_apply_ruleset :: "nft_ruleset \<Rightarrow> 'k \<Rightarrow> (nftables_error + unit) \<times> 'k"
  nh_get_current_ruleset :: "'k \<Rightarrow> nftables_error + nft_ruleset"

definition system_applier :: "'k nft_helper \<Rightarrow> 'k ruleset_applier" where
  "system_applier H =
     \<lparr>ap_apply = (\<lambda>rs k. let (r, k') = nh_apply_ruleset H rs k in (map_err nftables_error_to_firewall r, k')),
      ap_get_current = (\<lambda>k. map_err nftables_error_to_firewall (nh_get_current_ruleset H k))\<rparr>"

subsection \<open>Error classification\<close>

definition stderr_indicates_missing_element :: "string \<Rightarrow> bool" where
  "stderr_indicates_missing_element stderr =
     (let lower = to_ascii_lowercase stderr in
      contains_str lower ''no such file or directory'' \<or>
      contains_str lower ''could not process rule'' \<or>
      contains_str lower ''set element does not exist'')"

definition backend_has_empty_stderr :: "string \<Rightarrow> bool" where
  "backend_has_empty_stderr msg = contains_str msg (''stderr='' @ [CHR 0x22, CHR 0x22])"

definition handle_target :: "string \<Rightarrow> (string \<times> string \<times> u32) option" where
  "handle_target entry =
     (case split_char (CHR ''/'') entry of
        [ip, proto, port] \<Rightarrow> map_option (\<lambda>p. (ip, proto, of_nat p)) (parse_uint (2 ^ 32 - 1) port)
      | _ \<Rightarrow> None)"

definition element_present :: "(string \<times> string \<times> u32) list \<Rightarrow> expression \<Rightarrow> bool" where
  "element_present targets e =
     (case e of
        EConcat [EString ip, EString proto, ENumber port] \<Rightarrow> (ip, proto, port) \<in> set targets
      | _ \<Rightarrow> False)"

definition object_present :: "(string \<times> string \<times> u32) list \<Rightarrow> nf_object \<Rightarrow> bool" where
  "object_present targets obj =
     (case obj of
        ListObject (NfSet _ _ name _ _ (Some elems)) \<Rightarrow>
          name = SET_NAME \<and> list_ex (element_present targets) elems
      | _ \<Rightarrow> False)"

definition handle_has_present_elements :: "rule_handle \<Rightarrow> nft_ruleset \<Rightarrow> bool" where
  "handle_has_present_elements h ruleset =
     (let targets = List.map_filter handle_target (split_char (CHR '','') (handle_str h)) in
      if targets = [] then True else list_ex (object_present targets) ruleset)"

subsection \<open>The backend\<close>

record 'k nft_backend =
  nb_kernel :: 'k
  nb_initialized :: bool

definition nft_with_applier :: "'k \<Rightarrow> 'k nft_backend" where
  "nft_with_applier k = \<lparr>nb_kernel = k, nb_initialized = False\<rparr>"

definition assert_initialized :: "string \<Rightarrow> 'k nft_backend \<Rightarrow> firewall_error + unit" where
  "assert_initialized op b =
     (if \<not> nb_initialized b then Err (InconsistentState (op @ '' called before init'')) else Ok ())"

definition init_ruleset :: nft_ruleset where
  "init_ruleset =
     batch_add (NfRule INet TABLE_NAME CHAIN_NAME
       [Match (EConcat [EPayload ''ip'' ''saddr'', EMetaL4proto, EPayload ''th'' ''dport''])
          (EString (''@'' @ SET_NAME)) OpIn,
        Accept])
     (batch_add (NfChain INet TABLE_NAME CHAIN_NAME FilterChain InputHook 0 AcceptPolicy)
     (batch_add (NfSet INet TABLE_NAME SET_NAME [Ipv4Addr, InetProto, InetService] [TimeoutFlag] None)
     (batch_add (NfTable INet TABLE_NAME) [])))"

definition nft_init :: "'k ruleset_applier \<Rightarrow> 'k nft_backend \<Rightarrow> (firewall_error + unit) \<times> 'k nft_backend" where
  "nft_init A b =
     (case ap_apply A init_ruleset (nb_kernel b) of
        (Err e, k) \<Rightarrow> (Err e, b\<lparr>nb_kernel := k\<rparr>)
      | (Ok _, k) \<Rightarrow> (Ok (), b\<lparr>nb_kernel := k, nb_initialized := True\<rparr>))"

definition element_key :: "u32 \<Rightarrow> port_proto \<Rightarrow> string \<times> string \<times> u32" where
  "element_key v4 pp = (ipv4_string v4, protocol_string (pp_proto pp), ucast (pp_port pp))"

definition concat_expr :: "string \<times> string \<times> u32 \<Rightarrow> expression" where
  "concat_expr e = EConcat [EString (fst e), EString (fst (snd e)), ENumber (snd (snd e))]"

definition open_ruleset :: "u32 \<Rightarrow> u32 \<Rightarrow> port_proto list \<Rightarrow> nft_ruleset" where
  "open_ruleset v4 timeout_secs ports =
     foldl (\<lambda>b pp. batch_add (NfElement INet TABLE_NAME SET_NAME
              [EElem (concat_expr (element_key v4 pp)) (Some timeout_secs)]) b) [] ports"

definition handle_part :: "u32 \<Rightarrow> port_proto \<Rightarrow> string" where
  "handle_part v4 pp =
     ipv4_string v4 @ ''/'' @ protocol_string (pp_proto pp) @ ''/'' @ dec_string (unat (pp_port pp))"

definition nft_open_access ::
  "'k ruleset_applier \<Rightarrow> access_rule \<Rightarrow> 'k nft_backend \<Rightarrow> (firewall_error + rule_handle) \<times> 'k nft_backend" where
  "nft_open_access A rule b =
     (case assert_initialized ''open_access'' b of
        Err e \<Rightarrow> (Err e, b)
      | Ok _ \<Rightarrow>
          (case ar_source_ip rule of
             V6 _ \<Rightarrow> (Err (Unsupported
                ''IPv6 source addresses (Phase 2 nftables backend is IPv4-only)''), b)
           | V4 v4 \<Rightarrow>
               let secs = as_secs (ar_timeout rule);
                   timeout_secs = (if secs < 2 ^ 32 then of_nat secs else - 1 :: u32) in
               (case ap_apply A (open_ruleset v4 timeout_secs (ar_ports rule)) (nb_kernel b) of
                  (Err e, k) \<Rightarrow> (Err e, b\<lparr>nb_kernel := k\<rparr>)
                | (Ok _, k) \<Rightarrow>
                    (Ok (RuleHandle (join (CHR '','') (map (handle_part v4) (ar_ports rule)))),
                     b\<lparr>nb_kernel := k\<rparr>))))"

fun remove_ruleset :: "rule_handle \<Rightarrow> string list \<Rightarrow> nft_ruleset \<Rightarrow> firewall_error + nft_ruleset" where
  "remove_ruleset h [] b = Ok b"
| "remove_ruleset h (entry # rest) b =
     (case split_char (CHR ''/'') entry of
        [ip, proto, port_str] \<Rightarrow>
          and_then (ok_or (parse_uint 65535 port_str) (RuleNotFound (handle_str h))) (\<lambda>port.
            remove_ruleset h rest
              (batch_delete (NfElement INet TABLE_NAME SET_NAME
                 [EConcat [EString ip, EString proto, ENumber (of_nat port)]]) b))
      | _ \<Rightarrow> Err (RuleNotFound (handle_str h)))"

definition nft_remove_rule ::
  "'k ruleset_applier \<Rightarrow> rule_handle \<Rightarrow> 'k nft_backend \<Rightarrow> (firewall_error + unit) \<times> 'k nft_backend" where
  "nft_remove_rule A h b =
     (case and_then (assert_initialized ''remove_rule'' b) (\<lambda>_.
             remove_ruleset h (split_char (CHR '','') (handle_str h)) []) of
        Err e \<Rightarrow> (Err e, b)
      | Ok ruleset \<Rightarrow>
          let (r, k) = ap_apply A ruleset (nb_kernel b); b = b\<lparr>nb_kernel := k\<rparr> in
          (case r of
             Ok _ \<Rightarrow> (Ok (), b)
           | Err (Backend msg) \<Rightarrow>
               if stderr_indicates_missing_element msg then (Err (RuleNotFound (handle_str h)), b)
               else if backend_has_empty_stderr msg then
                 (case ap_get_current A k of
                    Ok rs \<Rightarrow>
                      if \<not> handle_has_present_elements h rs
                      then (Err (RuleNotFound (handle_str h)), b) else (Err (Backend msg), b)
                  | Err _ \<Rightarrow> (Err (Backend msg), b))
               else (Err (Backend msg), b)
           | Err e \<Rightarrow> (Err e, b)))"

definition flush_ruleset :: nft_ruleset where
  "flush_ruleset = batch_delete (NfTable INet TABLE_NAME) []"

definition nft_flush :: "'k ruleset_applier \<Rightarrow> 'k nft_backend \<Rightarrow> (firewall_error + unit) \<times> 'k nft_backend" where
  "nft_flush A b =
     (let (_, k) = ap_apply A flush_ruleset (nb_kernel b) in
      (Ok (), b\<lparr>nb_kernel := k, nb_initialized := False\<rparr>))"

definition nft_backend_ops :: "'k ruleset_applier \<Rightarrow> 'k nft_backend firewall_ops" where
  "nft_backend_ops A = \<lparr>fw_init = nft_init A, fw_open_access = nft_open_access A,
     fw_remove_rule = nft_remove_rule A, fw_flush = nft_flush A\<rparr>"

subsection \<open>Kernels\<close>

definition add_element :: "u32 \<Rightarrow> string \<times> string \<times> u32 \<Rightarrow> nf_object" where
  "add_element t e = CmdAdd (NfElement INet TABLE_NAME SET_NAME [EElem (concat_expr e) (Some t)])"

definition delete_element :: "string \<times> string \<times> u32 \<Rightarrow> nf_object" where
  "delete_element e = CmdDelete (NfElement INet TABLE_NAME SET_NAME [concat_expr e])"

text \<open>
  The elements of the allow set, and what transactions do to them: a failed transaction
  changes nothing; creating what exists keeps the elements; additions add and deletions
  remove exactly their elements, the latter only if all were there; deleting the table
  deletes its elements.
\<close>

locale nft_kernel =
  fixes A :: "'k ruleset_applier" and elems :: "'k \<Rightarrow> (string \<times> string \<times> u32) set"
  assumes apply_Err: "ap_apply A rs k = (Err e, k') \<Longrightarrow> elems k' = elems k"
    and apply_init: "ap_apply A init_ruleset k = (Ok u, k') \<Longrightarrow> elems k' \<subseteq> elems k"
    and apply_add: "ap_apply A (map (add_element t) es) k = (Ok u, k') \<Longrightarrow> elems k' = elems k \<union> set es"
    and apply_delete: "ap_apply A (map delete_element es) k = (Ok u, k') \<Longrightarrow>
      set es \<subseteq> elems k \<and> elems k' = elems k - set es"
    and apply_flush: "ap_apply A flush_ruleset k = (Ok u, k') \<Longrightarrow> elems k' = {}"

text \<open>A reference kernel: whether the table exists, and its elements with their timeouts.\<close>

record ref_kernel =
  rk_table :: bool
  rk_elems :: "((string \<times> string \<times> u32) \<times> u32 option) list"

fun ref_command :: "nf_object \<Rightarrow> ref_kernel \<Rightarrow> ref_kernel option" where
  "ref_command (CmdAdd (NfElement _ _ _ [EElem (EConcat [EString ip, EString proto, ENumber port]) t])) k =
     (if rk_table k then Some (k\<lparr>rk_elems := AList.update (ip, proto, port) t (rk_elems k)\<rparr>) else None)"
| "ref_command (CmdDelete (NfElement _ _ _ [EConcat [EString ip, EString proto, ENumber port]])) k =
     (if (ip, proto, port) \<in> fst ` set (rk_elems k)
      then Some (k\<lparr>rk_elems := AList.delete (ip, proto, port) (rk_elems k)\<rparr>) else None)"
| "ref_command (CmdAdd (NfTable _ _)) k = Some (k\<lparr>rk_table := True\<rparr>)"
| "ref_command (CmdDelete (NfTable _ _)) k =
     (if rk_table k then Some \<lparr>rk_table = False, rk_elems = []\<rparr> else None)"
| "ref_command (CmdAdd (NfSet _ _ _ _ _ _)) k = Some k"
| "ref_command (CmdAdd (NfChain _ _ _ _ _ _ _)) k = Some k"
| "ref_command (CmdAdd (NfRule _ _ _ _)) k = Some k"
| "ref_command _ k = None"

fun ref_run :: "nft_ruleset \<Rightarrow> ref_kernel \<Rightarrow> ref_kernel option" where
  "ref_run [] k = Some k"
| "ref_run (c # cs) k = Option.bind (ref_command c k) (ref_run cs)"

definition ref_applier :: "ref_kernel ruleset_applier" where
  "ref_applier =
     \<lparr>ap_apply = (\<lambda>rs k. case ref_run rs k of
         Some k' \<Rightarrow> (Ok (), k')
       | None \<Rightarrow> (Err (Backend ''nft failed while applying: No such file or directory''), k)),
      ap_get_current = (\<lambda>k. Ok [ListObject (NfSet INet TABLE_NAME SET_NAME
         [Ipv4Addr, InetProto, InetService] [TimeoutFlag]
         (Some (map (\<lambda>(e, t). EElem (concat_expr e) t) (rk_elems k))))])\<rparr>"

definition ref_elems :: "ref_kernel \<Rightarrow> (string \<times> string \<times> u32) set" where
  "ref_elems k = fst ` set (rk_elems k)"

subsection \<open>A sample rule\<close>

definition sample_rule :: access_rule where
  "sample_rule = \<lparr>ar_source_ip = V4 0x0A000001, ar_ports = [port_proto_new Tcp 22, port_proto_new Udp 53],
     ar_timeout = from_secs 30, ar_comment = ''fwknox:alice:1000''\<rparr>"

definition sample_kernel :: "ref_kernel nft_backend" where
  "sample_kernel = \<lparr>nb_kernel = \<lparr>rk_table = True, rk_elems = []\<rparr>, nb_initialized = True\<rparr>"

subsection \<open>Lemmas\<close>

lemma keys_update: "fst ` set (AList.update k v al) = insert k (fst ` set al)"
  by (induction al) auto

lemma keys_delete: "fst ` set (AList.delete k al) = fst ` set al - {k}"
  by (auto simp: AList.delete_eq)

lemma ref_run_add:
  "ref_run (map (add_element t) es) k = Some k' \<Longrightarrow> ref_elems k' = ref_elems k \<union> set es"
  by (induction es arbitrary: k)
    (auto simp: add_element_def concat_expr_def ref_elems_def keys_update split: if_splits)

lemma ref_command_delete:
  "ref_command (delete_element (ip, proto, port)) k =
     (if (ip, proto, port) \<in> fst ` set (rk_elems k)
      then Some (k\<lparr>rk_elems := AList.delete (ip, proto, port) (rk_elems k)\<rparr>) else None)"
  by (simp add: delete_element_def concat_expr_def)

lemma ref_run_delete:
  "ref_run (map delete_element es) k = Some k' \<Longrightarrow> set es \<subseteq> ref_elems k \<and> ref_elems k' = ref_elems k - set es"
proof (induction es arbitrary: k)
  case (Cons e es)
  obtain ip proto port where e: "e = (ip, proto, port)" by (cases e)
  define k1 where "k1 = k\<lparr>rk_elems := AList.delete e (rk_elems k)\<rparr>"
  have "e \<in> ref_elems k" "ref_run (map delete_element es) k1 = Some k'"
    using Cons.prems by (auto simp: ref_command_delete ref_elems_def e k1_def split: if_splits)
  moreover have "ref_elems k1 = ref_elems k - {e}"
    by (simp add: k1_def ref_elems_def keys_delete)
  ultimately show ?case
    using Cons.IH [of k1] by auto
qed simp

interpretation ref_kernel: nft_kernel ref_applier ref_elems
  by unfold_locales
    (auto simp: ref_applier_def init_ruleset_def flush_ruleset_def batch_add_def batch_delete_def
      ref_elems_def [symmetric] split: option.splits if_splits dest: ref_run_add ref_run_delete,
     auto simp: ref_elems_def)

lemma open_ruleset_eq:
  "open_ruleset v4 t ports = map (\<lambda>pp. add_element t (element_key v4 pp)) ports"
proof -
  have "foldl (\<lambda>b pp. batch_add (NfElement INet TABLE_NAME SET_NAME
      [EElem (concat_expr (element_key v4 pp)) (Some t)]) b) acc ports =
      acc @ map (\<lambda>pp. add_element t (element_key v4 pp)) ports" for acc
    by (induction ports arbitrary: acc) (simp_all add: batch_add_def add_element_def)
  then show ?thesis by (simp add: open_ruleset_def)
qed

lemma handle_part_no_comma: "CHR '','' \<notin> set (handle_part v4 pp)"
  using ipv4_string_chars [of "CHR '',''" v4] protocol_string_no_sep
    digit_ne_sep [OF dec_string_digits, of "CHR '',''" "unat (pp_port pp)"]
  by (auto simp: handle_part_def is_ascii_digit_def code_def)

lemma split_handle_part:
  "split_char (CHR ''/'') (handle_part v4 pp) =
     [ipv4_string v4, protocol_string (pp_proto pp), dec_string (unat (pp_port pp))]"
proof -
  have "CHR ''/'' \<notin> set (ipv4_string v4)" "CHR ''/'' \<notin> set (dec_string (unat (pp_port pp)))"
    using ipv4_string_chars [of "CHR ''/''" v4] digit_ne_sep [OF dec_string_digits, of "CHR ''/''"]
    by (auto simp: is_ascii_digit_def code_def)
  then show ?thesis
    using protocol_string_no_sep [of "pp_proto pp"]
    by (simp add: handle_part_def split_char_append_sep split_char_nosep)
qed

lemma u16_to_u32: "of_nat (unat (p :: u16)) = (ucast p :: u32)"
  by simp

lemma parse_port: "parse_uint 65535 (dec_string (unat (p :: u16))) = Some (unat p)"
  using unsigned_less [of p, where ?'a = nat] by (intro parse_dec_string) simp

lemma remove_ruleset_parts:
  "remove_ruleset h (map (handle_part v4) ports) b =
     Ok (b @ map (\<lambda>pp. delete_element (element_key v4 pp)) ports)"
proof (induction ports arbitrary: b)
  case (Cons pp ports)
  then show ?case
    by (simp add: split_handle_part parse_port batch_delete_def delete_element_def concat_expr_def
        element_key_def u16_to_u32 del: of_nat_unat)
qed simp

lemma remove_ruleset_handle:
  assumes "ports \<noteq> []"
  shows "remove_ruleset h (split_char (CHR '','') (join (CHR '','') (map (handle_part v4) ports))) [] =
     Ok (map (\<lambda>pp. delete_element (element_key v4 pp)) ports)"
proof -
  have "split_char (CHR '','') (join (CHR '','') (map (handle_part v4) ports)) = map (handle_part v4) ports"
    using assms handle_part_no_comma by (intro split_char_join) auto
  then show ?thesis by (simp add: remove_ruleset_parts)
qed

lemma handle_target_part: "handle_target (handle_part v4 pp) = Some (element_key v4 pp)"
proof -
  have "unat (pp_port pp) < 2 ^ 32" using unsigned_less [of "pp_port pp", where ?'a = nat] by simp
  then show ?thesis
    by (simp add: handle_target_def split_handle_part parse_dec_string element_key_def u16_to_u32 del: of_nat_unat)
qed

lemma element_key_inject: "element_key v4 pp = element_key v4' pp' \<longleftrightarrow> v4 = v4' \<and> pp = pp'"
proof -
  have "ucast (ucast p :: u32) = p" for p :: u16
    by (rule bit_word_eqI) (auto simp: bit_simps)
  then have "(ucast (p :: u16) :: u32) = ucast q \<longleftrightarrow> p = q" for p q
    by metis
  then show ?thesis
    by (cases pp; cases pp') (auto simp: element_key_def ipv4_string_inject protocol_string_inject)
qed

subsection \<open>The backend meets the contract\<close>

definition nft_lets_through ::
  "('k \<Rightarrow> (string \<times> string \<times> u32) set) \<Rightarrow> 'k nft_backend \<Rightarrow> (ip_addr \<times> port_proto) set" where
  "nft_lets_through elems b = {(V4 a, pp) |a pp. element_key a pp \<in> elems (nb_kernel b)}"

lemma nft_lets_through_mono:
  "elems (nb_kernel b') \<subseteq> elems (nb_kernel b) \<Longrightarrow> nft_lets_through elems b' \<subseteq> nft_lets_through elems b"
  by (auto simp: nft_lets_through_def)

lemma nft_lets_through_add:
  assumes "elems (nb_kernel b') = elems (nb_kernel b) \<union> element_key v4 ` set (ar_ports rule)"
    and "ar_source_ip rule = V4 v4"
  shows "nft_lets_through elems b' = nft_lets_through elems b \<union> rule_pairs rule"
  using assms by (auto simp: nft_lets_through_def rule_pairs_def element_key_inject)

lemma batch_delete_element:
  "batch_delete (NfElement INet TABLE_NAME SET_NAME [EConcat [EString ip, EString proto, ENumber port]]) b =
     b @ [delete_element (ip, proto, port)]"
  by (simp add: batch_delete_def delete_element_def concat_expr_def)

context nft_kernel
begin

lemma nft_open_cases:
  assumes "nft_open_access A rule b = (r, b')"
  shows "nb_initialized b' = nb_initialized b \<and>
    (case r of
       Ok h \<Rightarrow> nb_initialized b \<and> nft_lets_through elems b' = nft_lets_through elems b \<union> rule_pairs rule
     | Err e \<Rightarrow> nft_lets_through elems b' = nft_lets_through elems b)"
proof (cases "nb_initialized b")
  case False
  then show ?thesis using assms by (auto simp: nft_open_access_def assert_initialized_def)
next
  case init: True
  show ?thesis
  proof (cases "ar_source_ip rule")
    case (V6 a)
    then show ?thesis using assms init by (auto simp: nft_open_access_def assert_initialized_def)
  next
    case (V4 v4)
    then obtain t where "(case ap_apply A (map (add_element t) (map (element_key v4) (ar_ports rule))) (nb_kernel b) of
        (Err e, k) \<Rightarrow> (Err e, b\<lparr>nb_kernel := k\<rparr>)
      | (Ok _, k) \<Rightarrow> (Ok (RuleHandle (join (CHR '','') (map (handle_part v4) (ar_ports rule)))),
                     b\<lparr>nb_kernel := k\<rparr>)) = (r, b')"
      using assms init
      by (auto simp: nft_open_access_def assert_initialized_def open_ruleset_eq o_def Let_def)
    moreover obtain r' k where a: "ap_apply A (map (add_element t) (map (element_key v4) (ar_ports rule)))
        (nb_kernel b) = (r', k)"
      by (cases "ap_apply A (map (add_element t) (map (element_key v4) (ar_ports rule))) (nb_kernel b)")
    ultimately show ?thesis
      using init apply_add [of t "map (element_key v4) (ar_ports rule)" "nb_kernel b" _ k] apply_Err [of _ "nb_kernel b" _ k]
        nft_lets_through_add [OF _ V4, of elems b' b]
      by (cases r') (auto simp: nft_lets_through_def)
  qed
qed

lemma remove_ruleset_deletes:
  "remove_ruleset h entries (map delete_element es) = Ok rs \<Longrightarrow> \<exists>es'. rs = map delete_element es'"
proof (induction entries arbitrary: es)
  case (Cons entry rest)
  obtain ip proto port_str port where "split_char (CHR ''/'') entry = [ip, proto, port_str]"
    "parse_uint 65535 port_str = Some port"
    "remove_ruleset h rest (map delete_element (es @ [(ip, proto, of_nat port)])) = Ok rs"
    using Cons.prems by (auto simp: batch_delete_element and_then_eq_Ok split: list.splits)
  then show ?case
    by (intro Cons.IH)
qed auto

lemma nft_remove_opened:
  assumes "nft_open_access A rule b = (Ok h, b1)" and "ar_ports rule \<noteq> []"
    and "nft_remove_rule A h b1 = (r, b2)"
  shows "\<exists>v4. ar_source_ip rule = V4 v4 \<and>
    (r = Ok () \<longleftrightarrow>
       fst (ap_apply A (map (\<lambda>pp. delete_element (element_key v4 pp)) (ar_ports rule)) (nb_kernel b1)) = Ok ()) \<and>
    nft_lets_through elems b2 =
      (if r = Ok () then nft_lets_through elems b1 - rule_pairs rule else nft_lets_through elems b1)"
proof -
  obtain v4 where v4: "ar_source_ip rule = V4 v4" and init: "nb_initialized b1"
    and h: "h = RuleHandle (join (CHR '','') (map (handle_part v4) (ar_ports rule)))"
    using assms(1) by (auto simp: nft_open_access_def assert_initialized_def Let_def
        split: ip_addr.splits sum.splits prod.splits if_splits)
  let ?es = "map (element_key v4) (ar_ports rule)"
  obtain r' k where a: "ap_apply A (map delete_element ?es) (nb_kernel b1) = (r', k)"
    by (cases "ap_apply A (map delete_element ?es) (nb_kernel b1)")
  have "remove_ruleset h (split_char (CHR '','') (handle_str h)) [] = Ok (map delete_element ?es)"
    unfolding h rule_handle.sel remove_ruleset_handle [OF assms(2)] by (simp add: o_def)
  then have "b2 = b1\<lparr>nb_kernel := k\<rparr> \<and> (r = Ok () \<longleftrightarrow> r' = Ok ())"
    using assms(3) a init
    by (auto simp: nft_remove_rule_def assert_initialized_def Let_def
        split: sum.splits firewall_error.splits if_splits)
  moreover have "elems k = (if r' = Ok () then elems (nb_kernel b1) - set ?es else elems (nb_kernel b1))"
    using a apply_delete [of ?es "nb_kernel b1" _ k] apply_Err [of _ "nb_kernel b1" _ k] by (cases r') auto
  ultimately show ?thesis
    using v4 a by (auto simp: nft_lets_through_def rule_pairs_def o_def element_key_inject split: if_splits)
qed

lemma nft_remove_cases:
  assumes "nft_remove_rule A h b = (r, b')"
  shows "nb_initialized b' = nb_initialized b \<and> nft_lets_through elems b' \<subseteq> nft_lets_through elems b"
proof (cases "and_then (assert_initialized ''remove_rule'' b) (\<lambda>_.
    remove_ruleset h (split_char (CHR '','') (handle_str h)) [])")
  case (Inl e)
  then show ?thesis using assms by (auto simp: nft_remove_rule_def)
next
  case (Inr rs)
  then obtain es where es: "rs = map delete_element es"
    using remove_ruleset_deletes [of h _ "[]" rs] by (auto simp: and_then_eq_Ok)
  obtain r' k where a: "ap_apply A rs (nb_kernel b) = (r', k)"
    by (cases "ap_apply A rs (nb_kernel b)")
  have "b' = b\<lparr>nb_kernel := k\<rparr>"
    using assms Inr a by (auto simp: nft_remove_rule_def Let_def split: sum.splits firewall_error.splits if_splits)
  moreover have "elems k \<subseteq> elems (nb_kernel b)"
    using a apply_delete [of es "nb_kernel b" _ k] apply_Err [of rs "nb_kernel b" _ k]
    by (cases r') (auto simp: es)
  ultimately show ?thesis
    using nft_lets_through_mono [of elems b' b] by simp
qed

end

sublocale nft_kernel \<subseteq> nft: firewall_contract "nft_backend_ops A" "\<lambda>_. True" nb_initialized
  "nft_lets_through elems"
proof (unfold_locales, goal_cases)
  case (1 f r f')
  obtain r' k where a: "ap_apply A init_ruleset (nb_kernel f) = (r', k)"
    by (cases "ap_apply A init_ruleset (nb_kernel f)")
  have "elems k \<subseteq> elems (nb_kernel f)"
    using a apply_init [of "nb_kernel f" _ k] apply_Err [of init_ruleset "nb_kernel f" _ k] by (cases r') auto
  then show ?case
    using 1 a nft_lets_through_mono [of elems f' f]
    by (auto simp: nft_backend_ops_def nft_init_def split: sum.splits)
next
  case (2 f u f')
  then show ?case by (auto simp: nft_backend_ops_def nft_init_def split: sum.splits prod.splits)
next
  case (3 f rule h f')
  then show ?case using nft_open_cases [of rule f "Ok h" f'] by (simp add: nft_backend_ops_def)
next
  case (4 f rule e f')
  then show ?case using nft_open_cases [of rule f "Err e" f'] by (simp add: nft_backend_ops_def)
next
  case (5 f rule)
  then show ?case by (simp add: nft_backend_ops_def nft_open_access_def assert_initialized_def)
next
  case (6 f h r f')
  then show ?case using nft_remove_cases [of h f r f'] by (simp add: nft_backend_ops_def)
next
  case (7 f r f')
  obtain r' k where a: "ap_apply A flush_ruleset (nb_kernel f) = (r', k)"
    by (cases "ap_apply A flush_ruleset (nb_kernel f)")
  have "elems k \<subseteq> elems (nb_kernel f)"
    using a apply_flush [of "nb_kernel f" _ k] apply_Err [of flush_ruleset "nb_kernel f" _ k] by (cases r') auto
  then show ?case
    using 7 a nft_lets_through_mono [of elems f' f] by (auto simp: nft_backend_ops_def nft_flush_def)
qed

subsection \<open>Properties\<close>

text \<open>
  C16. Opening a rule lets through exactly what it says: on success the backend is initialised
  and the (source, port) pairs let through grow by exactly those of the rule; every failure,
  IPv6 sources and a missing \<open>init\<close> included, leaves them as they were.
\<close>

theorem nft_open_access_exact:
  assumes "nft_kernel A elems" and "nft_open_access A rule b = (r, b')"
  shows "(case r of
       Ok h \<Rightarrow> nb_initialized b \<and> (\<exists>v4. ar_source_ip rule = V4 v4) \<and>
         nft_lets_through elems b' = nft_lets_through elems b \<union> rule_pairs rule
     | Err e \<Rightarrow> nft_lets_through elems b' = nft_lets_through elems b) \<and>
    nb_initialized b' = nb_initialized b"
  using nft_kernel.nft_open_cases [OF assms] assms(2)
  by (auto simp: nft_open_access_def Let_def split: sum.splits ip_addr.splits)

lemma sample_open:
  "\<exists>b'. nft_open_access ref_applier sample_rule sample_kernel =
     (Ok (RuleHandle (join (CHR '','') (map (handle_part 0x0A000001) (ar_ports sample_rule)))), b')"
  by (simp add: nft_open_access_def assert_initialized_def sample_kernel_def sample_rule_def ref_applier_def
      open_ruleset_eq add_element_def concat_expr_def element_key_def Let_def)

theorem nft_open_access_exact_witness:
  "\<exists>h b'. nft_open_access ref_applier sample_rule sample_kernel = (Ok h, b') \<and>
     nft_lets_through ref_elems b' = nft_lets_through ref_elems sample_kernel \<union> rule_pairs sample_rule"
proof -
  obtain h b' where o: "nft_open_access ref_applier sample_rule sample_kernel = (Ok h, b')"
    using sample_open by blast
  show ?thesis
    using o nft_open_access_exact [OF ref_kernel.nft_kernel_axioms o] by auto
qed

text \<open>
  The handle returned for a rule is enough to remove it: \<open>remove_rule\<close> sends the kernel
  exactly one deletion for each element that \<open>open_access\<close> added, succeeds exactly when the
  kernel accepts that transaction, and then what is let through shrinks by exactly the pairs
  of the rule; otherwise nothing changes.
\<close>

theorem nft_open_then_remove:
  assumes "nft_kernel A elems" and "nft_open_access A rule b = (Ok h, b1)" and "ar_ports rule \<noteq> []"
    and "nft_remove_rule A h b1 = (r, b2)"
  shows "\<exists>v4. ar_source_ip rule = V4 v4 \<and>
    (r = Ok () \<longleftrightarrow>
       fst (ap_apply A (map (\<lambda>pp. delete_element (element_key v4 pp)) (ar_ports rule)) (nb_kernel b1)) = Ok ()) \<and>
    nft_lets_through elems b2 =
      (if r = Ok () then nft_lets_through elems b1 - rule_pairs rule else nft_lets_through elems b1)"
  using nft_kernel.nft_remove_opened [OF assms] .

theorem nft_open_then_remove_witness:
  "\<exists>h b1 b2. nft_open_access ref_applier sample_rule sample_kernel = (Ok h, b1) \<and>
     nft_remove_rule ref_applier h b1 = (Ok (), b2) \<and>
     nft_lets_through ref_elems b2 = nft_lets_through ref_elems b1 - rule_pairs sample_rule"
proof -
  obtain h b1 r b2 where o: "nft_open_access ref_applier sample_rule sample_kernel = (Ok h, b1)"
    and r: "nft_remove_rule ref_applier h b1 = (r, b2)"
    using sample_open by (metis surj_pair)
  have p: "ar_ports sample_rule \<noteq> []" by (simp add: sample_rule_def)
  have "nb_kernel b1 = nb_kernel sample_kernel\<lparr>rk_elems :=
      [(element_key 0x0A000001 (port_proto_new Tcp 22), Some 30), (element_key 0x0A000001 (port_proto_new Udp 53), Some 30)]\<rparr>"
    using o by (auto simp: nft_open_access_def assert_initialized_def sample_kernel_def sample_rule_def
      ref_applier_def open_ruleset_eq add_element_def concat_expr_def element_key_def Let_def
      as_secs_def from_secs_def port_proto_new_def protocol_string_inject)
  then have "fst (ap_apply ref_applier (map (\<lambda>pp. delete_element (element_key 0x0A000001 pp)) (ar_ports sample_rule))
      (nb_kernel b1)) = Ok ()"
    by (simp add: ref_applier_def sample_rule_def delete_element_def concat_expr_def element_key_def
        port_proto_new_def protocol_string_inject)
  then have "r = Ok ()"
    using nft_open_then_remove [OF ref_kernel.nft_kernel_axioms o p r] by (auto simp: sample_rule_def)
  then show ?thesis
    using o r nft_open_then_remove [OF ref_kernel.nft_kernel_axioms o p r] by auto
qed

text \<open>
  A rule without ports opens nothing, and the handle it returns is one \<open>remove_rule\<close>
  always reports as not found.
\<close>

theorem empty_rule_handle_not_found:
  assumes "ar_ports rule = []" and "nft_open_access A rule b = (Ok h, b1)"
  shows "handle_str h = [] \<and> nft_remove_rule A h b1 = (Err (RuleNotFound []), b1)"
  using assms
  by (auto simp: nft_open_access_def nft_remove_rule_def assert_initialized_def split_char_nosep Let_def
      split: ip_addr.splits sum.splits prod.splits if_splits)

theorem empty_rule_handle_not_found_witness:
  "\<exists>h b1. nft_open_access ref_applier (sample_rule\<lparr>ar_ports := []\<rparr>) sample_kernel = (Ok h, b1) \<and>
     nft_remove_rule ref_applier h b1 = (Err (RuleNotFound []), b1)"
proof -
  have o: "nft_open_access ref_applier (sample_rule\<lparr>ar_ports := []\<rparr>) sample_kernel =
      (Ok (RuleHandle []), sample_kernel)"
    by (simp add: nft_open_access_def assert_initialized_def sample_kernel_def sample_rule_def ref_applier_def
        open_ruleset_def)
  show ?thesis
    using o empty_rule_handle_not_found [OF _ o] by simp
qed

text \<open>
  \<open>handle_has_present_elements\<close> never recognises an element that carries a timeout. The
  kernel lists such elements in the wrapped form in which \<open>open_access\<close> adds them, so for
  the handle of any opened rule the answer is that its elements are gone, and a delete that
  failed without a diagnostic while they are live is reported as \<open>RuleNotFound\<close>.
\<close>

theorem live_elements_not_recognised:
  assumes "ports \<noteq> []"
    and "\<And>fam tab nm ty fl es e. \<lbrakk>ListObject (NfSet fam tab nm ty fl (Some es)) \<in> set rs; e \<in> set es\<rbrakk> \<Longrightarrow>
      \<exists>v t. e = EElem v t"
  shows "handle_has_present_elements (RuleHandle (join (CHR '','') (map (handle_part v4) ports))) rs = False"
proof -
  have "split_char (CHR '','') (join (CHR '','') (map (handle_part v4) ports)) = map (handle_part v4) ports"
    using assms(1) handle_part_no_comma by (intro split_char_join) auto
  moreover have "List.map_filter handle_target (map (handle_part v4) ports) \<noteq> []"
    using assms(1) handle_target_part by (cases ports) (auto simp: List.map_filter_simps)
  moreover have "\<not> object_present targets obj" if "obj \<in> set rs" for targets obj
    using that assms(2)
    by (fastforce simp: object_present_def element_present_def list_ex_iff
        split: nf_object.splits nf_list_object.splits option.splits)
  ultimately show ?thesis
    by (auto simp: handle_has_present_elements_def list_ex_iff)
qed

theorem live_elements_not_recognised_witness:
  "handle_has_present_elements (RuleHandle (join (CHR '','') (map (handle_part 0x0A000001) [port_proto_new Tcp 22])))
     [ListObject (NfSet INet TABLE_NAME SET_NAME [Ipv4Addr, InetProto, InetService] [TimeoutFlag]
       (Some [EElem (concat_expr (element_key 0x0A000001 (port_proto_new Tcp 22))) (Some 30)]))] = False"
  by (rule live_elements_not_recognised) auto

end
