(* ===== verification/Capture.thy ===== *)
theory Capture
  imports Std_Net
begin

text \<open>
  The capture crate (\<open>fwknox-capture/src\<close>): captured packets, errors, the backend
  interface and the UDP backend with its cached read timeout, truncation check and decoding
  of socket addresses. The socket is a parameter: setting its read timeout and \<open>recvmsg\<close>
  with \<open>MSG_TRUNC\<close>. The locale \<open>udp_kernel\<close> states what Linux documents of \<open>recvmsg\<close> on a
  datagram socket; a queue of datagrams implements it.
\<close>

subsection \<open>Packets and errors\<close>

record captured_packet =
  cp_source_ip :: ip_addr
  cp_data :: bytes

datatype capture_error = Bind io_error | Recv io_error

text \<open>The trait \<open>CaptureBackend\<close>: its one operation on a backend of any type.\<close>

record 'b capture_ops =
  cap_recv_timeout :: "duration \<Rightarrow> 'b \<Rightarrow> (capture_error + captured_packet option) \<times> 'b"

subsection \<open>Socket addresses\<close>

text \<open>
  \<open>sockaddr_storage\<close>: the family and the bytes of the structure. On Linux the address of
  a \<open>sockaddr_in\<close> (16 bytes) is at offset 4, that of a \<open>sockaddr_in6\<close> (28 bytes) at offset 8.
\<close>

record sockaddr_storage =
  ss_family :: u16
  ss_bytes :: bytes

definition AF_INET :: int where "AF_INET = 2"
definition AF_INET6 :: int where "AF_INET6 = 10"
definition SIZEOF_SOCKADDR_IN :: nat where "SIZEOF_SOCKADDR_IN = 16"
definition SIZEOF_SOCKADDR_IN6 :: nat where "SIZEOF_SOCKADDR_IN6 = 28"

definition from_be :: "bytes \<Rightarrow> 'w :: len word" where
  "from_be bs = foldl (\<lambda>acc b. push_bit 8 acc OR ucast b) 0 bs"

definition sockaddr_storage_to_ip :: "sockaddr_storage \<Rightarrow> u32 \<Rightarrow> io_error + ip_addr" where
  "sockaddr_storage_to_ip storage namelen =
     (if uint (ss_family storage) = AF_INET then
        if unat namelen < SIZEOF_SOCKADDR_IN then Err InvalidData
        else Ok (V4 (from_be (take 4 (drop 4 (ss_bytes storage)))))
      else if uint (ss_family storage) = AF_INET6 then
        if unat namelen < SIZEOF_SOCKADDR_IN6 then Err InvalidData
        else Ok (V6 (from_be (take 16 (drop 8 (ss_bytes storage)))))
      else Err InvalidData)"

subsection \<open>Receiving\<close>

text \<open>
  What \<open>recvmsg\<close> leaves behind: its return value, whether \<open>MSG_TRUNC\<close> is set in the
  message flags, the bytes written to the buffer, and the source address.
\<close>

record recvmsg_result =
  rm_ret :: nat
  rm_trunc :: bool
  rm_written :: bytes
  rm_name :: sockaddr_storage
  rm_namelen :: u32

record 'k udp_socket_ops =
  us_set_read_timeout :: "duration \<Rightarrow> 'k \<Rightarrow> (io_error + unit) \<times> 'k"
  us_recvmsg :: "nat \<Rightarrow> 'k \<Rightarrow> (io_error + recvmsg_result) \<times> 'k"

definition MAX_DATAGRAM_LEN :: nat where "MAX_DATAGRAM_LEN = 1500"

datatype recv_outcome = RecvPacket nat ip_addr | RecvTruncated nat ip_addr

text \<open>A zeroed buffer of \<open>n\<close> bytes after the kernel wrote to its head.\<close>

definition filled :: "nat \<Rightarrow> bytes \<Rightarrow> bytes" where
  "filled n written = take n (written @ replicate n 0)"

definition recvmsg_with_trunc ::
  "'k udp_socket_ops \<Rightarrow> nat \<Rightarrow> 'k \<Rightarrow> (io_error + recv_outcome \<times> bytes) \<times> 'k" where
  "recvmsg_with_trunc K buf_len k =
     (case us_recvmsg K buf_len k of
        (Err e, k) \<Rightarrow> (Err e, k)
      | (Ok msg, k) \<Rightarrow>
          (and_then (sockaddr_storage_to_ip (rm_name msg) (rm_namelen msg)) (\<lambda>source_ip.
             let buf = filled buf_len (rm_written msg) in
             if rm_trunc msg then Ok (RecvTruncated (rm_ret msg) source_ip, buf)
             else Ok (RecvPacket (min (rm_ret msg) buf_len) source_ip, buf)), k))"

record 'k udp_capture =
  uc_socket :: 'k
  uc_last_timeout :: "duration option"

definition udp_from_socket :: "'k \<Rightarrow> 'k udp_capture" where
  "udp_from_socket socket = \<lparr>uc_socket = socket, uc_last_timeout = None\<rparr>"

definition udp_bind :: "io_error + 'k \<Rightarrow> capture_error + 'k udp_capture" where
  "udp_bind bound = and_then (map_err Bind bound) (\<lambda>socket. Ok (udp_from_socket socket))"

definition apply_timeout ::
  "'k udp_socket_ops \<Rightarrow> duration \<Rightarrow> 'k udp_capture \<Rightarrow> (capture_error + unit) \<times> 'k udp_capture" where
  "apply_timeout K timeout uc =
     (if uc_last_timeout uc \<noteq> Some timeout then
        case us_set_read_timeout K timeout (uc_socket uc) of
          (Err e, k) \<Rightarrow> (Err (Recv e), uc\<lparr>uc_socket := k\<rparr>)
        | (Ok _, k) \<Rightarrow> (Ok (), uc\<lparr>uc_socket := k, uc_last_timeout := Some timeout\<rparr>)
      else (Ok (), uc))"

definition recv_timeout ::
  "'k udp_socket_ops \<Rightarrow> duration \<Rightarrow> 'k udp_capture
    \<Rightarrow> (capture_error + captured_packet option) \<times> 'k udp_capture" where
  "recv_timeout K timeout uc =
     (case apply_timeout K timeout uc of
        (Err e, uc) \<Rightarrow> (Err e, uc)
      | (Ok _, uc) \<Rightarrow>
          let (out, k) = recvmsg_with_trunc K MAX_DATAGRAM_LEN (uc_socket uc);
              uc = uc\<lparr>uc_socket := k\<rparr> in
          (case out of
             Ok (RecvPacket len source_ip, buf) \<Rightarrow>
               (Ok (Some \<lparr>cp_source_ip = source_ip, cp_data = take len buf\<rparr>), uc)
           | Ok (RecvTruncated reported source_ip, buf) \<Rightarrow> (Ok None, uc)
           | Err e \<Rightarrow>
               if e = WouldBlock \<or> e = TimedOut then (Ok None, uc) else (Err (Recv e), uc)))"

definition udp_capture_ops :: "'k udp_socket_ops \<Rightarrow> 'k udp_capture capture_ops" where
  "udp_capture_ops K = \<lparr>cap_recv_timeout = recv_timeout K\<rparr>"

subsection \<open>Datagram sockets\<close>

text \<open>
  The socket address of a sender, and what \<open>recvmsg\<close> with \<open>MSG_TRUNC\<close> reports for a datagram:
  its real length, truncation exactly when it exceeds the buffer, and the bytes that fit.
\<close>

definition sockaddr_of :: "u16 \<Rightarrow> ip_addr \<Rightarrow> sockaddr_storage" where
  "sockaddr_of port ip =
     (let p = u16_to_be_bytes port in
      case ip of
        V4 a \<Rightarrow> \<lparr>ss_family = 2, ss_bytes = [2, 0, fst p, snd p] @ v4_octets a @ replicate 120 0\<rparr>
      | V6 a \<Rightarrow> \<lparr>ss_family = 10,
                 ss_bytes = [10, 0, fst p, snd p, 0, 0, 0, 0] @ v6_octets a @ replicate 104 0\<rparr>)"

definition datagram_result :: "nat \<Rightarrow> u16 \<Rightarrow> ip_addr \<Rightarrow> bytes \<Rightarrow> recvmsg_result" where
  "datagram_result n port ip data =
     \<lparr>rm_ret = length data, rm_trunc = (n < length data), rm_written = take n data,
      rm_name = sockaddr_of port ip, rm_namelen = (case ip of V4 _ \<Rightarrow> 16 | V6 _ \<Rightarrow> 28)\<rparr>"

locale udp_kernel =
  fixes K :: "'k udp_socket_ops" and pending :: "'k \<Rightarrow> (ip_addr \<times> bytes) list"
  assumes timeout_keeps: "us_set_read_timeout K t k = (r, k') \<Longrightarrow> pending k' = pending k"
    and recv_Err: "us_recvmsg K n k = (Err e, k') \<Longrightarrow> pending k' = pending k"
    and recv_Ok: "us_recvmsg K n k = (Ok m, k') \<Longrightarrow>
      \<exists>port ip data. pending k = (ip, data) # pending k' \<and> m = datagram_result n port ip data"

text \<open>A queue of datagrams with the ports they came from.\<close>

definition queue_socket :: "(u16 \<times> ip_addr \<times> bytes) list udp_socket_ops" where
  "queue_socket =
     \<lparr>us_set_read_timeout = (\<lambda>_ k. (Ok (), k)),
      us_recvmsg = (\<lambda>n k. case k of
         [] \<Rightarrow> (Err WouldBlock, [])
       | (port, ip, data) # rest \<Rightarrow> (Ok (datagram_result n port ip data), rest))\<rparr>"

interpretation queue_socket: udp_kernel queue_socket "map snd"
  by unfold_locales (auto simp: queue_socket_def split: list.splits)

subsection \<open>Lemmas\<close>

lemma bit_from_be:
  "bit (from_be bs :: 'w :: len word) n \<longleftrightarrow>
     n < LENGTH('w) \<and> n < 8 * length bs \<and> bit (bs ! (length bs - 1 - n div 8)) (n mod 8)"
proof (induction bs arbitrary: n rule: rev_induct)
  case (snoc b bs)
  have e: "(from_be (bs @ [b]) :: 'w word) = push_bit 8 (from_be bs) OR ucast b"
    by (simp add: from_be_def)
  show ?case
  proof (cases "n < 8")
    case True
    then show ?thesis by (auto simp: e bit_simps nth_append)
  next
    case False
    then obtain m where m: "n = m + 8" by (metis add.commute le_Suc_ex not_less)
    have "\<not> bit b n" using False bit_imp_le_length [of b n] by auto
    then have "bit (from_be (bs @ [b]) :: 'w word) n \<longleftrightarrow> n < LENGTH('w) \<and> bit (from_be bs :: 'w word) m"
      unfolding e bit_or_iff bit_push_bit_iff bit_unsigned_iff using False by (auto simp: m)
    moreover have "(bs @ [b]) ! (length bs - Suc (m div 8)) = bs ! (length bs - 1 - m div 8)" if "m < 8 * length bs"
    proof -
      have "length bs - Suc (m div 8) < length bs" using that by (cases bs) (simp_all add: less_Suc_eq_le)
      then show ?thesis by (simp add: nth_append)
    qed
    ultimately show ?thesis
      using div_add_self2 [of 8 m] by (auto simp: snoc.IH m)
  qed
qed (simp add: from_be_def)

lemma octets_length [simp]: "length (v4_octets a) = 4" "length (v6_octets b) = 16"
  by (simp_all add: v4_octets_def v6_octets_def)

lemma bit_v4_octet: "q < 4 \<Longrightarrow> r < 8 \<Longrightarrow> bit (v4_octets a ! (3 - q)) r \<longleftrightarrow> bit a (8 * q + r)"
proof -
  assume "q < 4" and r: "r < 8"
  then consider "q = 0" | "q = 1" | "q = 2" | "q = 3" by linarith
  then show ?thesis
    using r by cases (simp_all add: v4_octets_def bit_simps)
qed

lemma bit_v6_byte: "q < 16 \<Longrightarrow> r < 8 \<Longrightarrow> bit (v6_octets a ! (15 - q)) r \<longleftrightarrow> bit a (8 * q + r)"
proof -
  assume q: "q < 16" and r: "r < 8"
  have "[0..<16] ! (15 - q) = 15 - q" by (subst nth_upt) linarith+
  then show ?thesis using q r by (simp add: v6_octets_def bit_simps)
qed

lemma from_be_octets: "from_be (v4_octets a) = a" "from_be (v6_octets b) = b"
proof -
  show "from_be (v4_octets a) = a"
  proof (rule bit_word_eqI)
    fix n assume "n < LENGTH(32)"
    then have "n div 8 < 4" by simp
    then show "bit (from_be (v4_octets a) :: u32) n = bit a n"
      using bit_v4_octet [of "n div 8" "n mod 8" a] \<open>n < LENGTH(32)\<close> by (simp add: bit_from_be)
  qed
  show "from_be (v6_octets b) = b"
  proof (rule bit_word_eqI)
    fix n assume "n < LENGTH(128)"
    then have "n div 8 < 16" by simp
    then show "bit (from_be (v6_octets b) :: 128 word) n = bit b n"
      using bit_v6_byte [of "n div 8" "n mod 8" b] \<open>n < LENGTH(128)\<close> by (simp add: bit_from_be)
  qed
qed

lemma sockaddr_roundtrip:
  "sockaddr_storage_to_ip (sockaddr_of port ip) (case ip of V4 _ \<Rightarrow> 16 | V6 _ \<Rightarrow> 28) = Ok ip"
  by (cases ip) (simp_all add: sockaddr_storage_to_ip_def sockaddr_of_def AF_INET_def AF_INET6_def Let_def
      SIZEOF_SOCKADDR_IN_def SIZEOF_SOCKADDR_IN6_def from_be_octets)

lemma filled_datagram: "length data \<le> n \<Longrightarrow> take (length data) (filled n data) = data"
  by (simp add: filled_def)

context udp_kernel
begin

lemma recv_timeout_cases:
  assumes "recv_timeout K t uc = (r, uc')"
  shows "case r of
      Ok (Some pkt) \<Rightarrow> pending (uc_socket uc) = (cp_source_ip pkt, cp_data pkt) # pending (uc_socket uc') \<and>
        length (cp_data pkt) \<le> MAX_DATAGRAM_LEN
    | Ok None \<Rightarrow> pending (uc_socket uc') = pending (uc_socket uc) \<or>
        (\<exists>ip data. pending (uc_socket uc) = (ip, data) # pending (uc_socket uc') \<and> MAX_DATAGRAM_LEN < length data)
    | Err _ \<Rightarrow> pending (uc_socket uc') = pending (uc_socket uc)"
proof -
  obtain r1 uc1 where a: "apply_timeout K t uc = (r1, uc1)" by (cases "apply_timeout K t uc")
  have p1: "pending (uc_socket uc1) = pending (uc_socket uc)"
    using a timeout_keeps by (auto simp: apply_timeout_def split: if_splits prod.splits sum.splits)
  obtain r2 k where u: "us_recvmsg K MAX_DATAGRAM_LEN (uc_socket uc1) = (r2, k)"
    by (cases "us_recvmsg K MAX_DATAGRAM_LEN (uc_socket uc1)")
  show ?thesis
  proof (cases r1)
    case (Inl e)
    then show ?thesis using assms a p1 by (auto simp: recv_timeout_def)
  next
    case r1: (Inr u1)
    show ?thesis
    proof (cases r2)
      case (Inl e)
      then show ?thesis
        using assms a p1 u r1 recv_Err [of MAX_DATAGRAM_LEN "uc_socket uc1" e k]
        by (auto simp: recv_timeout_def recvmsg_with_trunc_def Let_def split: if_splits)
    next
      case (Inr m)
      then obtain port ip data where p: "pending (uc_socket uc1) = (ip, data) # pending k"
        and m: "m = datagram_result MAX_DATAGRAM_LEN port ip data"
        using recv_Ok u by blast
      then show ?thesis
        using assms a p1 u r1 Inr
        by (auto simp: recv_timeout_def recvmsg_with_trunc_def datagram_result_def sockaddr_roundtrip
            filled_datagram Let_def split: if_splits)
    qed
  qed
qed

end

subsection \<open>Properties\<close>

text \<open>
  C32. The UDP backend hands on datagrams whole or not at all: a captured packet is the next
  datagram of the socket, with its sender's address and every byte, and has at most 1500
  bytes; a call that returns no packet leaves the queue as it was or dropped one datagram
  of more than 1500 bytes; an error loses nothing.
\<close>

theorem recv_timeout_whole_datagrams:
  assumes "udp_kernel K pending" and "recv_timeout K t uc = (r, uc')"
  shows "case r of
      Ok (Some pkt) \<Rightarrow> pending (uc_socket uc) = (cp_source_ip pkt, cp_data pkt) # pending (uc_socket uc') \<and>
        length (cp_data pkt) \<le> MAX_DATAGRAM_LEN
    | Ok None \<Rightarrow> pending (uc_socket uc') = pending (uc_socket uc) \<or>
        (\<exists>ip data. pending (uc_socket uc) = (ip, data) # pending (uc_socket uc') \<and> MAX_DATAGRAM_LEN < length data)
    | Err _ \<Rightarrow> pending (uc_socket uc') = pending (uc_socket uc)"
  using udp_kernel.recv_timeout_cases [OF assms] .

theorem recv_timeout_whole_datagrams_witness:
  "\<exists>uc'. recv_timeout queue_socket (from_millis 500) (udp_from_socket [(9, V4 0x0A000001, [1, 2, 3])]) =
       (Ok (Some \<lparr>cp_source_ip = V4 0x0A000001, cp_data = [1, 2, 3]\<rparr>), uc') \<and> uc_socket uc' = []"
proof -
  obtain uc' where r: "recv_timeout queue_socket (from_millis 500)
      (udp_from_socket [(9, V4 0x0A000001, [1, 2, 3])]) =
      (Ok (Some \<lparr>cp_source_ip = V4 0x0A000001, cp_data = [1, 2, 3]\<rparr>), uc')"
    using sockaddr_roundtrip [of 9 "V4 0x0A000001"]
    by (simp add: recv_timeout_def apply_timeout_def queue_socket_def udp_from_socket_def
        recvmsg_with_trunc_def datagram_result_def filled_def MAX_DATAGRAM_LEN_def)
  show ?thesis
    using r recv_timeout_whole_datagrams [OF queue_socket.udp_kernel_axioms r]
    by (simp add: udp_from_socket_def)
qed

end
