(* ===== verification/Privsep.thy ===== *)
theory Privsep
  imports Proto_Types Ratelimit Capture
begin

text \<open>
  The privilege-separation crate (\<open>fwknox-privsep/src\<close>): its errors, the messages between the
  three processes, sending and receiving them over datagram socket pairs, the loops of the
  capture and the crypto worker, and reaping. MessagePack is a parameter; a socket pair is
  the queue of datagrams in flight. A loop takes what it reads from the system in each
  iteration as a list of inputs; it has not returned (\<open>None\<close>) when the inputs run out.
\<close>

subsection \<open>Errors and messages\<close>

datatype privsep_error =
    PsProto proto_error
  | IpcEncode string
  | IpcDecode string
  | PsIo io_error
  | PsSyscall string nat
  | PeerClosed
  | IpcTruncated nat nat

datatype capture_msg = Packet ip_addr bytes

text \<open>The reason of a rejection is text in the code; here it is a value of any type.\<close>

datatype 'r crypto_msg =
    ValidRequest string ip_addr spa_payload
  | Rejected ip_addr 'r
  | CryptoNoMatch ip_addr

subsection \<open>Sending and receiving\<close>

definition MAX_IPC_MSG :: nat where "MAX_IPC_MSG = 8192"

record 'm codec =
  cd_to_vec :: "'m \<Rightarrow> string + bytes"
  cd_from_slice :: "bytes \<Rightarrow> string + 'm"

text \<open>\<open>sent\<close> is the outcome of the system call: an error, or the datagram is queued.\<close>

definition send_msg ::
  "'m codec \<Rightarrow> io_error option \<Rightarrow> 'm \<Rightarrow> bytes list \<Rightarrow> (privsep_error + unit) \<times> bytes list" where
  "send_msg M sent msg q =
     (case map_err IpcEncode (cd_to_vec M msg) of
        Err e \<Rightarrow> (Err e, q)
      | Ok bytes \<Rightarrow>
          if MAX_IPC_MSG < length bytes
          then (Err (IpcEncode (''message too large: '' @ dec_string (length bytes) @ '' bytes > '' @
                  dec_string MAX_IPC_MSG @ '' limit'')), q)
          else (case sent of Some e \<Rightarrow> (Err (PsIo e), q) | None \<Rightarrow> (Ok (), q @ [bytes])))"

text \<open>
  \<open>got\<close> is an error of the system call; without one, an empty queue runs into the read
  timeout, and a datagram longer than the buffer is reported with its full length.
\<close>

definition recv_msg ::
  "'m codec \<Rightarrow> io_error option \<Rightarrow> bytes list \<Rightarrow> (privsep_error + 'm) \<times> bytes list" where
  "recv_msg M got q =
     (case got of
        Some e \<Rightarrow> (Err (PsIo e), q)
      | None \<Rightarrow>
          (case q of
             [] \<Rightarrow> (Err (PsIo WouldBlock), [])
           | d # rest \<Rightarrow>
               if MAX_IPC_MSG < length d then (Err (IpcTruncated (length d) MAX_IPC_MSG), rest)
               else if length d = 0 then (Err PeerClosed, rest)
               else (map_err IpcDecode (cd_from_slice M d), rest)))"

definition is_poll_timeout :: "privsep_error \<Rightarrow> bool" where
  "is_poll_timeout e \<longleftrightarrow> e = PsIo WouldBlock \<or> e = PsIo TimedOut"

subsection \<open>The capture worker\<close>

text \<open>
  One iteration reads the shutdown flag, a datagram or an error of \<open>recv_from\<close>, the clock of
  the limiter, and the outcome of sending. \<open>recv_from\<close> cuts a datagram off at its buffer.
\<close>

record capture_input =
  ci_shutdown :: bool
  ci_recv :: "io_error + ip_addr \<times> bytes"
  ci_sys_reset :: instant
  ci_sys :: instant
  ci_send :: "io_error option"

record 'k capture_worker =
  cw_limiter :: "'k rate_limiter"
  cw_to_crypto :: "bytes list"

definition CAPTURE_BUF_LEN :: nat where "CAPTURE_BUF_LEN = 1500"

text \<open>One iteration: \<open>Some r\<close> if the loop returns with \<open>r\<close>.\<close>

definition capture_iteration ::
  "'k key_lru \<Rightarrow> capture_msg codec \<Rightarrow> capture_input \<Rightarrow> 'k capture_worker
    \<Rightarrow> (privsep_error + unit) option \<times> 'k capture_worker" where
  "capture_iteration ops M i w =
     (if ci_shutdown i then (Some (Ok ()), w)
      else
        case ci_recv i of
          Ok (peer, datagram) \<Rightarrow>
            let (d, lim) = check ops (ci_sys_reset i) (ci_sys i) peer (cw_limiter w);
                w = w\<lparr>cw_limiter := lim\<rparr> in
            (case d of
               Pass \<Rightarrow>
                 let (r, q) = send_msg M (ci_send i) (Packet peer (take CAPTURE_BUF_LEN datagram))
                       (cw_to_crypto w);
                     w = w\<lparr>cw_to_crypto := q\<rparr> in
                 (case r of Err e \<Rightarrow> (Some (Err e), w) | Ok _ \<Rightarrow> (None, w))
             | Drop _ \<Rightarrow> (None, w))
        | Err e \<Rightarrow>
            if e = WouldBlock \<or> e = TimedOut then (None, w) else (Some (Err (PsIo e)), w))"

fun capture_loop ::
  "'k key_lru \<Rightarrow> capture_msg codec \<Rightarrow> capture_input list \<Rightarrow> 'k capture_worker
    \<Rightarrow> (privsep_error + unit) option \<times> 'k capture_worker" where
  "capture_loop ops M [] w = (None, w)"
| "capture_loop ops M (i # is) w =
     (case capture_iteration ops M i w of
        (Some r, w) \<Rightarrow> (Some r, w)
      | (None, w) \<Rightarrow> capture_loop ops M is w)"

definition run_capture_worker ::
  "'k key_lru \<Rightarrow> capture_msg codec \<Rightarrow> io_error option \<Rightarrow> capture_input list \<Rightarrow> 'k capture_worker
    \<Rightarrow> (privsep_error + unit) option \<times> 'k capture_worker" where
  "run_capture_worker ops M set_read_timeout is w =
     (case set_read_timeout of
        Some e \<Rightarrow> (Some (Err (PsIo e)), w)
      | None \<Rightarrow> capture_loop ops M is w)"

subsection \<open>The crypto worker\<close>

record 't crypto_input =
  yi_shutdown :: bool
  yi_recv :: "io_error option"
  yi_env :: 't
  yi_send :: "io_error option"

record crypto_worker =
  yw_from_capture :: "bytes list"
  yw_to_parent :: "bytes list"

text \<open>
  The closure \<open>validate\<close> reads \<open>yi_env\<close> from the system. It may panic (\<open>None\<close>);
  \<open>catch_unwind\<close> then drops the packet.
\<close>

definition crypto_iteration ::
  "capture_msg codec \<Rightarrow> 'r crypto_msg codec \<Rightarrow> ('t \<Rightarrow> capture_msg \<Rightarrow> 'r crypto_msg option) \<Rightarrow> 't crypto_input
    \<Rightarrow> crypto_worker \<Rightarrow> (privsep_error + unit) option \<times> crypto_worker" where
  "crypto_iteration M N validate i w =
     (if yi_shutdown i then (Some (Ok ()), w)
      else
        let (r, q) = recv_msg M (yi_recv i) (yw_from_capture w);
            w = w\<lparr>yw_from_capture := q\<rparr> in
        (case r of
           Ok capture_msg \<Rightarrow>
             (case validate (yi_env i) capture_msg of
                None \<Rightarrow> (None, w)
              | Some reply \<Rightarrow>
                  let (r, q) = send_msg N (yi_send i) reply (yw_to_parent w);
                      w = w\<lparr>yw_to_parent := q\<rparr> in
                  (case r of Err e \<Rightarrow> (Some (Err e), w) | Ok _ \<Rightarrow> (None, w)))
         | Err e \<Rightarrow> if is_poll_timeout e then (None, w) else (Some (Err e), w)))"

fun crypto_loop ::
  "capture_msg codec \<Rightarrow> 'r crypto_msg codec \<Rightarrow> ('t \<Rightarrow> capture_msg \<Rightarrow> 'r crypto_msg option) \<Rightarrow> 't crypto_input list
    \<Rightarrow> crypto_worker \<Rightarrow> (privsep_error + unit) option \<times> crypto_worker" where
  "crypto_loop M N validate [] w = (None, w)"
| "crypto_loop M N validate (i # is) w =
     (case crypto_iteration M N validate i w of
        (Some r, w) \<Rightarrow> (Some r, w)
      | (None, w) \<Rightarrow> crypto_loop M N validate is w)"

definition run_crypto_worker ::
  "capture_msg codec \<Rightarrow> 'r crypto_msg codec \<Rightarrow> ('t \<Rightarrow> capture_msg \<Rightarrow> 'r crypto_msg option) \<Rightarrow> io_error option
    \<Rightarrow> 't crypto_input list \<Rightarrow> crypto_worker \<Rightarrow> (privsep_error + unit) option \<times> crypto_worker" where
  "run_crypto_worker M N validate set_read_timeout is w =
     (case set_read_timeout of
        Some e \<Rightarrow> (Some (Err (PsIo e)), w)
      | None \<Rightarrow> crypto_loop M N validate is w)"

subsection \<open>Reaping\<close>

text \<open>\<open>kill\<close> and \<open>waitpid\<close> on a process table of any type; errors are error numbers.\<close>

datatype wait_status = Exited int int | Signaled int nat bool | OtherStatus

definition ECHILD :: nat where "ECHILD = 10"
definition SIGTERM :: nat where "SIGTERM = 15"

record 'p proc_ops =
  pr_kill :: "int \<Rightarrow> nat \<Rightarrow> 'p \<Rightarrow> (nat + unit) \<times> 'p"
  pr_waitpid :: "int option \<Rightarrow> bool \<Rightarrow> 'p \<Rightarrow> (nat + wait_status) \<times> 'p"

record forked_worker =
  wk_pid :: int
  wk_name :: string

definition signal_terminate :: "'p proc_ops \<Rightarrow> forked_worker \<Rightarrow> 'p \<Rightarrow> (privsep_error + unit) \<times> 'p" where
  "signal_terminate P w p =
     (let (r, p) = pr_kill P (wk_pid w) SIGTERM p in (map_err (PsSyscall ''kill'') r, p))"

definition worker_wait :: "'p proc_ops \<Rightarrow> forked_worker \<Rightarrow> 'p \<Rightarrow> (privsep_error + wait_status) \<times> 'p" where
  "worker_wait P w p =
     (let (r, p) = pr_waitpid P (Some (wk_pid w)) False p in (map_err (PsSyscall ''waitpid'') r, p))"

definition terminate_and_wait ::
  "'p proc_ops \<Rightarrow> forked_worker \<Rightarrow> 'p \<Rightarrow> (privsep_error + wait_status) \<times> 'p" where
  "terminate_and_wait P w p = (let (_, p) = signal_terminate P w p in worker_wait P w p)"

definition drop_worker :: "'p proc_ops \<Rightarrow> forked_worker \<Rightarrow> 'p \<Rightarrow> 'p" where
  "drop_worker P w p =
     (let (_, p) = pr_kill P (wk_pid w) SIGTERM p; (_, p) = pr_waitpid P (Some (wk_pid w)) True p in p)"

definition try_reap_any_child :: "'p proc_ops \<Rightarrow> 'p \<Rightarrow> (privsep_error + int option) \<times> 'p" where
  "try_reap_any_child P p =
     (let (r, p) = pr_waitpid P None True p in
      (case r of
         Ok (Exited pid _) \<Rightarrow> Ok (Some pid)
       | Ok (Signaled pid _ _) \<Rightarrow> Ok (Some pid)
       | Ok OtherStatus \<Rightarrow> Ok None
       | Err e \<Rightarrow> if e = ECHILD then Ok None else Err (PsSyscall ''waitpid(WNOHANG)'' e), p))"

subsection \<open>Message formats\<close>

text \<open>
  What the workers rely on of MessagePack: decoding inverts encoding, no encoding is empty,
  and a packet takes at most two bytes for each byte of data and 64 for the rest.
\<close>

locale msg_codec =
  fixes M :: "'m codec"
  assumes decode_encode: "cd_to_vec M m = Ok b \<Longrightarrow> cd_from_slice M b = Ok m \<and> b \<noteq> []"
begin

lemma send_then_recv:
  assumes "send_msg M sent m q = (Ok (), q')"
  shows "\<exists>b. cd_to_vec M m = Ok b \<and> q' = q @ [b] \<and> recv_msg M None (b # rest) = (Ok m, rest)"
  using assms decode_encode [of m]
  by (fastforce simp: send_msg_def recv_msg_def split: sum.splits if_splits option.splits)

end

locale packet_codec = msg_codec M for M :: "capture_msg codec" +
  assumes packet_size: "\<exists>b. cd_to_vec M (Packet ip d) = Ok b \<and> length b \<le> 2 * length d + 64"
begin

text \<open>So a packet of the capture worker always fits, and sending fails only with the socket.\<close>

lemma capture_packet_fits:
  "send_msg M sent (Packet ip (take CAPTURE_BUF_LEN d)) q =
     (case sent of Some e \<Rightarrow> (Err (PsIo e), q)
      | None \<Rightarrow> (Ok (), q @ [projr (cd_to_vec M (Packet ip (take CAPTURE_BUF_LEN d)))]))"
proof -
  obtain b where b: "cd_to_vec M (Packet ip (take CAPTURE_BUF_LEN d)) = Ok b"
    "length b \<le> 2 * length (take CAPTURE_BUF_LEN d) + 64"
    using packet_size by blast
  then have "length b \<le> MAX_IPC_MSG"
    by (simp add: MAX_IPC_MSG_def CAPTURE_BUF_LEN_def)
  then show ?thesis
    using b(1) by (simp add: send_msg_def split: option.splits)
qed

end

text \<open>
  An instance: the address with its octets, then the data. The instance for the replies has
  encodings for the sample payload and for packets without a match.
\<close>

definition ip_to_bytes :: "ip_addr \<Rightarrow> bytes" where
  "ip_to_bytes ip = (case ip of V4 a \<Rightarrow> 4 # v4_octets a | V6 a \<Rightarrow> 6 # v6_octets a)"

definition ip_from_bytes :: "bytes \<Rightarrow> (ip_addr \<times> bytes) option" where
  "ip_from_bytes bs =
     (case bs of
        [] \<Rightarrow> None
      | t # r \<Rightarrow>
          if t = 4 then Some (V4 (from_be (take 4 r)), drop 4 r)
          else if t = 6 then Some (V6 (from_be (take 16 r)), drop 16 r) else None)"

definition demo_packet_codec :: "capture_msg codec" where
  "demo_packet_codec =
     \<lparr>cd_to_vec = (\<lambda>m. case m of Packet ip d \<Rightarrow> Ok (ip_to_bytes ip @ d)),
      cd_from_slice = (\<lambda>b. case ip_from_bytes b of
         Some (ip, d) \<Rightarrow> Ok (Packet ip d) | None \<Rightarrow> Err ''invalid marker'')\<rparr>"

definition demo_reply_codec :: "'r crypto_msg codec" where
  "demo_reply_codec =
     \<lparr>cd_to_vec = (\<lambda>m. case m of
         ValidRequest n ip p \<Rightarrow>
           if n = ''ssh'' \<and> p = demo_payload then Ok (1 # ip_to_bytes ip) else Err ''unsupported''
       | Rejected _ _ \<Rightarrow> Err ''unsupported''
       | CryptoNoMatch ip \<Rightarrow> Ok (2 # ip_to_bytes ip)),
      cd_from_slice = (\<lambda>b. case b of
         [] \<Rightarrow> Err ''invalid marker''
       | t # r \<Rightarrow> (case ip_from_bytes r of
           None \<Rightarrow> Err ''invalid marker''
         | Some (ip, _) \<Rightarrow> Ok (if t = 1 then ValidRequest ''ssh'' ip demo_payload else CryptoNoMatch ip)))\<rparr>"

definition sample_capture_worker :: "(source_key, token_bucket) list_cache capture_worker" where
  "sample_capture_worker = \<lparr>cw_limiter = sample_limiter, cw_to_crypto = []\<rparr>"

lemma ip_bytes_roundtrip [simp]: "ip_from_bytes (ip_to_bytes ip @ d) = Some (ip, d)"
  by (cases ip) (simp_all add: ip_from_bytes_def ip_to_bytes_def from_be_octets)

lemma ip_to_bytes_size: "length (ip_to_bytes ip) \<le> 17" "ip_to_bytes ip \<noteq> []"
  by (cases ip; simp add: ip_to_bytes_def)+

interpretation demo_packets: packet_codec demo_packet_codec
proof unfold_locales
  fix ip d
  show "\<exists>b. cd_to_vec demo_packet_codec (Packet ip d) = Ok b \<and> length b \<le> 2 * length d + 64"
    using ip_to_bytes_size(1) [of ip] by (simp add: demo_packet_codec_def)
qed (auto simp: demo_packet_codec_def ip_to_bytes_size(2) split: capture_msg.splits)

interpretation demo_replies: msg_codec demo_reply_codec
proof unfold_locales
  fix m :: "'r crypto_msg" and b
  assume "cd_to_vec demo_reply_codec m = Ok b"
  then show "cd_from_slice demo_reply_codec b = Ok m \<and> b \<noteq> []"
    using ip_bytes_roundtrip [where d = "[]"]
    by (auto simp: demo_reply_codec_def split: crypto_msg.splits if_splits)
qed

context packet_codec
begin

lemma capture_iteration_stops:
  assumes "capture_iteration ops M i w = (Some r, w')"
  shows "r = Ok () \<and> ci_shutdown i \<or>
    (\<exists>e. r = Err (PsIo e) \<and> (ci_send i = Some e \<or> ci_recv i = Err e \<and> e \<noteq> WouldBlock \<and> e \<noteq> TimedOut))"
  using assms
  by (auto simp: capture_iteration_def capture_packet_fits Let_def
      split: if_splits sum.splits prod.splits decision.splits option.splits)

lemma capture_loop_stops:
  assumes "capture_loop ops M is w = (Some r, w')"
  shows "(\<exists>i \<in> set is. r = Ok () \<and> ci_shutdown i \<or>
    (\<exists>e. r = Err (PsIo e) \<and> (ci_send i = Some e \<or> ci_recv i = Err e \<and> e \<noteq> WouldBlock \<and> e \<noteq> TimedOut)))"
  using assms
proof (induction "is" arbitrary: w)
  case (Cons i "is")
  obtain q w1 where it: "capture_iteration ops M i w = (q, w1)" by force
  show ?case
  proof (cases q)
    case None
    then show ?thesis using Cons it by auto
  next
    case (Some r1)
    then have "r1 = r" using Cons.prems it by simp
    then show ?thesis using capture_iteration_stops [of ops i w r w1] it Some by simp
  qed
qed simp

end

subsection \<open>Properties\<close>

text \<open>
  C40. No packet can stop the capture worker: its loop returns only because the shutdown flag
  was set, or because a system call on one of its two sockets failed with an error other
  than the poll timeout, which is the error it returns; in particular no datagram, of
  whatever size, makes a message that is too large to send.
\<close>

theorem capture_worker_stops_only_on_io:
  assumes "packet_codec M" and "run_capture_worker ops M None is w = (Some r, w')"
  shows "\<exists>i \<in> set is. r = Ok () \<and> ci_shutdown i \<or>
    (\<exists>e. r = Err (PsIo e) \<and> (ci_send i = Some e \<or> ci_recv i = Err e \<and> e \<noteq> WouldBlock \<and> e \<noteq> TimedOut))"
  using packet_codec.capture_loop_stops [OF assms(1)] assms(2) by (simp add: run_capture_worker_def)

theorem capture_worker_stops_only_on_io_witness:
  "fst (run_capture_worker list_lru demo_packet_codec None
     [\<lparr>ci_shutdown = False, ci_recv = Err TimedOut, ci_sys_reset = 0, ci_sys = 0, ci_send = None\<rparr>,
      \<lparr>ci_shutdown = False, ci_recv = Err (OtherIo 100), ci_sys_reset = 0, ci_sys = 0, ci_send = None\<rparr>]
     sample_capture_worker) = Some (Err (PsIo (OtherIo 100)))"
proof -
  let ?is = "[\<lparr>ci_shutdown = False, ci_recv = Err TimedOut, ci_sys_reset = 0, ci_sys = 0, ci_send = None\<rparr>,
      \<lparr>ci_shutdown = False, ci_recv = Err (OtherIo 100), ci_sys_reset = 0, ci_sys = 0, ci_send = None\<rparr>]"
  obtain r w' where r: "run_capture_worker list_lru demo_packet_codec None ?is sample_capture_worker = (Some r, w')"
    by (simp add: run_capture_worker_def capture_iteration_def)
  show ?thesis
    using capture_worker_stops_only_on_io [OF demo_packets.packet_codec_axioms r] r by auto
qed

end
