(* ===== verification/Sandbox.thy ===== *)
theory Sandbox
  imports Prelude
begin

text \<open>
  The sandbox crate (\<open>fwknox-sandbox/src\<close>): dropping capabilities, switching to an
  unprivileged user, the Landlock policy, the seccomp filter of the workers, the order in
  which they are applied, and the systemd notifications. The crates \<open>caps\<close>, \<open>nix\<close>,
  \<open>landlock\<close>, \<open>seccompiler\<close> and \<open>sd_notify\<close> are parameters that act on the state of the
  process, of any type. The locale \<open>linux_process\<close> states what the manual pages
  capabilities(7) and setgroups(2) say about them; a small process model implements it.
\<close>

subsection \<open>Errors\<close>

datatype sandbox_error =
    SbCapability string
  | SbPrivDrop string
  | SbLandlock string
  | SbSdNotify io_error
  | SbConfiguration string

text \<open>Operations on the state \<open>'p\<close> of the process that may fail or panic (\<open>None\<close>).\<close>

type_synonym ('p, 'a) sb = "'p \<Rightarrow> (sandbox_error + 'a) option \<times> 'p"

definition sb_return :: "'a \<Rightarrow> ('p, 'a) sb" where
  "sb_return x p = (Some (Ok x), p)"

definition sb_bind :: "('p, 'a) sb \<Rightarrow> ('a \<Rightarrow> ('p, 'b) sb) \<Rightarrow> ('p, 'b) sb" where
  "sb_bind m f p =
     (case m p of
        (None, p) \<Rightarrow> (None, p)
      | (Some (Err e), p) \<Rightarrow> (Some (Err e), p)
      | (Some (Ok x), p) \<Rightarrow> f x p)"

definition sb_call :: "('e \<Rightarrow> sandbox_error) \<Rightarrow> ('p \<Rightarrow> ('e + 'a) \<times> 'p) \<Rightarrow> ('p, 'a) sb" where
  "sb_call err f p = (let (r, p) = f p in (Some (map_err err r), p))"

definition sb_lift :: "(sandbox_error + 'a) option \<Rightarrow> ('p, 'a) sb" where
  "sb_lift r p = (r, p)"

subsection \<open>What the crates provide\<close>

datatype cap_set = Effective | Permitted | Inheritable | Ambient | Bounding

datatype capability = CAP_NET_ADMIN | CAP_SETGID | CAP_SETUID | CAP_SETPCAP | CAP_OTHER nat

datatype access_fs = FromRead | FromAll

datatype ruleset_status = FullyEnforced | PartiallyEnforced | NotEnforced

datatype seccomp_action = Allow | KillProcess

datatype target_arch = X86_64 | Aarch64

type_synonym syscall = string

record seccomp_filter =
  sf_rules :: "syscall list"
  sf_mismatch :: seccomp_action
  sf_match :: seccomp_action
  sf_arch :: target_arch

datatype notify_state = Ready | Watchdog | Stopping

record 'p sys_ops =
  sy_caps_all :: "capability list"
  sy_caps_debug :: "capability \<Rightarrow> string"
  sy_caps_drop :: "cap_set \<Rightarrow> capability \<Rightarrow> 'p \<Rightarrow> (string + unit) \<times> 'p"
  sy_caps_read :: "cap_set \<Rightarrow> 'p \<Rightarrow> (string + capability list) \<times> 'p"
  sy_caps_raise :: "cap_set \<Rightarrow> capability \<Rightarrow> 'p \<Rightarrow> (string + unit) \<times> 'p"
  sy_set_keepcaps :: "bool \<Rightarrow> 'p \<Rightarrow> (string + unit) \<times> 'p"
  sy_user_from_name :: "string \<Rightarrow> 'p \<Rightarrow> (string + u32 option) \<times> 'p"
  sy_group_from_name :: "string \<Rightarrow> 'p \<Rightarrow> (string + u32 option) \<times> 'p"
  sy_setgroups :: "u32 list \<Rightarrow> 'p \<Rightarrow> (string + unit) \<times> 'p"
  sy_setgid :: "u32 \<Rightarrow> 'p \<Rightarrow> (string + unit) \<times> 'p"
  sy_setuid :: "u32 \<Rightarrow> 'p \<Rightarrow> (string + unit) \<times> 'p"
  sy_uid :: "'p \<Rightarrow> u32"
  sy_handle_access :: "access_fs \<Rightarrow> 'p \<Rightarrow> (string + unit) \<times> 'p"
  sy_ruleset_create :: "access_fs \<Rightarrow> 'p \<Rightarrow> (string + unit) \<times> 'p"
  sy_path_fd :: "path \<Rightarrow> 'p \<Rightarrow> (string + path) \<times> 'p"
  sy_add_rule :: "path \<Rightarrow> access_fs \<Rightarrow> 'p \<Rightarrow> (string + unit) \<times> 'p"
  sy_restrict_self :: "(path \<times> access_fs) list \<Rightarrow> 'p \<Rightarrow> (string + ruleset_status) \<times> 'p"
  sy_filter_new :: "seccomp_filter \<Rightarrow> 'p \<Rightarrow> (string + unit) \<times> 'p"
  sy_filter_compile :: "seccomp_filter \<Rightarrow> 'p \<Rightarrow> (string + unit) \<times> 'p"
  sy_apply_filter :: "seccomp_filter \<Rightarrow> 'p \<Rightarrow> (string + unit) \<times> 'p"
  sy_notify :: "notify_state \<Rightarrow> 'p \<Rightarrow> (io_error + unit) \<times> 'p"
  sy_watchdog_enabled :: "'p \<Rightarrow> duration option"

subsection \<open>Capabilities\<close>

text \<open>Failures to drop are logged and ignored.\<close>

definition drop_quietly :: "'p sys_ops \<Rightarrow> cap_set \<Rightarrow> capability \<Rightarrow> 'p \<Rightarrow> 'p" where
  "drop_quietly S cs cap p = snd (sy_caps_drop S cs cap p)"

definition drop_cap :: "'p sys_ops \<Rightarrow> capability list \<Rightarrow> capability \<Rightarrow> 'p \<Rightarrow> 'p" where
  "drop_cap S keep cap p =
     (if List.member keep cap then p
      else drop_quietly S Bounding cap
        (foldl (\<lambda>p cs. drop_quietly S cs cap p) p [Effective, Permitted, Inheritable, Ambient]))"

definition drop_all_except :: "'p sys_ops \<Rightarrow> capability list \<Rightarrow> ('p, unit) sb" where
  "drop_all_except S keep p =
     sb_bind (sb_call SbCapability (sy_caps_read S Effective)) (\<lambda>_. sb_return ())
       (foldl (\<lambda>p cap. drop_cap S keep cap p) p (sy_caps_all S))"

definition drop_all :: "'p sys_ops \<Rightarrow> ('p, unit) sb" where
  "drop_all S = drop_all_except S []"

fun raise_each :: "'p sys_ops \<Rightarrow> capability list \<Rightarrow> ('p, unit) sb" where
  "raise_each S [] = sb_return ()"
| "raise_each S (cap # keep) =
     sb_bind (sb_call (\<lambda>e. SbCapability (''could not raise '' @ sy_caps_debug S cap @ '' into effective set: '' @ e))
       (sy_caps_raise S Effective cap)) (\<lambda>_. raise_each S keep)"

definition raise_effective :: "'p sys_ops \<Rightarrow> capability list \<Rightarrow> ('p, unit) sb" where
  "raise_effective S keep =
     sb_bind (sb_call (\<lambda>e. SbConfiguration (''read Permitted: '' @ e)) (sy_caps_read S Permitted))
       (\<lambda>permitted.
          case List.find (\<lambda>cap. \<not> List.member permitted cap) keep of
            Some cap \<Rightarrow> sb_lift (Some (Err (SbConfiguration
              (''cannot raise '' @ sy_caps_debug S cap @ '': not in Permitted set''))))
          | None \<Rightarrow> raise_each S keep)"

subsection \<open>Switching user and group\<close>

definition resolve_user :: "'p sys_ops \<Rightarrow> string \<Rightarrow> ('p, u32) sb" where
  "resolve_user S name =
     sb_bind (sb_call (\<lambda>e. SbPrivDrop (''user lookup failed for '' @ name @ '': '' @ e))
         (sy_user_from_name S name))
       (\<lambda>u. sb_lift (Some (ok_or u (SbPrivDrop (''user '' @ name @ '' not found'')))))"

definition resolve_group :: "'p sys_ops \<Rightarrow> string \<Rightarrow> ('p, u32) sb" where
  "resolve_group S name =
     sb_bind (sb_call (\<lambda>e. SbPrivDrop (''group lookup failed for '' @ name @ '': '' @ e))
         (sy_group_from_name S name))
       (\<lambda>g. sb_lift (Some (ok_or g (SbPrivDrop (''group '' @ name @ '' not found'')))))"

definition drop_to :: "'p sys_ops \<Rightarrow> string \<Rightarrow> string \<Rightarrow> ('p, unit) sb" where
  "drop_to S user grp =
     sb_bind (resolve_user S user) (\<lambda>uid.
     sb_bind (resolve_group S grp) (\<lambda>gid.
     sb_bind (sb_call (\<lambda>e. SbPrivDrop (''setgroups failed: '' @ e)) (sy_setgroups S [gid])) (\<lambda>_.
     sb_bind (sb_call (\<lambda>e. SbPrivDrop (''setgid failed: '' @ e)) (sy_setgid S gid)) (\<lambda>_.
     sb_bind (sb_call (\<lambda>e. SbPrivDrop (''set_keepcaps(true) failed: '' @ e)) (sy_set_keepcaps S True)) (\<lambda>_.
     sb_bind (sb_call (\<lambda>e. SbPrivDrop (''setuid failed: '' @ e)) (sy_setuid S uid)) (\<lambda>_.
     sb_bind (sb_call (\<lambda>e. SbPrivDrop (''set_keepcaps(false) failed: '' @ e)) (sy_set_keepcaps S False))
       (\<lambda>_. sb_return ())))))))"

definition is_root :: "'p sys_ops \<Rightarrow> 'p \<Rightarrow> bool" where
  "is_root S p \<longleftrightarrow> sy_uid S p = 0"

subsection \<open>Landlock\<close>

datatype ruleset_outcome = Enforced | Insufficient

definition classify_status :: "ruleset_status \<Rightarrow> bool \<Rightarrow> ruleset_outcome" where
  "classify_status status policy_is_empty =
     (case (status, policy_is_empty) of
        (FullyEnforced, _) \<Rightarrow> Enforced
      | (PartiallyEnforced, True) \<Rightarrow> Insufficient
      | (PartiallyEnforced, False) \<Rightarrow> Enforced
      | (NotEnforced, _) \<Rightarrow> Insufficient)"

record filesystem_policy =
  fp_read_only :: "path list"
  fp_read_write :: "path list"

text \<open>What \<open>apply\<close> makes of the status; \<open>None\<close> are its \<open>unreachable!\<close> arms.\<close>

definition landlock_verdict :: "ruleset_status \<Rightarrow> bool \<Rightarrow> (sandbox_error + unit) option" where
  "landlock_verdict status policy_is_empty =
     (case classify_status status policy_is_empty of
        Enforced \<Rightarrow>
          (case status of
             FullyEnforced \<Rightarrow> Some (Ok ())
           | PartiallyEnforced \<Rightarrow> Some (Ok ())
           | NotEnforced \<Rightarrow> None)
      | Insufficient \<Rightarrow>
          (case status of
             NotEnforced \<Rightarrow> Some (Err (SbLandlock ''kernel does not support Landlock (needs Linux 5.13+)''))
           | PartiallyEnforced \<Rightarrow> Some (Err (SbLandlock
               (''landlock: kernel only partially enforced an empty policy; '' @
                ''refusing to run worker without full filesystem denial'')))
           | FullyEnforced \<Rightarrow> None))"

fun add_rules ::
  "'p sys_ops \<Rightarrow> access_fs \<Rightarrow> string \<Rightarrow> path list \<Rightarrow> (path \<times> access_fs) list
    \<Rightarrow> ('p, (path \<times> access_fs) list) sb" where
  "add_rules S access label [] rules = sb_return rules"
| "add_rules S access label (path # paths) rules =
     sb_bind (sb_call (\<lambda>e. SbLandlock (''open '' @ path @ '': '' @ e)) (sy_path_fd S path)) (\<lambda>fd.
     sb_bind (sb_call (\<lambda>e. SbLandlock (label @ e)) (sy_add_rule S fd access)) (\<lambda>_.
       add_rules S access label paths (rules @ [(fd, access)])))"

definition landlock_apply :: "'p sys_ops \<Rightarrow> filesystem_policy \<Rightarrow> ('p, unit) sb" where
  "landlock_apply S policy =
     (let policy_is_empty = fp_read_only policy = [] \<and> fp_read_write policy = [] in
      sb_bind (sb_call (\<lambda>e. SbLandlock (''handle_access failed: '' @ e)) (sy_handle_access S FromAll)) (\<lambda>_.
      sb_bind (sb_call (\<lambda>e. SbLandlock (''ruleset create failed: '' @ e)) (sy_ruleset_create S FromAll)) (\<lambda>_.
      sb_bind (add_rules S FromRead ''add_rule ro: '' (fp_read_only policy) []) (\<lambda>rules.
      sb_bind (add_rules S FromAll ''add_rule rw: '' (fp_read_write policy) rules) (\<lambda>rules.
      sb_bind (sb_call (\<lambda>e. SbLandlock (''restrict_self failed: '' @ e)) (sy_restrict_self S rules))
        (\<lambda>status. sb_lift (landlock_verdict status policy_is_empty)))))))"

subsection \<open>Seccomp\<close>

definition worker_syscall_list :: "target_arch \<Rightarrow> syscall list" where
  "worker_syscall_list arch =
     [''read'', ''write'', ''recvfrom'', ''sendto'', ''recvmsg'', ''sendmsg'', ''close'', ''fcntl'',
      ''setsockopt'', ''getsockopt'',
      ''ppoll'', ''epoll_pwait'', ''epoll_ctl'', ''epoll_create1'',
      ''brk'', ''mmap'', ''munmap'', ''mprotect'', ''madvise'', ''mremap'', ''futex'',
      ''clock_gettime'', ''clock_nanosleep'', ''nanosleep'',
      ''rt_sigaction'', ''rt_sigprocmask'', ''rt_sigreturn'', ''sigaltstack'', ''getpid'', ''gettid'', ''tgkill'',
      ''getrandom'', ''rseq'', ''set_robust_list'', ''set_tid_address'',
      ''restart_syscall'',
      ''exit'', ''exit_group''] @
     (if arch = X86_64 then [''poll'', ''epoll_wait'', ''gettimeofday''] else [])"

definition worker_filter :: "'p sys_ops \<Rightarrow> target_arch \<Rightarrow> ('p, seccomp_filter) sb" where
  "worker_filter S arch =
     (let filter = \<lparr>sf_rules = remdups (worker_syscall_list arch), sf_mismatch = KillProcess,
                    sf_match = Allow, sf_arch = arch\<rparr> in
      sb_bind (sb_call (\<lambda>e. SbConfiguration (''seccomp filter build: '' @ e)) (sy_filter_new S filter)) (\<lambda>_.
      sb_bind (sb_call (\<lambda>e. SbConfiguration (''seccomp filter compile: '' @ e)) (sy_filter_compile S filter))
        (\<lambda>_. sb_return filter)))"

definition install_worker_filter :: "'p sys_ops \<Rightarrow> target_arch \<Rightarrow> ('p, unit) sb" where
  "install_worker_filter S arch =
     sb_bind (worker_filter S arch) (\<lambda>program.
     sb_bind (sb_call (\<lambda>e. SbConfiguration (''seccomp apply: '' @ e)) (sy_apply_filter S program))
       (\<lambda>_. sb_return ()))"

text \<open>The verdict of a filter whose rules have no argument conditions.\<close>

definition filter_action :: "seccomp_filter \<Rightarrow> syscall \<Rightarrow> seccomp_action" where
  "filter_action f nr = (if List.member (sf_rules f) nr then sf_match f else sf_mismatch f)"

subsection \<open>Applying the layers\<close>

record priv_drop_target =
  pt_user :: string
  pt_group :: string

record landlock_config =
  lc_read_only :: "path list"
  lc_read_write :: "path list"

record sandbox_config =
  sc_keep_caps :: "capability list"
  sc_drop_to :: "priv_drop_target option"
  sc_landlock :: "landlock_config option"

definition sandbox_apply :: "'p sys_ops \<Rightarrow> sandbox_config \<Rightarrow> ('p, unit) sb" where
  "sandbox_apply S config =
     sb_bind (drop_all_except S (sc_keep_caps config)) (\<lambda>_.
     sb_bind (case sc_drop_to config of
          None \<Rightarrow> sb_return ()
        | Some target \<Rightarrow>
            sb_bind (drop_to S (pt_user target) (pt_group target)) (\<lambda>_.
              raise_effective S (sc_keep_caps config))) (\<lambda>_.
      case sc_landlock config of
        None \<Rightarrow> sb_return ()
      | Some ll \<Rightarrow> landlock_apply S \<lparr>fp_read_only = lc_read_only ll, fp_read_write = lc_read_write ll\<rparr>))"

definition apply_worker_sandbox :: "'p sys_ops \<Rightarrow> target_arch \<Rightarrow> ('p, unit) sb" where
  "apply_worker_sandbox S arch =
     sb_bind (landlock_apply S \<lparr>fp_read_only = [], fp_read_write = []\<rparr>) (\<lambda>_. install_worker_filter S arch)"

subsection \<open>The panic hook of the workers\<close>

text \<open>How a process ends.\<close>

datatype process_end = ExitCode int | KilledBy nat

definition SIGABRT :: nat where "SIGABRT = 6"

text \<open>
  The hook that \<open>install_worker_panic_hook\<close> sets: a line on standard error, whatever the
  write does there, and an abort.
\<close>

definition install_worker_panic_hook ::
  "string \<Rightarrow> (string \<Rightarrow> 'p \<Rightarrow> (io_error + unit) \<times> 'p) \<Rightarrow> string \<Rightarrow> 'p \<Rightarrow> process_end \<times> 'p" where
  "install_worker_panic_hook worker_name write_stderr info p =
     (KilledBy SIGABRT, snd (write_stderr (worker_name @ '': panicked: '' @ info @ [CHR 0x0A]) p))"

subsection \<open>Notifications\<close>

definition notify_ready :: "'p sys_ops \<Rightarrow> ('p, unit) sb" where
  "notify_ready S = sb_call SbSdNotify (sy_notify S Ready)"

definition notify_watchdog :: "'p sys_ops \<Rightarrow> ('p, unit) sb" where
  "notify_watchdog S = sb_call SbSdNotify (sy_notify S Watchdog)"

definition notify_stopping :: "'p sys_ops \<Rightarrow> ('p, unit) sb" where
  "notify_stopping S = sb_call SbSdNotify (sy_notify S Stopping)"

definition watchdog_interval :: "'p sys_ops \<Rightarrow> 'p \<Rightarrow> duration option" where
  "watchdog_interval S p = sy_watchdog_enabled S p"

text \<open>System calls that would let a worker reach files, programs, processes or new peers.\<close>

definition forbidden_syscalls :: "syscall list" where
  "forbidden_syscalls = [''execve'', ''execveat'', ''open'', ''openat'', ''unlink'', ''rename'', ''socket'',
     ''connect'', ''bind'', ''ptrace'', ''fork'', ''clone'', ''kill'', ''setuid'', ''prlimit64'', ''landlock_restrict_self'']"

subsection \<open>Processes\<close>

text \<open>
  What the manual pages say: no operation but raising adds capabilities; a capability that
  is dropped from a set other than the bounding set is gone from it (a process may always
  give up capabilities); raising adds only the named one; \<open>setgroups\<close> needs \<open>CAP_SETGID\<close> in
  the effective set; looking up a user or group leaves the capabilities alone.
\<close>

locale linux_process =
  fixes S :: "'p sys_ops" and caps :: "'p \<Rightarrow> cap_set \<Rightarrow> capability set"
  assumes known: "caps p cs \<subseteq> set (sy_caps_all S)"
    and drop_shrinks: "sy_caps_drop S cs c p = (r, p') \<Longrightarrow> caps p' cs' \<subseteq> caps p cs'"
    and drop_removes: "sy_caps_drop S cs c p = (r, p') \<Longrightarrow> cs \<noteq> Bounding \<Longrightarrow> c \<notin> caps p' cs"
    and read_keeps: "sy_caps_read S cs p = (rl, p') \<Longrightarrow> caps p' = caps p"
    and raise_adds: "sy_caps_raise S cs c p = (r, p') \<Longrightarrow> caps p' cs' \<subseteq> insert c (caps p cs')"
    and user_keeps: "sy_user_from_name S n p = (ru, p') \<Longrightarrow> caps p' = caps p"
    and group_keeps: "sy_group_from_name S n p = (ru, p') \<Longrightarrow> caps p' = caps p"
    and setgroups_needs: "sy_setgroups S gs p = (Ok u, p') \<Longrightarrow> CAP_SETGID \<in> caps p Effective"
    and setgroups_shrinks: "sy_setgroups S gs p = (r, p') \<Longrightarrow> caps p' cs' \<subseteq> caps p cs'"
    and setgid_shrinks: "sy_setgid S g p = (r, p') \<Longrightarrow> caps p' cs' \<subseteq> caps p cs'"
    and setuid_shrinks: "sy_setuid S g p = (r, p') \<Longrightarrow> caps p' cs' \<subseteq> caps p cs'"
    and keepcaps_shrinks: "sy_set_keepcaps S b p = (r, p') \<Longrightarrow> caps p' cs' \<subseteq> caps p cs'"
    and handle_shrinks: "sy_handle_access S a p = (r, p') \<Longrightarrow> caps p' cs' \<subseteq> caps p cs'"
    and create_shrinks: "sy_ruleset_create S a p = (r, p') \<Longrightarrow> caps p' cs' \<subseteq> caps p cs'"
    and path_fd_shrinks: "sy_path_fd S f p = (rp, p') \<Longrightarrow> caps p' cs' \<subseteq> caps p cs'"
    and add_rule_shrinks: "sy_add_rule S f a p = (r, p') \<Longrightarrow> caps p' cs' \<subseteq> caps p cs'"
    and restrict_shrinks: "sy_restrict_self S rules p = (rs, p') \<Longrightarrow> caps p' cs' \<subseteq> caps p cs'"

text \<open>A process with its capabilities, Landlock rules and seccomp filter.\<close>

record demo_process =
  dq_caps :: "cap_set \<Rightarrow> capability set"
  dq_uid :: u32
  dq_fs :: "(path \<times> access_fs) list option"
  dq_filter :: "seccomp_filter option"

definition demo_caps_all :: "capability list" where
  "demo_caps_all = [CAP_NET_ADMIN, CAP_SETGID, CAP_SETUID, CAP_SETPCAP, CAP_OTHER 12]"

definition demo_caps :: "demo_process \<Rightarrow> cap_set \<Rightarrow> capability set" where
  "demo_caps p cs = dq_caps p cs \<inter> set demo_caps_all"

definition demo_sys :: "ruleset_status \<Rightarrow> demo_process sys_ops" where
  "demo_sys status =
     \<lparr>sy_caps_all = demo_caps_all, sy_caps_debug = (\<lambda>_. ''cap''),
      sy_caps_drop = (\<lambda>cs c p. if cs = Bounding \<and> CAP_SETPCAP \<notin> demo_caps p Effective then (Err ''EPERM'', p)
         else (Ok (), p\<lparr>dq_caps := (dq_caps p)(cs := dq_caps p cs - {c})\<rparr>)),
      sy_caps_read = (\<lambda>cs p. (Ok (filter (\<lambda>c. c \<in> demo_caps p cs) demo_caps_all), p)),
      sy_caps_raise = (\<lambda>cs c p. if c \<in> demo_caps p Permitted
         then (Ok (), p\<lparr>dq_caps := (dq_caps p)(cs := insert c (dq_caps p cs))\<rparr>) else (Err ''EPERM'', p)),
      sy_set_keepcaps = (\<lambda>_ p. (Ok (), p)),
      sy_user_from_name = (\<lambda>n p. (Ok (if n = ''fwknox'' then Some 999 else None), p)),
      sy_group_from_name = (\<lambda>n p. (Ok (if n = ''fwknox'' then Some 999 else None), p)),
      sy_setgroups = (\<lambda>_ p. if CAP_SETGID \<in> demo_caps p Effective then (Ok (), p) else (Err ''EPERM'', p)),
      sy_setgid = (\<lambda>_ p. if CAP_SETGID \<in> demo_caps p Effective then (Ok (), p) else (Err ''EPERM'', p)),
      sy_setuid = (\<lambda>u p. if CAP_SETUID \<in> demo_caps p Effective
         then (Ok (), p\<lparr>dq_uid := u, dq_caps := (dq_caps p)(Effective := {})\<rparr>) else (Err ''EPERM'', p)),
      sy_uid = dq_uid,
      sy_handle_access = (\<lambda>_ p. (Ok (), p)), sy_ruleset_create = (\<lambda>_ p. (Ok (), p)),
      sy_path_fd = (\<lambda>f p. (Ok f, p)), sy_add_rule = (\<lambda>_ _ p. (Ok (), p)),
      sy_restrict_self = (\<lambda>rules p. (Ok status, if status = NotEnforced then p else p\<lparr>dq_fs := Some rules\<rparr>)),
      sy_filter_new = (\<lambda>_ p. (Ok (), p)), sy_filter_compile = (\<lambda>_ p. (Ok (), p)),
      sy_apply_filter = (\<lambda>f p. (Ok (), p\<lparr>dq_filter := Some f\<rparr>)),
      sy_notify = (\<lambda>_ p. (Ok (), p)), sy_watchdog_enabled = (\<lambda>_. None)\<rparr>"

definition root_process :: demo_process where
  "root_process = \<lparr>dq_caps = (\<lambda>_. set demo_caps_all), dq_uid = 0, dq_fs = None, dq_filter = None\<rparr>"

interpretation demo_sys: linux_process "demo_sys status" demo_caps
  by unfold_locales (auto simp: demo_sys_def demo_caps_def split: if_splits)

subsection \<open>Lemmas\<close>

lemma sb_bind_Ok:
  "sb_bind m f p = (Some (Ok y), p') \<longleftrightarrow> (\<exists>x q. m p = (Some (Ok x), q) \<and> f x q = (Some (Ok y), p'))"
  by (auto simp: sb_bind_def split: prod.splits option.splits sum.splits)

lemma sb_call_Ok: "sb_call err f p = (Some (Ok y), p') \<longleftrightarrow> f p = (Ok y, p')"
  by (auto simp: sb_call_def map_err_eq_Ok split: prod.splits)

lemma sb_return_Ok: "sb_return x p = (Some (Ok y), p') \<longleftrightarrow> y = x \<and> p' = p"
  by (auto simp: sb_return_def)

lemma sb_lift_Ok: "sb_lift r p = (Some (Ok y), p') \<longleftrightarrow> r = Some (Ok y) \<and> p' = p"
  by (auto simp: sb_lift_def)

lemmas sb_Ok = sb_bind_Ok sb_call_Ok sb_return_Ok sb_lift_Ok

lemma landlock_verdict_total: "landlock_verdict status e \<noteq> None"
  by (cases status; cases e) (simp_all add: landlock_verdict_def classify_status_def)

lemma landlock_verdict_Ok:
  "landlock_verdict status e = Some (Ok u) \<longleftrightarrow> status = FullyEnforced \<or> status = PartiallyEnforced \<and> \<not> e"
  by (cases status; cases e) (simp_all add: landlock_verdict_def classify_status_def)

context linux_process
begin

lemma drop_quietly_caps:
  "caps (drop_quietly S cs c p) cs' \<subseteq> caps p cs'"
  "cs \<noteq> Bounding \<Longrightarrow> c \<notin> caps (drop_quietly S cs c p) cs"
  unfolding drop_quietly_def
  using drop_shrinks [OF surjective_pairing] drop_removes [OF surjective_pairing] by blast+

lemma drop_sets_caps:
  "caps (foldl (\<lambda>p cs. drop_quietly S cs c p) p csl) cs \<subseteq> caps p cs"
  "cs \<noteq> Bounding \<Longrightarrow> cs \<in> set csl \<Longrightarrow> c \<notin> caps (foldl (\<lambda>p cs. drop_quietly S cs c p) p csl) cs"
proof (induction csl arbitrary: p)
  case (Cons x csl)
  {
    case 1
    show ?case using Cons.IH(1) [of "drop_quietly S x c p"] drop_quietly_caps(1) [of x c p cs] by auto
  next
    case 2
    then show ?case
      using Cons.IH [of "drop_quietly S x c p"] drop_quietly_caps(2) [of x c p] by auto
  }
qed simp_all

lemma drop_cap_caps:
  "caps (drop_cap S keep c p) cs \<subseteq> caps p cs"
  "cs \<noteq> Bounding \<Longrightarrow> c \<notin> set keep \<Longrightarrow> c \<notin> caps (drop_cap S keep c p) cs"
proof -
  let ?q = "foldl (\<lambda>p cs. drop_quietly S cs c p) p [Effective, Permitted, Inheritable, Ambient]"
  have d: "drop_cap S keep c p = (if c \<in> set keep then p else drop_quietly S Bounding c ?q)"
    by (simp add: drop_cap_def)
  have q: "caps (drop_quietly S Bounding c ?q) cs \<subseteq> caps ?q cs" by (rule drop_quietly_caps(1))
  show "caps (drop_cap S keep c p) cs \<subseteq> caps p cs"
    unfolding d using subset_trans [OF q drop_sets_caps(1)] by (simp del: foldl.simps)
  show "c \<notin> caps (drop_cap S keep c p) cs" if "cs \<noteq> Bounding" "c \<notin> set keep"
  proof -
    have "cs \<in> set [Effective, Permitted, Inheritable, Ambient]" using that(1) by (cases cs) simp_all
    from drop_sets_caps(2) [OF that(1) this] show ?thesis
      unfolding d using q that(2) by (auto simp del: foldl.simps)
  qed
qed

lemma drop_caps_caps:
  "caps (foldl (\<lambda>p c. drop_cap S keep c p) p cl) cs \<subseteq> caps p cs"
  "cs \<noteq> Bounding \<Longrightarrow> c \<in> set cl \<Longrightarrow> c \<notin> set keep \<Longrightarrow>
     c \<notin> caps (foldl (\<lambda>p c. drop_cap S keep c p) p cl) cs"
proof (induction cl arbitrary: p)
  case (Cons x cl)
  {
    case 1
    show ?case using Cons.IH(1) [of "drop_cap S keep x p"] drop_cap_caps(1) [of keep x p cs] by auto
  next
    case 2
    then show ?case
      using Cons.IH [of "drop_cap S keep x p"] drop_cap_caps(2) [of cs x keep p] by auto
  }
qed simp_all

lemma drop_all_except_caps:
  assumes "drop_all_except S keep p = (Some (Ok u), p')" and "cs \<noteq> Bounding"
  shows "caps p' cs \<subseteq> set keep"
proof -
  let ?q = "foldl (\<lambda>p c. drop_cap S keep c p) p (sy_caps_all S)"
  have "caps p' = caps ?q"
    using assms(1) read_keeps by (auto simp: drop_all_except_def sb_Ok)
  then show ?thesis
    using drop_caps_caps(2) [OF assms(2), of _ "sy_caps_all S" keep p] known [of p' cs] by auto
qed

lemma add_rules_caps:
  "add_rules S a l ps rules p = (Some (Ok rules'), p') \<Longrightarrow> caps p' cs \<subseteq> caps p cs"
proof (induction ps arbitrary: rules p)
  case (Cons f ps)
  then obtain fd q q' where q: "sy_path_fd S f p = (Ok fd, q)" "sy_add_rule S fd a q = (Ok (), q')"
    "add_rules S a l ps (rules @ [(fd, a)]) q' = (Some (Ok rules'), p')"
    by (auto simp: sb_Ok)
  then show ?case
    using Cons.IH [OF q(3)] path_fd_shrinks [OF q(1), of cs] add_rule_shrinks [OF q(2), of cs] by auto
qed (simp add: sb_Ok)

lemma landlock_apply_caps:
  assumes "landlock_apply S policy p = (Some (Ok u), p')"
  shows "caps p' cs \<subseteq> caps p cs"
proof -
  obtain q1 q2 rules q3 rules' q4 status where q: "sy_handle_access S FromAll p = (Ok (), q1)"
    "sy_ruleset_create S FromAll q1 = (Ok (), q2)"
    "add_rules S FromRead ''add_rule ro: '' (fp_read_only policy) [] q2 = (Some (Ok rules), q3)"
    "add_rules S FromAll ''add_rule rw: '' (fp_read_write policy) rules q3 = (Some (Ok rules'), q4)"
    "sy_restrict_self S rules' q4 = (Ok status, p')"
    using assms by (auto simp: landlock_apply_def Let_def sb_Ok)
  show ?thesis
    using handle_shrinks [OF q(1), of cs] create_shrinks [OF q(2), of cs] add_rules_caps [OF q(3), of cs]
      add_rules_caps [OF q(4), of cs] restrict_shrinks [OF q(5), of cs] by auto
qed

lemma raise_each_caps:
  "raise_each S keep p = (Some (Ok u), p') \<Longrightarrow> caps p' cs \<subseteq> caps p cs \<union> set keep"
proof (induction keep arbitrary: p)
  case (Cons c keep)
  then obtain q where "sy_caps_raise S Effective c p = (Ok (), q)" "raise_each S keep q = (Some (Ok u), p')"
    by (auto simp: sb_Ok)
  then show ?case
    using Cons.IH raise_adds [of Effective c p _ q cs] by fastforce
qed (simp add: sb_Ok)

lemma raise_effective_caps:
  assumes "raise_effective S keep p = (Some (Ok u), p')"
  shows "caps p' cs \<subseteq> caps p cs \<union> set keep"
proof -
  obtain permitted q where "sy_caps_read S Permitted p = (Ok permitted, q)"
    "raise_each S keep q = (Some (Ok u), p')"
    using assms by (auto simp: raise_effective_def sb_Ok split: option.splits)
  then show ?thesis using read_keeps raise_each_caps by metis
qed

lemma resolve_caps:
  "resolve_user S n p = (Some (Ok x), p') \<Longrightarrow> caps p' = caps p"
  "resolve_group S n p = (Some (Ok x), p') \<Longrightarrow> caps p' = caps p"
  using user_keeps group_keeps by (auto simp: resolve_user_def resolve_group_def sb_Ok)

lemma drop_to_caps:
  assumes "drop_to S user grp p = (Some (Ok u), p')"
  shows "caps p' cs \<subseteq> caps p cs" and "CAP_SETGID \<in> caps p Effective"
proof -
  obtain uid gid q1 q2 q3 q4 q5 q6 where r: "resolve_user S user p = (Some (Ok uid), q1)"
    "resolve_group S grp q1 = (Some (Ok gid), q2)" and g: "sy_setgroups S [gid] q2 = (Ok (), q3)"
    and s: "sy_setgid S gid q3 = (Ok (), q4)" "sy_set_keepcaps S True q4 = (Ok (), q5)"
      "sy_setuid S uid q5 = (Ok (), q6)" "sy_set_keepcaps S False q6 = (Ok (), p')"
    using assms by (auto simp: drop_to_def sb_Ok)
  have q2: "caps q2 = caps p" using resolve_caps r by metis
  show "CAP_SETGID \<in> caps p Effective" using setgroups_needs [OF g] q2 by simp
  have "caps p' cs \<subseteq> caps q2 cs"
    using keepcaps_shrinks [OF s(4), of cs] setuid_shrinks [OF s(3), of cs] keepcaps_shrinks [OF s(2), of cs]
      setgid_shrinks [OF s(1), of cs] setgroups_shrinks [OF g, of cs] by auto
  then show "caps p' cs \<subseteq> caps p cs" using q2 by simp
qed

lemma sandbox_apply_caps:
  assumes "sandbox_apply S config p = (Some (Ok u), p')" and "cs \<noteq> Bounding"
  shows "caps p' cs \<subseteq> set (sc_keep_caps config)"
    and "sc_drop_to config \<noteq> None \<Longrightarrow> CAP_SETGID \<in> set (sc_keep_caps config)"
proof -
  let ?keep = "set (sc_keep_caps config)"
  obtain q1 q2 where d: "drop_all_except S (sc_keep_caps config) p = (Some (Ok ()), q1)"
    and t: "(case sc_drop_to config of None \<Rightarrow> sb_return ()
      | Some target \<Rightarrow> sb_bind (drop_to S (pt_user target) (pt_group target)) (\<lambda>_.
          raise_effective S (sc_keep_caps config))) q1 = (Some (Ok ()), q2)"
    and l: "(case sc_landlock config of None \<Rightarrow> sb_return ()
      | Some ll \<Rightarrow> landlock_apply S \<lparr>fp_read_only = lc_read_only ll, fp_read_write = lc_read_write ll\<rparr>) q2 =
        (Some (Ok u), p')"
    using assms(1) by (auto simp: sandbox_apply_def sb_bind_Ok)
  have q1: "caps q1 cs \<subseteq> ?keep" "caps q1 Effective \<subseteq> ?keep"
    using drop_all_except_caps [OF d] assms(2) by auto
  have "caps q2 cs \<subseteq> ?keep"
  proof (cases "sc_drop_to config")
    case (Some target)
    then obtain q where q: "drop_to S (pt_user target) (pt_group target) q1 = (Some (Ok ()), q)"
      "raise_effective S (sc_keep_caps config) q = (Some (Ok ()), q2)"
      using t by (auto simp: sb_bind_Ok)
    then show ?thesis
      using q1 drop_to_caps(1) [OF q(1), of cs] raise_effective_caps [OF q(2), of cs] by auto
  qed (use t q1 in \<open>simp add: sb_Ok\<close>)
  moreover have "caps p' cs \<subseteq> caps q2 cs"
    using l landlock_apply_caps by (auto simp: sb_Ok split: option.splits)
  ultimately show "caps p' cs \<subseteq> ?keep" by auto
  show "CAP_SETGID \<in> ?keep" if "sc_drop_to config \<noteq> None"
    using that t q1(2) drop_to_caps(2) by (fastforce simp: sb_bind_Ok)
qed

end

lemma worker_sandbox_steps:
  assumes "apply_worker_sandbox S arch p = (Some (Ok u), p')"
  shows "\<exists>q1 q2 q3. sy_restrict_self S [] q1 = (Ok FullyEnforced, q2) \<and>
    sy_apply_filter S \<lparr>sf_rules = remdups (worker_syscall_list arch), sf_mismatch = KillProcess,
      sf_match = Allow, sf_arch = arch\<rparr> q3 = (Ok (), p')"
proof -
  obtain q where l: "landlock_apply S \<lparr>fp_read_only = [], fp_read_write = []\<rparr> p = (Some (Ok ()), q)"
    and f: "install_worker_filter S arch q = (Some (Ok u), p')"
    using assms by (auto simp: apply_worker_sandbox_def sb_bind_Ok)
  have "\<exists>q1. sy_restrict_self S [] q1 = (Ok FullyEnforced, q)"
    using l by (auto simp: landlock_apply_def sb_Ok landlock_verdict_Ok)
  then show ?thesis
    using f by (auto simp: install_worker_filter_def worker_filter_def Let_def sb_Ok)
qed

lemma forbidden_not_listed: "set forbidden_syscalls \<inter> set (worker_syscall_list arch) = {}"
  by (cases arch) (simp_all add: forbidden_syscalls_def worker_syscall_list_def)

subsection \<open>Properties\<close>



text \<open>
  Switching user cannot succeed as the layers are ordered: the capabilities are dropped
  first, and \<open>setgroups\<close> then lacks \<open>CAP_SETGID\<close>, so \<open>apply\<close> never succeeds with a user to
  switch to unless \<open>CAP_SETGID\<close> is among the capabilities to keep.
\<close>

theorem sandbox_user_switch_fails:
  assumes "linux_process S caps" and "sc_drop_to config \<noteq> None" and "CAP_SETGID \<notin> set (sc_keep_caps config)"
  shows "fst (sandbox_apply S config p) \<noteq> Some (Ok ())"
  using linux_process.sandbox_apply_caps(2) [OF assms(1), of config p "()" _ Effective] assms(2,3)
  by (cases "sandbox_apply S config p") auto

theorem sandbox_user_switch_fails_witness:
  "fst (sandbox_apply (demo_sys FullyEnforced)
     \<lparr>sc_keep_caps = [CAP_NET_ADMIN], sc_drop_to = Some \<lparr>pt_user = ''fwknox'', pt_group = ''fwknox''\<rparr>,
      sc_landlock = None\<rparr> root_process) \<noteq> Some (Ok ())"
  by (rule sandbox_user_switch_fails [OF demo_sys.linux_process_axioms]) simp_all

text \<open>
  The worker sandbox fails closed: it succeeds only if the kernel fully enforced a Landlock
  ruleset without any allowed path and then accepted the seccomp filter that allows exactly
  the listed system calls and kills the process on every other one, among them those to
  open files, create sockets, run programs or signal other processes.
\<close>

theorem worker_sandbox_fails_closed:
  assumes "apply_worker_sandbox S arch p = (Some (Ok ()), p')"
  shows "\<exists>q1 q2 q3 f. sy_restrict_self S [] q1 = (Ok FullyEnforced, q2) \<and>
    sy_apply_filter S f q3 = (Ok (), p') \<and>
    (\<forall>nr. filter_action f nr = (if nr \<in> set (worker_syscall_list arch) then Allow else KillProcess)) \<and>
    (\<forall>nr \<in> set forbidden_syscalls. filter_action f nr = KillProcess)"
  using worker_sandbox_steps [OF assms] forbidden_not_listed [of arch]
  by (fastforce simp: filter_action_def)

theorem worker_sandbox_fails_closed_witness:
  "\<exists>p'. apply_worker_sandbox (demo_sys FullyEnforced) X86_64 root_process = (Some (Ok ()), p') \<and>
     fst (apply_worker_sandbox (demo_sys PartiallyEnforced) X86_64 root_process) \<noteq> Some (Ok ())"
proof -
  obtain p' where "apply_worker_sandbox (demo_sys FullyEnforced) X86_64 root_process = (Some (Ok ()), p')"
    by (simp add: apply_worker_sandbox_def landlock_apply_def install_worker_filter_def worker_filter_def
        sb_bind_def sb_call_def sb_return_def sb_lift_def demo_sys_def Let_def landlock_verdict_def
        classify_status_def)
  moreover have "sy_restrict_self (demo_sys PartiallyEnforced) r q \<noteq> (Ok FullyEnforced, q')" for r q q'
    by (simp add: demo_sys_def)
  then have "apply_worker_sandbox (demo_sys PartiallyEnforced) X86_64 root_process \<noteq> (Some (Ok ()), q)" for q
    using worker_sandbox_fails_closed [of "demo_sys PartiallyEnforced" X86_64 root_process q] by auto
  ultimately show ?thesis
    by (cases "apply_worker_sandbox (demo_sys PartiallyEnforced) X86_64 root_process") auto
qed

end
