(* ===== verification/Pipeline.thy ===== *)
theory Pipeline
  imports Proto Config Replay Firewall Capture Privsep Sandbox
begin

text \<open>
  The per-packet pipeline of the daemon (\<open>fwknox-daemon/src/matcher.rs\<close>, \<open>pipeline.rs\<close>,
  \<open>error.rs\<close>): finding the stanza whose key authenticates a packet, the clock check, the
  replay check, the policy of the stanza, and the installation of the rule. The abstract
  specification is \<open>authorised\<close>: what a packet must satisfy, by the configuration alone, for
  its rule to be installed.
\<close>

subsection \<open>Matching\<close>

datatype match_result =
    Matched string spa_payload
  | NoMatch
  | MatchRejected string proto_error

text \<open>\<open>None\<close> is a panic of \<open>parse_packet\<close>.\<close>

fun match_packet :: "libs \<Rightarrow> bytes \<Rightarrow> access_stanza list \<Rightarrow> match_result option" where
  "match_packet L wire [] = Some NoMatch"
| "match_packet L wire (stanza # stanzas) =
     (case parse_packet L wire (as_bytes (st_master_key_base64 stanza)) of
        None \<Rightarrow> None
      | Some (Ok payload) \<Rightarrow> Some (Matched (st_name stanza) payload)
      | Some (Err HmacFailed) \<Rightarrow> match_packet L wire stanzas
      | Some (Err other) \<Rightarrow> Some (MatchRejected (st_name stanza) other))"

subsection \<open>Errors and outcomes\<close>

text \<open>
  The errors of the daemon, and the reasons for rejection with the values that their
  messages print.
\<close>

datatype daemon_error =
    ConfigErr config_error
  | FirewallErr firewall_error
  | CaptureErr capture_error
  | ReplayErr replay_error
  | SandboxErr sandbox_error
  | ProtoErr proto_error
  | PrivsepErr privsep_error
  | IoErr io_error
  | InvariantViolation string

datatype reject_reason =
    ProtoReason proto_error
  | InternalReason daemon_error
  | PersistFailed replay_error
  | UnsupportedVariant
  | SourceMismatch ip_addr ip_addr
  | SourceNotAllowed ip_addr
  | PortNotOpen port_proto

datatype process_result =
    Installed string rule_handle
  | Replay string
  | PacketNoMatch
  | PacketRejected string reject_reason

definition find_stanza :: "daemon_config \<Rightarrow> string \<Rightarrow> daemon_error + access_stanza" where
  "find_stanza config stanza_name =
     ok_or (List.find (\<lambda>s. st_name s = stanza_name) (dc_access config))
       (InvariantViolation (''stanza '' @ stanza_name @ '' not in config''))"

subsection \<open>The pipeline\<close>

text \<open>
  What the pipeline is linked with: the crates' operations, the LRU cache and hash order of
  the replay cache, and the firewall backend.
\<close>

record ('c, 'f) deps =
  dp_libs :: libs
  dp_conf :: conf_libs
  dp_lru :: "'c nonce_lru"
  dp_ord :: hash_order
  dp_fw :: "'f firewall_ops"

text \<open>What it reads from the system for one packet: the clock, twice, and the outcome of I/O.\<close>

record packet_env =
  pe_now :: sys_time
  pe_now_replay :: sys_time
  pe_io :: write_io

text \<open>What it changes: the replay cache, the disk and the firewall.\<close>

record ('c, 'f) daemon_state =
  dm_replay :: "'c replay_cache"
  dm_disk :: disk
  dm_firewall :: 'f

definition now_unix :: "sys_time \<Rightarrow> i64" where
  "now_unix now = unix_secs now"

definition max_age_secs :: "daemon_config \<Rightarrow> i64" where
  "max_age_secs config =
     (let secs = as_secs (ds_max_spa_packet_age (dc_daemon config)) in
      if secs < 2 ^ 63 then of_nat secs else 2 ^ 63 - 1)"

definition clamp_timeout :: "duration \<Rightarrow> duration \<Rightarrow> duration" where
  "clamp_timeout requested mx = (if requested > mx then mx else requested)"

definition i64_string :: "i64 \<Rightarrow> string" where
  "i64_string t = (if sint t < 0 then ''-'' @ dec_string (nat (- sint t)) else dec_string (nat (sint t)))"

definition rule_comment :: "spa_payload \<Rightarrow> string" where
  "rule_comment payload = ''fwknox:'' @ pl_username payload @ '':'' @ i64_string (pl_timestamp payload)"

fun check_ports :: "port_proto list \<Rightarrow> port_proto list \<Rightarrow> reject_reason + unit" where
  "check_ports allowed [] = Ok ()"
| "check_ports allowed (pp # ports) =
     (if \<not> list_ex (\<lambda>a. a = pp) allowed then Err (PortNotOpen pp) else check_ports allowed ports)"

text \<open>Steps 4 and 5, the policy of the stanza for an access request.\<close>

definition check_policy ::
  "conf_libs \<Rightarrow> access_stanza \<Rightarrow> ip_addr \<Rightarrow> ip_addr \<Rightarrow> port_proto list \<Rightarrow> reject_reason + unit" where
  "check_policy C stanza captured_ip source_ip ports =
     (if st_require_source_match stanza \<and> source_ip \<noteq> captured_ip
      then Err (SourceMismatch source_ip captured_ip)
      else if \<not> list_ex (\<lambda>s. source_matches C s captured_ip) (st_source stanza)
      then Err (SourceNotAllowed captured_ip)
      else check_ports (st_open_ports stanza) ports)"

text \<open>Step 6, the rule that is installed.\<close>

definition build_rule ::
  "daemon_config \<Rightarrow> access_stanza \<Rightarrow> spa_payload \<Rightarrow> ip_addr \<Rightarrow> port_proto list \<Rightarrow> access_rule" where
  "build_rule config stanza payload source_ip ports =
     (let timeout = or_default (st_fw_timeout stanza) (ds_default_fw_timeout (dc_daemon config));
          timeout = clamp_timeout timeout (ds_max_fw_timeout (dc_daemon config)) in
      \<lparr>ar_source_ip = source_ip, ar_ports = ports, ar_timeout = timeout,
       ar_comment = rule_comment payload\<rparr>)"

definition process_packet ::
  "('c, 'f) deps \<Rightarrow> packet_env \<Rightarrow> captured_packet \<Rightarrow> daemon_config \<Rightarrow> ('c, 'f) daemon_state
    \<Rightarrow> ((daemon_error + process_result) \<times> ('c, 'f) daemon_state) option" where
  "process_packet D env captured config s =
     (case match_packet (dp_libs D) (cp_data captured) (dc_access config) of
        None \<Rightarrow> None
      | Some NoMatch \<Rightarrow> Some (Ok PacketNoMatch, s)
      | Some (MatchRejected stanza_name reason) \<Rightarrow>
          Some (Ok (PacketRejected stanza_name (ProtoReason reason)), s)
      | Some (Matched stanza_name payload) \<Rightarrow> Some
          (case find_stanza config stanza_name of
             Err e \<Rightarrow> (Err e, s)
           | Ok stanza \<Rightarrow>
          (case validate_against_clock payload (now_unix (pe_now env)) (max_age_secs config)
                  DEFAULT_MAX_SKEW_SECS of
             Err e \<Rightarrow> (Ok (PacketRejected stanza_name (ProtoReason e)), s)
           | Ok _ \<Rightarrow>
               let (r, replay, disk) = check_and_insert (dp_lru D) (dp_ord D) (pe_now_replay env)
                     (pe_io env) (pl_nonce payload) (dm_replay s) (dm_disk s);
                   s = s\<lparr>dm_replay := replay, dm_disk := disk\<rparr> in
          (case r of
             Err e \<Rightarrow> (Ok (PacketRejected stanza_name (PersistFailed e)), s)
           | Ok False \<Rightarrow> (Ok (Replay stanza_name), s)
           | Ok True \<Rightarrow>
          (case pl_message payload of
             Access source_ip ports \<Rightarrow>
               (case check_policy (dp_conf D) stanza (cp_source_ip captured) source_ip ports of
                  Err reason \<Rightarrow> (Ok (PacketRejected stanza_name reason), s)
                | Ok _ \<Rightarrow>
                    let (r, fw) = fw_open_access (dp_fw D)
                          (build_rule config stanza payload source_ip ports) (dm_firewall s);
                        s = s\<lparr>dm_firewall := fw\<rparr> in
                    (case r of
                       Err e \<Rightarrow> (Err (FirewallErr e), s)
                     | Ok handle \<Rightarrow> (Ok (Installed stanza_name handle), s)))
           | _ \<Rightarrow> (Ok (PacketRejected stanza_name UnsupportedVariant), s))))))"

subsection \<open>What a packet is authorised to do\<close>

text \<open>
  The stanza that authenticates a packet: its key verifies the packet, and no earlier
  stanza's key does.
\<close>

definition authenticates :: "libs \<Rightarrow> bytes \<Rightarrow> access_stanza list \<Rightarrow> access_stanza \<Rightarrow> proto_error + spa_payload \<Rightarrow> bool" where
  "authenticates L wire stanzas stanza r \<longleftrightarrow>
     (\<exists>before after. stanzas = before @ stanza # after \<and>
        (\<forall>s \<in> set before. parse_packet L wire (as_bytes (st_master_key_base64 s)) = Some (Err HmacFailed)) \<and>
        parse_packet L wire (as_bytes (st_master_key_base64 stanza)) = Some r \<and> r \<noteq> Err HmacFailed)"

definition permits :: "conf_libs \<Rightarrow> access_stanza \<Rightarrow> ip_addr \<Rightarrow> ip_addr \<Rightarrow> port_proto list \<Rightarrow> bool" where
  "permits C stanza captured_ip source_ip ports \<longleftrightarrow>
     (st_require_source_match stanza \<longrightarrow> source_ip = captured_ip) \<and>
     (\<exists>spec \<in> set (st_source stanza). source_matches C spec captured_ip) \<and>
     set ports \<subseteq> set (st_open_ports stanza)"

text \<open>
  The packet \<open>captured\<close>, seen at time \<open>now\<close>, carries \<open>payload\<close> under the key of \<open>stanza\<close> and
  may have \<open>rule\<close> installed.
\<close>

definition authorised ::
  "libs \<Rightarrow> conf_libs \<Rightarrow> daemon_config \<Rightarrow> sys_time \<Rightarrow> captured_packet \<Rightarrow> access_stanza \<Rightarrow> spa_payload
    \<Rightarrow> access_rule \<Rightarrow> bool" where
  "authorised L C config now captured stanza payload rule \<longleftrightarrow>
     authenticates L (cp_data captured) (dc_access config) stanza (Ok payload) \<and>
     validate_against_clock payload (now_unix now) (max_age_secs config) DEFAULT_MAX_SKEW_SECS = Ok () \<and>
     (\<exists>source_ip ports.
        pl_message payload = Access source_ip ports \<and>
        permits C stanza (cp_source_ip captured) source_ip ports \<and>
        rule = \<lparr>ar_source_ip = source_ip, ar_ports = ports,
                ar_timeout = min (case st_fw_timeout stanza of Some t \<Rightarrow> t
                                  | None \<Rightarrow> ds_default_fw_timeout (dc_daemon config))
                               (ds_max_fw_timeout (dc_daemon config)),
                ar_comment = rule_comment payload\<rparr>)"

definition demo_stanza :: access_stanza where
  "demo_stanza = sample_stanza\<lparr>st_master_key_base64 := Base64Key demo_key\<rparr>"

definition demo_config :: daemon_config where
  "demo_config = sample_config\<lparr>dc_access := [demo_stanza]\<rparr>"

definition demo_packet :: captured_packet where
  "demo_packet = \<lparr>cp_source_ip = V4 0x0A000001, cp_data = demo_wire\<rparr>"

definition demo_deps :: "((nonce, u64) list_cache, mock_state) deps" where
  "demo_deps = \<lparr>dp_libs = demo_libs, dp_conf = demo_conf, dp_lru = list_lru, dp_ord = rev, dp_fw = mock_backend\<rparr>"

definition demo_env :: packet_env where
  "demo_env = \<lparr>pe_now = Some (from_secs 1010), pe_now_replay = Some (from_secs 1010), pe_io = no_fault\<rparr>"

definition demo_state :: "((nonce, u64) list_cache, mock_state) daemon_state" where
  "demo_state = \<lparr>dm_replay = set_persist_path ''/r'' (with_capacity list_lru 4), dm_disk = Map.empty,
     dm_firewall = snd (mock_init mock_default)\<rparr>"

subsection \<open>Lemmas\<close>

lemma match_packet_total: "\<exists>r. match_packet L wire stanzas = Some r"
proof (induction stanzas)
  case (Cons stanza stanzas)
  obtain r where "parse_packet L wire (as_bytes (st_master_key_base64 stanza)) = Some r"
    using parse_packet_total by blast
  then show ?case using Cons.IH by (auto split: sum.splits proto_error.splits)
qed simp

lemma authenticates_Cons:
  "authenticates L wire (s # ss) stanza r \<longleftrightarrow>
     (if parse_packet L wire (as_bytes (st_master_key_base64 s)) = Some (Err HmacFailed)
      then authenticates L wire ss stanza r
      else stanza = s \<and> parse_packet L wire (as_bytes (st_master_key_base64 s)) = Some r)"
  by (auto simp: authenticates_def Cons_eq_append_conv) (metis set_ConsD)

lemma authenticates_Nil [simp]: "\<not> authenticates L wire [] stanza r"
  by (simp add: authenticates_def)

lemma match_packet_Matched:
  "match_packet L wire stanzas = Some (Matched n p) \<longleftrightarrow>
     (\<exists>stanza. st_name stanza = n \<and> authenticates L wire stanzas stanza (Ok p))"
proof (induction stanzas)
  case (Cons s stanzas)
  then show ?case
    by (auto simp: authenticates_Cons split: option.splits sum.splits proto_error.splits)
qed simp

lemma match_packet_Rejected:
  "match_packet L wire stanzas = Some (MatchRejected n e) \<longleftrightarrow>
     (\<exists>stanza. st_name stanza = n \<and> authenticates L wire stanzas stanza (Err e))"
proof (induction stanzas)
  case (Cons s stanzas)
  then show ?case
    by (auto simp: authenticates_Cons split: option.splits sum.splits proto_error.splits)
qed simp

lemma authenticates_in: "authenticates L wire stanzas stanza r \<Longrightarrow> stanza \<in> set stanzas"
  by (auto simp: authenticates_def)

lemma authenticates_unique:
  "authenticates L wire ss s r \<Longrightarrow> authenticates L wire ss s' r' \<Longrightarrow> s' = s \<and> r' = r"
  by (induction ss) (auto simp: authenticates_Cons split: if_splits)

lemma find_stanza_distinct:
  assumes "distinct (map st_name (dc_access config))" "stanza \<in> set (dc_access config)"
  shows "find_stanza config (st_name stanza) = Ok stanza"
proof -
  have "List.find (\<lambda>s. st_name s = st_name stanza) ss = Some stanza"
    if "distinct (map st_name ss)" "stanza \<in> set ss" for ss
    using that by (induction ss) auto
  then show ?thesis using assms by (simp add: find_stanza_def)
qed

lemma check_ports_Ok: "check_ports allowed ports = Ok u \<longleftrightarrow> set ports \<subseteq> set allowed"
  by (induction ports) (auto simp: list_ex_iff)

lemma check_policy_Ok: "check_policy C stanza cap src ports = Ok u \<longleftrightarrow> permits C stanza cap src ports"
  by (auto simp: check_policy_def permits_def check_ports_Ok list_ex_iff)

lemma build_rule_eq:
  "build_rule config stanza payload source_ip ports =
     \<lparr>ar_source_ip = source_ip, ar_ports = ports,
      ar_timeout = min (case st_fw_timeout stanza of Some t \<Rightarrow> t
                        | None \<Rightarrow> ds_default_fw_timeout (dc_daemon config))
                     (ds_max_fw_timeout (dc_daemon config)),
      ar_comment = rule_comment payload\<rparr>"
  by (auto simp: build_rule_def clamp_timeout_def Let_def split: option.splits)

lemma authorised_unique:
  "authorised L C config now captured st p rule \<Longrightarrow> authorised L C config now captured st' p' rule' \<Longrightarrow>
     st' = st \<and> p' = p \<and> rule' = rule"
  using authenticates_unique by (fastforce simp: authorised_def)

lemma process_packet_authorised:
  assumes "authorised (dp_libs D) (dp_conf D) config (pe_now env) captured stanza payload rule"
    and "distinct (map st_name (dc_access config))"
  shows "process_packet D env captured config s = Some
    (let (r, replay, disk) = check_and_insert (dp_lru D) (dp_ord D) (pe_now_replay env)
           (pe_io env) (pl_nonce payload) (dm_replay s) (dm_disk s);
         s = s\<lparr>dm_replay := replay, dm_disk := disk\<rparr>;
         (q, fw) = fw_open_access (dp_fw D) rule (dm_firewall s)
     in case r of
          Err e \<Rightarrow> (Ok (PacketRejected (st_name stanza) (PersistFailed e)), s)
        | Ok False \<Rightarrow> (Ok (Replay (st_name stanza)), s)
        | Ok True \<Rightarrow> (map_err FirewallErr (and_then q (\<lambda>h. Ok (Installed (st_name stanza) h))),
                      s\<lparr>dm_firewall := fw\<rparr>))"
proof -
  obtain source_ip ports where a: "authenticates (dp_libs D) (cp_data captured) (dc_access config) stanza (Ok payload)"
    and v: "validate_against_clock payload (now_unix (pe_now env)) (max_age_secs config) DEFAULT_MAX_SKEW_SECS = Ok ()"
    and m: "pl_message payload = Access source_ip ports"
    and p: "check_policy (dp_conf D) stanza (cp_source_ip captured) source_ip ports = Ok ()"
    and r: "rule = build_rule config stanza payload source_ip ports"
    using assms(1) by (auto simp: authorised_def check_policy_Ok build_rule_eq)
  have "match_packet (dp_libs D) (cp_data captured) (dc_access config) = Some (Matched (st_name stanza) payload)"
    using a match_packet_Matched by blast
  moreover have "find_stanza config (st_name stanza) = Ok stanza"
    using find_stanza_distinct [OF assms(2) authenticates_in [OF a]] .
  ultimately show ?thesis
    by (auto simp: process_packet_def v m p r Let_def split: prod.splits sum.splits bool.splits)
qed

lemma process_packet_unauthorised:
  assumes "\<And>stanza payload rule.
      \<not> authorised (dp_libs D) (dp_conf D) config (pe_now env) captured stanza payload rule"
    and "distinct (map st_name (dc_access config))"
    and "process_packet D env captured config s = Some (r, s')"
  shows "dm_firewall s' = dm_firewall s \<and> (\<exists>res. r = Ok res \<and> (\<forall>n h. res \<noteq> Installed n h))"
proof -
  obtain mr where mr: "match_packet (dp_libs D) (cp_data captured) (dc_access config) = Some mr"
    using match_packet_total by blast
  show ?thesis
  proof (cases mr)
    case (Matched n payload)
    then obtain stanza where a: "st_name stanza = n"
      "authenticates (dp_libs D) (cp_data captured) (dc_access config) stanza (Ok payload)"
      using mr match_packet_Matched by blast
    have f: "find_stanza config n = Ok stanza"
      using find_stanza_distinct [OF assms(2) authenticates_in [OF a(2)]] a(1) by simp
    have "\<not> (validate_against_clock payload (now_unix (pe_now env)) (max_age_secs config) DEFAULT_MAX_SKEW_SECS = Ok () \<and>
        (\<exists>source_ip ports. pl_message payload = Access source_ip ports \<and>
          check_policy (dp_conf D) stanza (cp_source_ip captured) source_ip ports = Ok ()))"
      using assms(1) [of stanza payload] a(2) by (auto simp: authorised_def check_policy_Ok)
    then show ?thesis
      using assms(3) mr Matched f
      by (auto simp: process_packet_def Let_def split: sum.splits prod.splits bool.splits spa_message.splits)
  qed (use assms(3) mr in \<open>auto simp: process_packet_def\<close>)
qed

lemma process_packet_total: "\<exists>r s'. process_packet D env captured config s = Some (r, s')"
proof -
  obtain mr where "match_packet (dp_libs D) (cp_data captured) (dc_access config) = Some mr"
    using match_packet_total by blast
  then show ?thesis by (cases mr) (simp_all add: process_packet_def)
qed

lemma process_packet_Installed:
  assumes "distinct (map st_name (dc_access config))"
  shows "process_packet D env captured config s = Some (Ok (Installed n h), s') \<longleftrightarrow>
    (\<exists>stanza payload rule replay disk fw.
       authorised (dp_libs D) (dp_conf D) config (pe_now env) captured stanza payload rule \<and>
       st_name stanza = n \<and>
       check_and_insert (dp_lru D) (dp_ord D) (pe_now_replay env) (pe_io env) (pl_nonce payload)
         (dm_replay s) (dm_disk s) = (Ok True, replay, disk) \<and>
       fw_open_access (dp_fw D) rule (dm_firewall s) = (Ok h, fw) \<and>
       s' = s\<lparr>dm_replay := replay, dm_disk := disk, dm_firewall := fw\<rparr>)"
proof (cases "\<exists>stanza payload rule. authorised (dp_libs D) (dp_conf D) config (pe_now env) captured stanza payload rule")
  case True
  then obtain stanza payload rule
    where a: "authorised (dp_libs D) (dp_conf D) config (pe_now env) captured stanza payload rule" by blast
  obtain r replay disk where c: "check_and_insert (dp_lru D) (dp_ord D) (pe_now_replay env) (pe_io env)
      (pl_nonce payload) (dm_replay s) (dm_disk s) = (r, replay, disk)"
    by (metis prod_cases3)
  obtain q fw where f: "fw_open_access (dp_fw D) rule (dm_firewall s) = (q, fw)" by force
  have iff: "process_packet D env captured config s = Some (Ok (Installed n h), s') \<longleftrightarrow>
      st_name stanza = n \<and> r = Ok True \<and> q = Ok h \<and> s' = s\<lparr>dm_replay := replay, dm_disk := disk, dm_firewall := fw\<rparr>"
    unfolding process_packet_authorised [OF a assms] c
    by (cases q) (auto simp: f Let_def split: sum.splits bool.splits)
  show ?thesis (is "_ \<longleftrightarrow> ?spec")
  proof
    assume "process_packet D env captured config s = Some (Ok (Installed n h), s')"
    then show ?spec
      using iff a c f by (intro exI [of _ stanza] exI [of _ payload] exI [of _ rule] exI [of _ replay]
        exI [of _ disk] exI [of _ fw]) simp
  next
    assume ?spec
    then have "st_name stanza = n \<and> r = Ok True \<and> q = Ok h \<and>
        s' = s\<lparr>dm_replay := replay, dm_disk := disk, dm_firewall := fw\<rparr>"
      by (elim exE conjE) (drule authorised_unique [OF a], simp add: c f)
    then show "process_packet D env captured config s = Some (Ok (Installed n h), s')"
      using iff by simp
  qed
next
  case False
  then show ?thesis
    using process_packet_unauthorised [OF _ assms, of D env captured s "Ok (Installed n h)" s'] by auto
qed

lemma process_packet_new_pairs:
  assumes fc: "firewall_contract (dp_fw D) ok ready lets" and ok: "ok (dm_firewall s)"
    and d: "distinct (map st_name (dc_access config))"
    and p: "process_packet D env captured config s = Some (r, s')"
    and new: "(ip, pp) \<in> lets (dm_firewall s')" "(ip, pp) \<notin> lets (dm_firewall s)"
  shows "\<exists>stanza payload rule.
    authorised (dp_libs D) (dp_conf D) config (pe_now env) captured stanza payload rule \<and>
    (ip, pp) \<in> rule_pairs rule \<and> pp \<in> set (st_open_ports stanza) \<and>
    (st_require_source_match stanza \<longrightarrow> ip = cp_source_ip captured) \<and>
    fst (check_and_insert (dp_lru D) (dp_ord D) (pe_now_replay env) (pe_io env) (pl_nonce payload)
      (dm_replay s) (dm_disk s)) = Ok True"
proof -
  obtain stanza payload rule
    where a: "authorised (dp_libs D) (dp_conf D) config (pe_now env) captured stanza payload rule"
    using process_packet_unauthorised [OF _ d p] new by metis
  obtain q replay disk where c: "check_and_insert (dp_lru D) (dp_ord D) (pe_now_replay env) (pe_io env)
      (pl_nonce payload) (dm_replay s) (dm_disk s) = (q, replay, disk)"
    by (metis prod_cases3)
  obtain t fw where f: "fw_open_access (dp_fw D) rule (dm_firewall s) = (t, fw)" by force
  have "q = Ok True \<and> dm_firewall s' = fw"
    using p new unfolding process_packet_authorised [OF a d] c
    by (auto simp: f Let_def split: sum.splits bool.splits)
  moreover have "lets fw \<subseteq> lets (dm_firewall s) \<union> rule_pairs rule"
    using firewall_contract.open_adds_only [OF fc ok f] .
  ultimately have "(ip, pp) \<in> rule_pairs rule" "fst (q, replay, disk) = Ok True"
    using new by auto
  then show ?thesis
    using a c by (intro exI [of _ stanza] exI [of _ payload] exI [of _ rule])
      (auto simp: authorised_def rule_pairs_def permits_def)
qed

lemma demo_facts:
  "dc_access demo_config = [demo_stanza]" "st_name demo_stanza = ''ssh''" "st_fw_timeout demo_stanza = None"
  "ds_default_fw_timeout (dc_daemon demo_config) = from_secs 30"
  "ds_max_fw_timeout (dc_daemon demo_config) = from_secs 300"
  "max_age_secs demo_config = 120"
  "cp_data demo_packet = demo_wire" "cp_source_ip demo_packet = V4 0x0A000001"
  "pl_message demo_payload = Access (V4 0x0A000001) [port_proto_new Tcp 22]"
  "now_unix (Some (from_secs 1010)) = 1010"
  by (simp_all add: demo_config_def demo_stanza_def sample_config_def sample_stanza_def demo_packet_def
      demo_payload_def now_unix_def unix_secs_def max_age_secs_def config_defaults)

lemma demo_distinct: "distinct (map st_name (dc_access demo_config))"
  by (simp add: demo_facts)

lemma demo_contract: "firewall_contract (dp_fw demo_deps) (\<lambda>_. True) mk_initialized mock_lets_through"
  using mock.firewall_contract_axioms by (simp add: demo_deps_def)

lemma demo_store: "replay_store (dp_lru demo_deps) list_cache_inv (dp_ord demo_deps)"
  by (simp add: demo_deps_def list_replay.replay_store_axioms)

lemma demo_fresh:
  obtains c k where "check_and_insert list_lru rev (Some (from_secs 1010)) no_fault (pl_nonce demo_payload)
      (dm_replay demo_state) (dm_disk demo_state) = (Ok True, c, k)"
  by (simp add: demo_state_def check_and_insert_def cache_eval Let_def)

lemma demo_authorised:
  "authorised demo_libs demo_conf demo_config (Some (from_secs 1010)) demo_packet demo_stanza demo_payload
     \<lparr>ar_source_ip = V4 0x0A000001, ar_ports = [port_proto_new Tcp 22], ar_timeout = from_secs 30,
      ar_comment = rule_comment demo_payload\<rparr>"
proof -
  have "authenticates demo_libs demo_wire [demo_stanza] demo_stanza (Ok demo_payload)"
    using demo_parsed by (simp add: authenticates_Cons demo_stanza_def)
  moreover have "validate_against_clock demo_payload 1010 120 DEFAULT_MAX_SKEW_SECS = Ok ()"
    by (simp add: validate_against_clock_def demo_payload_def DEFAULT_MAX_SKEW_SECS_def)
  moreover have "permits demo_conf demo_stanza (V4 0x0A000001) (V4 0x0A000001) [port_proto_new Tcp 22]"
    by (simp add: permits_def demo_stanza_def sample_stanza_def source_matches_def demo_conf_def net_contains_def
        same_prefix_def)
  moreover have "min (from_secs 30) (from_secs 300) = from_secs 30" by (simp add: from_secs_def)
  ultimately show ?thesis
    by (simp add: authorised_def demo_facts)
qed

lemma demo_installs:
  "\<exists>h s'. process_packet demo_deps demo_env demo_packet demo_config demo_state = Some (Ok (Installed ''ssh'' h), s')"
proof -
  note d = demo_distinct
  obtain c k where "check_and_insert list_lru rev (Some (from_secs 1010)) no_fault (pl_nonce demo_payload)
      (dm_replay demo_state) (dm_disk demo_state) = (Ok True, c, k)"
    by (rule demo_fresh)
  moreover obtain h fw where "mock_open_access \<lparr>ar_source_ip = V4 0x0A000001, ar_ports = [port_proto_new Tcp 22],
      ar_timeout = from_secs 30, ar_comment = rule_comment demo_payload\<rparr> (dm_firewall demo_state) = (Ok h, fw)"
    by (simp add: demo_state_def mock_open_access_def mock_init_def Let_def)
  ultimately show ?thesis
    unfolding process_packet_Installed [OF d]
    using demo_authorised demo_facts(2)
    by (intro exI conjI) (simp_all add: demo_deps_def demo_env_def mock_backend_def)
qed

subsection \<open>Properties\<close>



text \<open>
  Whatever a packet holds and however its processing ends, the firewall lets through
  nothing more afterwards than what an authorised request of a fresh nonce asked for: ports
  that the authenticating stanza opens, and the packet's own source address when the stanza
  requires a source match.
\<close>

theorem process_packet_opens_only_authorised:
  assumes "firewall_contract (dp_fw D) ok ready lets" and "ok (dm_firewall s)"
    and "distinct (map st_name (dc_access config))"
    and "process_packet D env captured config s = Some (r, s')"
    and "(ip, pp) \<in> lets (dm_firewall s')" and "(ip, pp) \<notin> lets (dm_firewall s)"
  shows "\<exists>stanza payload rule.
    authorised (dp_libs D) (dp_conf D) config (pe_now env) captured stanza payload rule \<and>
    (ip, pp) \<in> rule_pairs rule \<and> pp \<in> set (st_open_ports stanza) \<and>
    (st_require_source_match stanza \<longrightarrow> ip = cp_source_ip captured) \<and>
    fst (check_and_insert (dp_lru D) (dp_ord D) (pe_now_replay env) (pe_io env) (pl_nonce payload)
      (dm_replay s) (dm_disk s)) = Ok True"
  using process_packet_new_pairs [OF assms] .

theorem process_packet_opens_only_authorised_witness:
  "\<exists>r s'. process_packet demo_deps demo_env demo_packet demo_config demo_state = Some (r, s') \<and>
     (\<forall>ip pp. (ip, pp) \<in> mock_lets_through (dm_firewall s') \<longrightarrow>
        ip = V4 0x0A000001 \<and> pp = port_proto_new Tcp 22)"
proof -
  obtain h s' where i: "process_packet demo_deps demo_env demo_packet demo_config demo_state =
      Some (Ok (Installed ''ssh'' h), s')"
    using demo_installs by blast
  note d = demo_distinct
  note m = demo_contract
  have e: "mock_lets_through (dm_firewall demo_state) = {}"
    by (simp add: demo_state_def mock_init_def mock_default_def mock_lets_through_def)
  have "ip = V4 0x0A000001 \<and> pp = port_proto_new Tcp 22"
    if new: "(ip, pp) \<in> mock_lets_through (dm_firewall s')" for ip pp
  proof -
    obtain st p rule
      where a: "authorised demo_libs demo_conf demo_config (Some (from_secs 1010)) demo_packet st p rule"
        and "(ip, pp) \<in> rule_pairs rule"
      using process_packet_opens_only_authorised [OF m _ d i new] e by (auto simp: demo_deps_def demo_env_def)
    then show ?thesis
      using authorised_unique [OF demo_authorised a] by (auto simp: rule_pairs_def)
  qed
  then show ?thesis using i by blast
qed

text \<open>
  A packet of illegal size is not matched against any key: it is reported as rejected
  under the name of the first stanza, although no stanza's HMAC was computed.
\<close>

theorem wrong_size_blames_first_stanza:
  assumes "length (as_bytes (st_master_key_base64 stanza)) = MASTER_KEY_LEN"
    and "length wire < MIN_PACKET_LEN \<or> MAX_PACKET_LEN < length wire"
  shows "\<exists>e. e \<noteq> HmacFailed \<and>
    match_packet L wire (stanza # stanzas) = Some (MatchRejected (st_name stanza) e)"
  using assms by (auto simp: parse_packet_def)

theorem wrong_size_blames_first_stanza_witness:
  "\<exists>e. match_packet demo_libs [] [demo_stanza, sample_stanza] = Some (MatchRejected ''ssh'' e)"
  using wrong_size_blames_first_stanza [of demo_stanza "[]" demo_libs "[sample_stanza]"]
  by (auto simp: demo_stanza_def demo_lengths const_defs sample_stanza_def)

end
