(* ===== verification/Privsep_Run.thy ===== *)
theory Privsep_Run
  imports Pipeline
begin

text \<open>
  The daemon in three processes (\<open>fwknox-daemon/src/validate.rs\<close>, \<open>privsep_run.rs\<close>): what the
  crypto worker checks, what the parent does with its replies, the parent's loop, and the
  three processes as one transition system in which every interleaving of their iterations
  is a run. The properties compare the division of labour with the single-process pipeline.
\<close>

subsection \<open>Validation in the crypto worker\<close>

definition validate_capture_msg ::
  "libs \<Rightarrow> conf_libs \<Rightarrow> daemon_config \<Rightarrow> sys_time \<Rightarrow> capture_msg \<Rightarrow> reject_reason crypto_msg option" where
  "validate_capture_msg L C config now msg =
     (case msg of Packet source_ip data \<Rightarrow>
       (case match_packet L data (dc_access config) of
          None \<Rightarrow> None
        | Some NoMatch \<Rightarrow> Some (CryptoNoMatch source_ip)
        | Some (MatchRejected _ reason) \<Rightarrow> Some (Rejected source_ip (ProtoReason reason))
        | Some (Matched stanza_name payload) \<Rightarrow> Some
            (case find_stanza config stanza_name of
               Err e \<Rightarrow> Rejected source_ip (InternalReason e)
             | Ok stanza \<Rightarrow>
            (case validate_against_clock payload (now_unix now) (max_age_secs config)
                    DEFAULT_MAX_SKEW_SECS of
               Err e \<Rightarrow> Rejected source_ip (ProtoReason e)
             | Ok _ \<Rightarrow>
            (case pl_message payload of
               Access payload_source ports \<Rightarrow>
                 (case check_policy C stanza source_ip payload_source ports of
                    Err reason \<Rightarrow> Rejected source_ip reason
                  | Ok _ \<Rightarrow> ValidRequest stanza_name source_ip payload)
             | _ \<Rightarrow> Rejected source_ip UnsupportedVariant)))))"

subsection \<open>The parent\<close>

definition handle_crypto_msg ::
  "('c, 'f) deps \<Rightarrow> packet_env \<Rightarrow> 'r crypto_msg \<Rightarrow> daemon_config \<Rightarrow> ('c, 'f) daemon_state
    \<Rightarrow> ('c, 'f) daemon_state" where
  "handle_crypto_msg D env msg config s =
     (case msg of
        CryptoNoMatch _ \<Rightarrow> s
      | Rejected _ _ \<Rightarrow> s
      | ValidRequest stanza_name source_ip payload \<Rightarrow>
          let (r, replay, disk) = check_and_insert (dp_lru D) (dp_ord D) (pe_now_replay env)
                (pe_io env) (pl_nonce payload) (dm_replay s) (dm_disk s);
              s = s\<lparr>dm_replay := replay, dm_disk := disk\<rparr> in
          (case r of
             Ok True \<Rightarrow>
               (case pl_message payload of
                  Access payload_src ports \<Rightarrow>
                    (case List.find (\<lambda>st. st_name st = stanza_name) (dc_access config) of
                       None \<Rightarrow> s
                     | Some stanza \<Rightarrow>
                         let timeout = or_default (st_fw_timeout stanza)
                               (ds_default_fw_timeout (dc_daemon config));
                             timeout = min timeout (ds_max_fw_timeout (dc_daemon config));
                             rule = \<lparr>ar_source_ip = payload_src, ar_ports = ports,
                                     ar_timeout = timeout, ar_comment = rule_comment payload\<rparr>;
                             (_, fw) = fw_open_access (dp_fw D) rule (dm_firewall s) in
                         s\<lparr>dm_firewall := fw\<rparr>)
                | _ \<Rightarrow> s)
           | _ \<Rightarrow> s))"

definition PRUNE_EVERY_TICKS :: u64 where "PRUNE_EVERY_TICKS = 600"

definition prune_replay ::
  "('c, 'f) deps \<Rightarrow> sys_time \<Rightarrow> write_io \<Rightarrow> daemon_config \<Rightarrow> ('c, 'f) daemon_state
    \<Rightarrow> ('c, 'f) daemon_state" where
  "prune_replay D now io config s =
     (let (_, replay, disk) = prune_older_than (dp_lru D) (dp_ord D) now io (rp_max_age (dc_replay config))
            (dm_replay s) (dm_disk s) in
      s\<lparr>dm_replay := replay, dm_disk := disk\<rparr>)"

text \<open>What one iteration of the parent's loop reads from the system.\<close>

record parent_input =
  pi_shutdown :: bool
  pi_recv :: "io_error option"
  pi_env :: packet_env
  pi_prune_now :: sys_time
  pi_prune_io :: write_io

text \<open>
  The parent's own state: its end of the socket pair, the daemon state, the tick counter, the
  shutdown flag and the process table.
\<close>

record ('c, 'f, 'p) parent_state =
  pa_reader :: "bytes list"
  pa_daemon :: "('c, 'f) daemon_state"
  pa_tick :: u64
  pa_shutdown :: bool
  pa_procs :: 'p

definition parent_recv ::
  "('c, 'f) deps \<Rightarrow> 'r crypto_msg codec \<Rightarrow> parent_input \<Rightarrow> daemon_config \<Rightarrow> ('c, 'f, 'p) parent_state
    \<Rightarrow> ('c, 'f, 'p) parent_state" where
  "parent_recv D N i config s =
     (let (r, q) = recv_msg N (pi_recv i) (pa_reader s); s = s\<lparr>pa_reader := q\<rparr> in
      case r of
        Ok msg \<Rightarrow> s\<lparr>pa_daemon := handle_crypto_msg D (pi_env i) msg config (pa_daemon s)\<rparr>
      | Err _ \<Rightarrow> s)"

text \<open>The body of the loop; the watchdog notification does not change the modelled state.\<close>

definition parent_iteration ::
  "('c, 'f) deps \<Rightarrow> 'p proc_ops \<Rightarrow> 'r crypto_msg codec \<Rightarrow> parent_input \<Rightarrow> daemon_config
    \<Rightarrow> ('c, 'f, 'p) parent_state \<Rightarrow> ('c, 'f, 'p) parent_state" where
  "parent_iteration D P N i config s =
     (let s = parent_recv D N i config s;
          s = s\<lparr>pa_tick := pa_tick s + 1\<rparr>;
          (r, procs) = try_reap_any_child P (pa_procs s);
          s = s\<lparr>pa_procs := procs\<rparr>;
          s = (case r of Ok (Some _) \<Rightarrow> s\<lparr>pa_shutdown := True\<rparr> | _ \<Rightarrow> s) in
      if pa_tick s mod PRUNE_EVERY_TICKS = 0
      then s\<lparr>pa_daemon := prune_replay D (pi_prune_now i) (pi_prune_io i) config (pa_daemon s)\<rparr>
      else s)"

text \<open>\<open>None\<close>: the loop is still running when the inputs end.\<close>

fun parent_loop ::
  "('c, 'f) deps \<Rightarrow> 'p proc_ops \<Rightarrow> 'r crypto_msg codec \<Rightarrow> parent_input list \<Rightarrow> daemon_config
    \<Rightarrow> ('c, 'f, 'p) parent_state \<Rightarrow> ('c, 'f, 'p) parent_state option" where
  "parent_loop D P N [] config s = None"
| "parent_loop D P N (i # is) config s =
     (let s = s\<lparr>pa_shutdown := pa_shutdown s \<or> pi_shutdown i\<rparr> in
      if pa_shutdown s then Some s
      else parent_loop D P N is config (parent_iteration D P N i config s))"

text \<open>After the loop, in both modes: flush if configured, save the cache; errors are logged only.\<close>

definition daemon_exit ::
  "('c, 'f) deps \<Rightarrow> write_io \<Rightarrow> daemon_config \<Rightarrow> ('c, 'f) daemon_state \<Rightarrow> ('c, 'f) daemon_state" where
  "daemon_exit D save_io config d =
     (let d = (if ds_flush_rules_at_exit (dc_daemon config)
               then d\<lparr>dm_firewall := snd (fw_flush (dp_fw D) (dm_firewall d))\<rparr> else d);
          (_, disk) = save_to_file (dp_lru D) (dp_ord D) save_io (dm_replay d)
            (rp_cache_path (dc_replay config)) (dm_disk d) in
      d\<lparr>dm_disk := disk\<rparr>)"

text \<open>
  The parent after the forks: installing the handlers and the read timeout may fail; after
  the loop both workers are terminated and reaped, the rules flushed if configured, and the
  replay cache saved.
\<close>

definition run_parent_loop ::
  "('c, 'f) deps \<Rightarrow> 'p proc_ops \<Rightarrow> 'r crypto_msg codec \<Rightarrow> io_error option \<Rightarrow> io_error option \<Rightarrow> write_io
    \<Rightarrow> forked_worker \<Rightarrow> forked_worker \<Rightarrow> parent_input list \<Rightarrow> daemon_config \<Rightarrow> ('c, 'f, 'p) parent_state
    \<Rightarrow> ((daemon_error + unit) \<times> ('c, 'f, 'p) parent_state) option" where
  "run_parent_loop D P N handlers set_timeout save_io capture_handle crypto_handle is config s =
     (case handlers of Some e \<Rightarrow> Some (Err (IoErr e), s) | None \<Rightarrow>
     (case set_timeout of Some e \<Rightarrow> Some (Err (PrivsepErr (PsIo e)), s) | None \<Rightarrow>
     (case parent_loop D P N is config s of None \<Rightarrow> None | Some s \<Rightarrow>
        let procs = snd (terminate_and_wait P capture_handle (pa_procs s));
            procs = snd (terminate_and_wait P crypto_handle procs) in
        Some (Ok (), s\<lparr>pa_procs := procs, pa_daemon := daemon_exit D save_io config (pa_daemon s)\<rparr>))))"

subsection \<open>Starting the processes\<close>

text \<open>Both modes flush if configured, ignoring errors, and then initialise the firewall.\<close>

definition firewall_startup ::
  "('c, 'f) deps \<Rightarrow> daemon_config \<Rightarrow> ('c, 'f) daemon_state \<Rightarrow> (daemon_error + unit) \<times> ('c, 'f) daemon_state" where
  "firewall_startup D config d =
     (let fw = (if ds_flush_rules_at_init (dc_daemon config) then snd (fw_flush (dp_fw D) (dm_firewall d))
                else dm_firewall d);
          (r, fw) = fw_init (dp_fw D) fw in
      (map_err FirewallErr r, d\<lparr>dm_firewall := fw\<rparr>))"

text \<open>
  The outcomes of creating the socket pairs and of the two forks. A fork returns the child's
  process id in the parent.
\<close>

record startup_io =
  su_pair1 :: "io_error option"
  su_pair2 :: "io_error option"
  su_fork_capture :: "nat + int"
  su_fork_crypto :: "nat + int"
  su_handlers :: "io_error option"
  su_set_timeout :: "io_error option"
  su_save :: write_io

definition run_parent_after_capture_fork ::
  "('c, 'f) deps \<Rightarrow> 'p proc_ops \<Rightarrow> 'r crypto_msg codec \<Rightarrow> startup_io \<Rightarrow> parent_input list \<Rightarrow> daemon_config \<Rightarrow> int
    \<Rightarrow> ('c, 'f, 'p) parent_state \<Rightarrow> ((daemon_error + unit) \<times> ('c, 'f, 'p) parent_state) option" where
  "run_parent_after_capture_fork D P N io is config capture_pid s =
     (let capture_handle = \<lparr>wk_pid = capture_pid, wk_name = ''capture''\<rparr> in
     (case su_fork_crypto io of
        Err e \<Rightarrow> Some (Err (PrivsepErr (PsSyscall ''fork'' e)), s\<lparr>pa_procs := drop_worker P capture_handle (pa_procs s)\<rparr>)
      | Ok child \<Rightarrow>
          let crypto_handle = \<lparr>wk_pid = child, wk_name = ''crypto''\<rparr> in
          map_option (\<lambda>(r, s). (r, s\<lparr>pa_procs :=
              drop_worker P capture_handle (drop_worker P crypto_handle (pa_procs s))\<rparr>))
            (run_parent_loop D P N (su_handlers io) (su_set_timeout io) (su_save io)
               capture_handle crypto_handle is config s)))"

definition privsep_run ::
  "('c, 'f) deps \<Rightarrow> 'p proc_ops \<Rightarrow> 'r crypto_msg codec \<Rightarrow> startup_io \<Rightarrow> parent_input list \<Rightarrow> daemon_config
    \<Rightarrow> ('c, 'f, 'p) parent_state \<Rightarrow> ((daemon_error + unit) \<times> ('c, 'f, 'p) parent_state) option" where
  "privsep_run D P N io is config s =
     (let (r, d) = firewall_startup D config (pa_daemon s); s = s\<lparr>pa_daemon := d\<rparr> in
     (case r of Err e \<Rightarrow> Some (Err e, s) | Ok _ \<Rightarrow>
     (case su_pair1 io of Some e \<Rightarrow> Some (Err (PrivsepErr (PsIo e)), s) | None \<Rightarrow>
     (case su_pair2 io of Some e \<Rightarrow> Some (Err (PrivsepErr (PsIo e)), s) | None \<Rightarrow>
     (case su_fork_capture io of
        Err e \<Rightarrow> Some (Err (PrivsepErr (PsSyscall ''fork'' e)), s)
      | Ok child \<Rightarrow> run_parent_after_capture_fork D P N io is config child s)))))"

text \<open>
  The children: handlers, panic hook, sandbox, loop, exit. A panic while sandboxing runs the
  hook, with the message and the write to standard error as arguments; the loops do not
  panic. \<open>None\<close>: still running.
\<close>

definition capture_child ::
  "'s sys_ops \<Rightarrow> (string \<Rightarrow> 's \<Rightarrow> (io_error + unit) \<times> 's) \<Rightarrow> string \<Rightarrow> target_arch \<Rightarrow> 'k key_lru
    \<Rightarrow> capture_msg codec \<Rightarrow> io_error option \<Rightarrow> io_error option
    \<Rightarrow> capture_input list \<Rightarrow> 's \<Rightarrow> 'k capture_worker \<Rightarrow> process_end option \<times> 'k capture_worker" where
  "capture_child S write_stderr info arch ops M handlers set_timeout is p w =
     (case handlers of Some _ \<Rightarrow> (Some (ExitCode 1), w) | None \<Rightarrow>
     (case apply_worker_sandbox S arch p of
        (None, p) \<Rightarrow> (Some (fst (install_worker_panic_hook ''capture'' write_stderr info p)), w)
      | (Some (Err _), _) \<Rightarrow> (Some (ExitCode 1), w)
      | (Some (Ok _), _) \<Rightarrow>
          (case run_capture_worker ops M set_timeout is w of
             (None, w) \<Rightarrow> (None, w)
           | (Some (Err _), w) \<Rightarrow> (Some (ExitCode 1), w)
           | (Some (Ok _), w) \<Rightarrow> (Some (ExitCode 0), w))))"

definition crypto_child ::
  "'s sys_ops \<Rightarrow> (string \<Rightarrow> 's \<Rightarrow> (io_error + unit) \<times> 's) \<Rightarrow> string \<Rightarrow> target_arch \<Rightarrow> libs \<Rightarrow> conf_libs
    \<Rightarrow> capture_msg codec \<Rightarrow> reject_reason crypto_msg codec
    \<Rightarrow> daemon_config \<Rightarrow> io_error option \<Rightarrow> io_error option \<Rightarrow> sys_time crypto_input list \<Rightarrow> 's
    \<Rightarrow> crypto_worker \<Rightarrow> process_end option \<times> crypto_worker" where
  "crypto_child S write_stderr info arch L C M N config handlers set_timeout is p w =
     (case handlers of Some _ \<Rightarrow> (Some (ExitCode 1), w) | None \<Rightarrow>
     (case apply_worker_sandbox S arch p of
        (None, p) \<Rightarrow> (Some (fst (install_worker_panic_hook ''crypto'' write_stderr info p)), w)
      | (Some (Err _), _) \<Rightarrow> (Some (ExitCode 1), w)
      | (Some (Ok _), _) \<Rightarrow>
          (case run_crypto_worker M N (validate_capture_msg L C config) set_timeout is w of
             (None, w) \<Rightarrow> (None, w)
           | (Some (Err _), w) \<Rightarrow> (Some (ExitCode 1), w)
           | (Some (Ok _), w) \<Rightarrow> (Some (ExitCode 0), w))))"

subsection \<open>The three processes together\<close>

text \<open>
  The state of all three processes. \<open>sm_passed\<close> records the packets that passed the limiter;
  no process reads it.
\<close>

record ('k, 'c, 'f, 'p) system =
  sm_limiter :: "'k rate_limiter"
  sm_to_crypto :: "bytes list"
  sm_parent :: "('c, 'f, 'p) parent_state"
  sm_capture_alive :: bool
  sm_crypto_alive :: bool
  sm_passed :: "captured_packet list"

definition passed_packet :: "'k key_lru \<Rightarrow> capture_input \<Rightarrow> 'k rate_limiter \<Rightarrow> captured_packet list" where
  "passed_packet ops i rl =
     (case ci_recv i of
        Ok (peer, datagram) \<Rightarrow>
          if \<not> ci_shutdown i \<and> fst (check ops (ci_sys_reset i) (ci_sys i) peer rl) = Pass
          then [\<lparr>cp_source_ip = peer, cp_data = take CAPTURE_BUF_LEN datagram\<rparr>] else []
      | Err _ \<Rightarrow> [])"

inductive system_step ::
  "'k key_lru \<Rightarrow> ('c, 'f) deps \<Rightarrow> 'p proc_ops \<Rightarrow> capture_msg codec \<Rightarrow> reject_reason crypto_msg codec
    \<Rightarrow> daemon_config \<Rightarrow> ('k, 'c, 'f, 'p) system \<Rightarrow> ('k, 'c, 'f, 'p) system \<Rightarrow> bool"
  for ops D P M N config where
  capture: "sm_capture_alive s \<Longrightarrow>
     capture_iteration ops M i \<lparr>cw_limiter = sm_limiter s, cw_to_crypto = sm_to_crypto s\<rparr> = (r, w) \<Longrightarrow>
     system_step ops D P M N config s
       (s\<lparr>sm_limiter := cw_limiter w, sm_to_crypto := cw_to_crypto w, sm_capture_alive := (r = None),
          sm_passed := sm_passed s @ passed_packet ops i (sm_limiter s)\<rparr>)"
| crypto: "sm_crypto_alive s \<Longrightarrow>
     crypto_iteration M N (validate_capture_msg (dp_libs D) (dp_conf D) config) i
       \<lparr>yw_from_capture = sm_to_crypto s, yw_to_parent = pa_reader (sm_parent s)\<rparr> = (r, w) \<Longrightarrow>
     system_step ops D P M N config s
       (s\<lparr>sm_to_crypto := yw_from_capture w, sm_parent := (sm_parent s)\<lparr>pa_reader := yw_to_parent w\<rparr>,
          sm_crypto_alive := (r = None)\<rparr>)"
| parent: "\<not> pa_shutdown (sm_parent s) \<Longrightarrow>
     system_step ops D P M N config s (s\<lparr>sm_parent := parent_iteration D P N i config (sm_parent s)\<rparr>)"
| signal: "system_step ops D P M N config s (s\<lparr>sm_parent := (sm_parent s)\<lparr>pa_shutdown := True\<rparr>\<rparr>)"

inductive system_reach ::
  "'k key_lru \<Rightarrow> ('c, 'f) deps \<Rightarrow> 'p proc_ops \<Rightarrow> capture_msg codec \<Rightarrow> reject_reason crypto_msg codec
    \<Rightarrow> daemon_config \<Rightarrow> ('k, 'c, 'f, 'p) system \<Rightarrow> ('k, 'c, 'f, 'p) system \<Rightarrow> bool"
  for ops D P M N config s0 where
  start: "system_reach ops D P M N config s0 s0"
| step: "system_reach ops D P M N config s0 s \<Longrightarrow> system_step ops D P M N config s t \<Longrightarrow>
     system_reach ops D P M N config s0 t"

text \<open>Before the first packet: both queues empty, both workers running.\<close>

definition system_initial :: "('k, 'c, 'f, 'p) system \<Rightarrow> bool" where
  "system_initial s \<longleftrightarrow> sm_to_crypto s = [] \<and> pa_reader (sm_parent s) = [] \<and> sm_passed s = []"

subsection \<open>A sample run\<close>

abbreviation demo_codec :: "reject_reason crypto_msg codec" where
  "demo_codec \<equiv> demo_reply_codec"

definition no_children :: "unit proc_ops" where
  "no_children = \<lparr>pr_kill = (\<lambda>_ _ p. (Err 3, p)), pr_waitpid = (\<lambda>_ _ p. (Err ECHILD, p))\<rparr>"

definition parent_of :: "('c, 'f) daemon_state \<Rightarrow> ('c, 'f, unit) parent_state" where
  "parent_of d = \<lparr>pa_reader = [], pa_daemon = d, pa_tick = 0, pa_shutdown = False, pa_procs = ()\<rparr>"

definition demo_parent :: "((nonce, u64) list_cache, mock_state, unit) parent_state" where
  "demo_parent = parent_of demo_state"

definition open_limiter :: "(source_key, token_bucket) list_cache rate_limiter" where
  "open_limiter = sample_limiter\<lparr>lim_inner := None\<rparr>"

definition system_of :: "('c, 'f) daemon_state \<Rightarrow> ((source_key, token_bucket) list_cache, 'c, 'f, unit) system" where
  "system_of d = \<lparr>sm_limiter = open_limiter, sm_to_crypto = [], sm_parent = parent_of d,
     sm_capture_alive = True, sm_crypto_alive = True, sm_passed = []\<rparr>"

definition demo_system ::
  "((source_key, token_bucket) list_cache, (nonce, u64) list_cache, mock_state, unit) system" where
  "demo_system = system_of demo_state"

definition demo_capture_input :: capture_input where
  "demo_capture_input = \<lparr>ci_shutdown = False, ci_recv = Ok (cp_source_ip demo_packet, cp_data demo_packet),
     ci_sys_reset = 0, ci_sys = 0, ci_send = None\<rparr>"

definition demo_crypto_input :: "sys_time crypto_input" where
  "demo_crypto_input = \<lparr>yi_shutdown = False, yi_recv = None, yi_env = pe_now demo_env, yi_send = None\<rparr>"

definition demo_reply :: "reject_reason crypto_msg" where
  "demo_reply = ValidRequest (st_name demo_stanza) (cp_source_ip demo_packet) demo_payload"

definition demo_parent_input :: parent_input where
  "demo_parent_input = \<lparr>pi_shutdown = False, pi_recv = None, pi_env = demo_env, pi_prune_now = None,
     pi_prune_io = no_fault\<rparr>"

subsection \<open>Lemmas\<close>

lemma validate_ValidRequest:
  assumes "distinct (map st_name (dc_access config))"
  shows "validate_capture_msg L C config now (Packet ip data) = Some (ValidRequest n src p) \<longleftrightarrow>
    src = ip \<and> (\<exists>stanza rule. st_name stanza = n \<and>
      authorised L C config now \<lparr>cp_source_ip = ip, cp_data = data\<rparr> stanza p rule)"
    (is "?lhs \<longleftrightarrow> ?rhs")
proof
  assume ?lhs
  then have m: "match_packet L data (dc_access config) = Some (Matched n p)" and src: "src = ip"
    by (auto simp: validate_capture_msg_def split: option.splits match_result.splits sum.splits spa_message.splits)
  then obtain stanza where st: "st_name stanza = n" "authenticates L data (dc_access config) stanza (Ok p)"
    using match_packet_Matched by blast
  have "find_stanza config n = Ok stanza"
    using find_stanza_distinct [OF assms authenticates_in [OF st(2)]] st(1) by simp
  then show ?rhs
    using \<open>?lhs\<close> m src st
    by (auto simp: validate_capture_msg_def authorised_def check_policy_Ok
        split: sum.splits spa_message.splits)
next
  assume ?rhs
  then obtain stanza rule where st: "src = ip" "st_name stanza = n"
    and a: "authorised L C config now \<lparr>cp_source_ip = ip, cp_data = data\<rparr> stanza p rule"
    by blast
  then have au: "authenticates L data (dc_access config) stanza (Ok p)" by (simp add: authorised_def)
  then have "match_packet L data (dc_access config) = Some (Matched n p)"
    using match_packet_Matched st(2) by blast
  moreover have "find_stanza config n = Ok stanza"
    using find_stanza_distinct [OF assms authenticates_in [OF au]] st(2) by simp
  moreover obtain si ports where "pl_message p = Access si ports" "check_policy C stanza ip si ports = Ok ()"
    using a by (auto simp: authorised_def check_policy_Ok)
  ultimately show ?lhs
    using a st by (simp add: validate_capture_msg_def authorised_def)
qed

lemma handle_ValidRequest:
  assumes "authorised L C config now captured stanza payload rule"
    and "distinct (map st_name (dc_access config))"
  shows "handle_crypto_msg D env (ValidRequest (st_name stanza) ip payload) config s =
    (let (r, replay, disk) = check_and_insert (dp_lru D) (dp_ord D) (pe_now_replay env)
           (pe_io env) (pl_nonce payload) (dm_replay s) (dm_disk s);
         s = s\<lparr>dm_replay := replay, dm_disk := disk\<rparr>
     in if r = Ok True then s\<lparr>dm_firewall := snd (fw_open_access (dp_fw D) rule (dm_firewall s))\<rparr> else s)"
proof -
  have "find_stanza config (st_name stanza) = Ok stanza"
    using find_stanza_distinct [OF assms(2)] assms(1) authenticates_in by (auto simp: authorised_def)
  then have "List.find (\<lambda>st. st_name st = st_name stanza) (dc_access config) = Some stanza"
    by (simp add: find_stanza_def)
  moreover obtain si ports where "pl_message payload = Access si ports"
    "rule = \<lparr>ar_source_ip = si, ar_ports = ports,
       ar_timeout = min (case st_fw_timeout stanza of Some t \<Rightarrow> t | None \<Rightarrow> ds_default_fw_timeout (dc_daemon config))
         (ds_max_fw_timeout (dc_daemon config)), ar_comment = rule_comment payload\<rparr>"
    using assms(1) by (auto simp: authorised_def)
  moreover have "(case v of None \<Rightarrow> a | Some x \<Rightarrow> x) = (case v of Some x \<Rightarrow> x | None \<Rightarrow> a)" for v :: "duration option" and a
    by (cases v) simp_all
  ultimately show ?thesis
    by (auto simp: handle_crypto_msg_def Let_def split: prod.splits sum.splits bool.splits)
qed

lemma handle_other:
  "handle_crypto_msg D env (CryptoNoMatch ip) config s = s"
  "handle_crypto_msg D env (Rejected ip r) config s = s"
  by (simp_all add: handle_crypto_msg_def)

lemma validate_total: "\<exists>m. validate_capture_msg L C config now msg = Some m"
proof -
  obtain ip data where "msg = Packet ip data" by (cases msg)
  moreover obtain mr where "match_packet L data (dc_access config) = Some mr"
    using match_packet_total by blast
  ultimately show ?thesis by (cases mr) (simp_all add: validate_capture_msg_def)
qed

lemma privsep_pipeline:
  assumes d: "distinct (map st_name (dc_access config))"
    and p: "process_packet D env captured config s = Some (r, s1)"
    and v: "validate_capture_msg (dp_libs D) (dp_conf D) config (pe_now env)
      (Packet (cp_source_ip captured) (cp_data captured)) = Some msg"
  shows "dm_firewall (handle_crypto_msg D env msg config s) = dm_firewall s1 \<and>
    handle_crypto_msg D env msg config s =
      (if \<exists>stanza payload rule. authorised (dp_libs D) (dp_conf D) config (pe_now env) captured stanza payload rule
       then s1 else s)"
proof -
  have eta: "\<lparr>cp_source_ip = cp_source_ip captured, cp_data = cp_data captured\<rparr> = captured" by simp
  show ?thesis
  proof (cases "\<exists>stanza payload rule. authorised (dp_libs D) (dp_conf D) config (pe_now env) captured stanza payload rule")
    case True
    then obtain stanza payload rule
      where a: "authorised (dp_libs D) (dp_conf D) config (pe_now env) captured stanza payload rule" by blast
    have "msg = ValidRequest (st_name stanza) (cp_source_ip captured) payload"
      using v validate_ValidRequest [OF d, of "dp_libs D" "dp_conf D" "pe_now env" "cp_source_ip captured" "cp_data captured"] a
      by (metis (full_types) captured_packet.surjective old.unit.exhaust option.inject)
    then show ?thesis
      using True p unfolding process_packet_authorised [OF a d]
      by (auto simp: handle_ValidRequest [OF a d] Let_def split: prod.splits sum.splits bool.splits)
  next
    case False
    have "handle_crypto_msg D env msg config s = s"
    proof (cases msg)
      case (ValidRequest n src p)
      then show ?thesis
        using v validate_ValidRequest [OF d] False eta by auto
    qed (simp_all add: handle_other)
    then show ?thesis
      using False process_packet_unauthorised [OF _ d p] by auto
  qed
qed

text \<open>
  The invariant of the three processes: what travels between them was made from packets that
  passed the limiter, and what the firewall lets through was there at the start or asked for
  by such a packet with authority.
\<close>

definition asked_for ::
  "libs \<Rightarrow> conf_libs \<Rightarrow> daemon_config \<Rightarrow> captured_packet list \<Rightarrow> (ip_addr \<times> port_proto) set" where
  "asked_for L C config packets =
     {pair. \<exists>captured \<in> set packets. \<exists>now stanza payload rule.
        authorised L C config now captured stanza payload rule \<and> pair \<in> rule_pairs rule}"

definition system_inv ::
  "('f \<Rightarrow> bool) \<Rightarrow> ('f \<Rightarrow> (ip_addr \<times> port_proto) set) \<Rightarrow> (ip_addr \<times> port_proto) set \<Rightarrow> ('c, 'f) deps
    \<Rightarrow> capture_msg codec \<Rightarrow> reject_reason crypto_msg codec \<Rightarrow> daemon_config \<Rightarrow> ('k, 'c, 'f, 'p) system \<Rightarrow> bool" where
  "system_inv ok lets before D M N config s \<longleftrightarrow>
     (\<forall>b \<in> set (sm_to_crypto s). \<exists>captured \<in> set (sm_passed s).
        cd_to_vec M (Packet (cp_source_ip captured) (cp_data captured)) = Ok b) \<and>
     (\<forall>b \<in> set (pa_reader (sm_parent s)). \<exists>captured \<in> set (sm_passed s). \<exists>now msg.
        validate_capture_msg (dp_libs D) (dp_conf D) config now
          (Packet (cp_source_ip captured) (cp_data captured)) = Some msg \<and> cd_to_vec N msg = Ok b) \<and>
     ok (dm_firewall (pa_daemon (sm_parent s))) \<and>
     lets (dm_firewall (pa_daemon (sm_parent s))) \<subseteq>
       before \<union> asked_for (dp_libs D) (dp_conf D) config (sm_passed s)"

lemma send_msg_queue:
  "send_msg M sent m q = (r, q') \<Longrightarrow> q' = q \<or> (\<exists>b. cd_to_vec M m = Ok b \<and> q' = q @ [b])"
  by (auto simp: send_msg_def map_err_eq_Ok split: sum.splits if_splits option.splits)

lemma recv_msg_queue:
  "recv_msg M got q = (r, q') \<Longrightarrow> set q' \<subseteq> set q \<and> (\<forall>m. r = Ok m \<longrightarrow> (\<exists>b \<in> set q. cd_from_slice M b = Ok m))"
  by (auto simp: recv_msg_def map_err_eq_Ok split: option.splits list.splits if_splits)

lemma capture_iteration_queue:
  assumes "capture_iteration ops M i w = (r, w')"
  shows "set (cw_to_crypto w') \<subseteq> set (cw_to_crypto w) \<union>
    {b. \<exists>captured \<in> set (passed_packet ops i (cw_limiter w)).
       cd_to_vec M (Packet (cp_source_ip captured) (cp_data captured)) = Ok b}"
proof (cases "ci_shutdown i")
  case True
  then show ?thesis using assms by (simp add: capture_iteration_def)
next
  case run: False
  show ?thesis
  proof (cases "ci_recv i")
    case (Inl e)
    then show ?thesis using assms run by (auto simp: capture_iteration_def split: if_splits)
  next
    case (Inr pd)
    obtain peer d where pd: "pd = (peer, d)" by force
    obtain dec rl where c: "check ops (ci_sys_reset i) (ci_sys i) peer (cw_limiter w) = (dec, rl)" by force
    obtain q rs where s: "send_msg M (ci_send i) (Packet peer (take CAPTURE_BUF_LEN d)) (cw_to_crypto w) = (rs, q)"
      by force
    show ?thesis
      using assms run Inr pd c s send_msg_queue [OF s]
      by (auto simp: capture_iteration_def passed_packet_def Let_def split: decision.splits sum.splits)
  qed
qed

lemma crypto_iteration_queues:
  assumes "crypto_iteration M N validate i w = (r, w')"
  shows "set (yw_from_capture w') \<subseteq> set (yw_from_capture w)"
    and "set (yw_to_parent w') \<subseteq> set (yw_to_parent w) \<union>
      {b. \<exists>a \<in> set (yw_from_capture w). \<exists>m reply. cd_from_slice M a = Ok m \<and>
        validate (yi_env i) m = Some reply \<and> cd_to_vec N reply = Ok b}"
proof -
  obtain rr q where v: "recv_msg M (yi_recv i) (yw_from_capture w) = (rr, q)" by force
  show "set (yw_from_capture w') \<subseteq> set (yw_from_capture w)"
    using assms v recv_msg_queue [OF v]
    by (auto simp: crypto_iteration_def Let_def split: if_splits sum.splits option.splits prod.splits)
  show "set (yw_to_parent w') \<subseteq> set (yw_to_parent w) \<union>
      {b. \<exists>a \<in> set (yw_from_capture w). \<exists>m reply. cd_from_slice M a = Ok m \<and>
        validate (yi_env i) m = Some reply \<and> cd_to_vec N reply = Ok b}"
    using assms v recv_msg_queue [OF v]
    by (auto simp: crypto_iteration_def Let_def split: if_splits sum.splits option.splits prod.splits
        dest!: send_msg_queue) blast+
qed

lemma authorised_asked_for:
  assumes "authorised L C config now captured stanza payload rule" and "captured \<in> set packets"
  shows "rule_pairs rule \<subseteq> asked_for L C config packets"
  using assms unfolding asked_for_def by blast

lemma asked_for_mono: "set ps \<subseteq> set qs \<Longrightarrow> asked_for L C config ps \<subseteq> asked_for L C config qs"
  unfolding asked_for_def by blast

lemma handle_crypto_msg_lets:
  assumes "firewall_contract (dp_fw D) ok ready lets" and "ok (dm_firewall s)"
    and "distinct (map st_name (dc_access config))"
    and "validate_capture_msg L C config now (Packet (cp_source_ip captured) (cp_data captured)) = Some msg"
  shows "ok (dm_firewall (handle_crypto_msg D env msg config s)) \<and>
    lets (dm_firewall (handle_crypto_msg D env msg config s)) \<subseteq>
      lets (dm_firewall s) \<union> asked_for L C config [captured]"
proof (cases msg)
  case (ValidRequest n src p)
  have eta: "\<lparr>cp_source_ip = cp_source_ip captured, cp_data = cp_data captured\<rparr> = captured" by simp
  obtain stanza rule where n: "n = st_name stanza" and a: "authorised L C config now captured stanza p rule"
    using assms(4) ValidRequest validate_ValidRequest [OF assms(3)] eta by auto
  obtain q fw where f: "fw_open_access (dp_fw D) rule (dm_firewall s) = (q, fw)" by force
  have "ok fw"
    using f firewall_contract.open_Ok [OF assms(1,2)] firewall_contract.open_Err [OF assms(1,2)] by (cases q) blast+
  moreover have "lets fw \<subseteq> lets (dm_firewall s) \<union> asked_for L C config [captured]"
    using firewall_contract.open_adds_only [OF assms(1,2) f] authorised_asked_for [OF a, of "[captured]"] by auto
  ultimately show ?thesis
    using assms(2) ValidRequest n
    by (auto simp: handle_ValidRequest [OF a assms(3)] f Let_def split: prod.splits)
qed (use assms(2) in \<open>simp_all add: handle_other\<close>)

lemma prune_replay_firewall [simp]: "dm_firewall (prune_replay D now io config d) = dm_firewall d"
  by (simp add: prune_replay_def Let_def split: prod.splits)

lemma parent_iteration_reader:
  "pa_reader (parent_iteration D P N i config s) = snd (recv_msg N (pi_recv i) (pa_reader s))"
  by (auto simp: parent_iteration_def parent_recv_def Let_def split: prod.splits sum.splits option.splits)

lemma parent_iteration_firewall:
  "dm_firewall (pa_daemon (parent_iteration D P N i config s)) =
     (case fst (recv_msg N (pi_recv i) (pa_reader s)) of
        Ok msg \<Rightarrow> dm_firewall (handle_crypto_msg D (pi_env i) msg config (pa_daemon s))
      | Err _ \<Rightarrow> dm_firewall (pa_daemon s))"
  by (auto simp: parent_iteration_def parent_recv_def Let_def split: prod.splits sum.splits option.splits)

lemma system_inv_capture:
  assumes "capture_iteration ops M i \<lparr>cw_limiter = sm_limiter s, cw_to_crypto = sm_to_crypto s\<rparr> = (r, w)"
    and inv: "system_inv ok lets before D M N config s"
  shows "system_inv ok lets before D M N config
    (s\<lparr>sm_limiter := cw_limiter w, sm_to_crypto := cw_to_crypto w, sm_capture_alive := (r = None),
       sm_passed := sm_passed s @ passed_packet ops i (sm_limiter s)\<rparr>)"
proof -
  have "set (cw_to_crypto w) \<subseteq> set (sm_to_crypto s) \<union>
      {b. \<exists>c \<in> set (passed_packet ops i (sm_limiter s)). cd_to_vec M (Packet (cp_source_ip c) (cp_data c)) = Ok b}"
    using capture_iteration_queue [OF assms(1)] by simp
  moreover have "asked_for (dp_libs D) (dp_conf D) config (sm_passed s) \<subseteq>
      asked_for (dp_libs D) (dp_conf D) config (sm_passed s @ passed_packet ops i (sm_limiter s))"
    by (intro asked_for_mono) simp
  ultimately show ?thesis
    using inv unfolding system_inv_def by (auto, blast+)
qed

lemma system_inv_crypto:
  assumes "crypto_iteration M N (validate_capture_msg (dp_libs D) (dp_conf D) config) i
      \<lparr>yw_from_capture = sm_to_crypto s, yw_to_parent = pa_reader (sm_parent s)\<rparr> = (r, w)"
    and inv: "system_inv ok lets before D M N config s" and cm: "msg_codec M"
  shows "system_inv ok lets before D M N config
    (s\<lparr>sm_to_crypto := yw_from_capture w, sm_parent := (sm_parent s)\<lparr>pa_reader := yw_to_parent w\<rparr>,
       sm_crypto_alive := (r = None)\<rparr>)"
proof -
  note q = crypto_iteration_queues [OF assms(1)]
  have "\<exists>c \<in> set (sm_passed s). \<exists>now msg. validate_capture_msg (dp_libs D) (dp_conf D) config now
      (Packet (cp_source_ip c) (cp_data c)) = Some msg \<and> cd_to_vec N msg = Ok b"
    if b: "b \<in> set (yw_to_parent w)" for b
  proof (cases "b \<in> set (pa_reader (sm_parent s))")
    case True
    then show ?thesis using inv by (simp add: system_inv_def)
  next
    case False
    then obtain a m reply where a: "a \<in> set (sm_to_crypto s)" "cd_from_slice M a = Ok m"
      and v: "validate_capture_msg (dp_libs D) (dp_conf D) config (yi_env i) m = Some reply" "cd_to_vec N reply = Ok b"
      using q(2) b by auto
    obtain c where "c \<in> set (sm_passed s)" "cd_to_vec M (Packet (cp_source_ip c) (cp_data c)) = Ok a"
      using inv a(1) by (auto simp: system_inv_def)
    then show ?thesis
      using msg_codec.decode_encode [OF cm] a(2) v by fastforce
  qed
  then show ?thesis
    using inv q(1) unfolding system_inv_def by auto
qed

lemma parent_iteration_lets:
  assumes inv: "system_inv ok lets before D M N config s"
    and fc: "firewall_contract (dp_fw D) ok ready lets" and cn: "msg_codec N"
    and d: "distinct (map st_name (dc_access config))"
    and fw: "fw = dm_firewall (pa_daemon (parent_iteration D P N i config (sm_parent s)))"
  shows "ok fw \<and> lets fw \<subseteq> before \<union> asked_for (dp_libs D) (dp_conf D) config (sm_passed s)"
proof -
  obtain r q where v: "recv_msg N (pi_recv i) (pa_reader (sm_parent s)) = (r, q)" by force
  have f: "ok (dm_firewall (pa_daemon (sm_parent s)))" using inv by (simp add: system_inv_def)
  show ?thesis
  proof (cases r)
    case (Inl e)
    then show ?thesis using inv v by (simp add: fw parent_iteration_firewall system_inv_def)
  next
    case (Inr msg)
    then obtain b where "b \<in> set (pa_reader (sm_parent s))" "cd_from_slice N b = Ok msg"
      using recv_msg_queue [OF v] by blast
    moreover from this(1) obtain c now m where c: "c \<in> set (sm_passed s)"
      "validate_capture_msg (dp_libs D) (dp_conf D) config now (Packet (cp_source_ip c) (cp_data c)) = Some m"
      "cd_to_vec N m = Ok b"
      using inv by (auto simp: system_inv_def)
    ultimately have "m = msg" using msg_codec.decode_encode [OF cn] by fastforce
    moreover have "asked_for (dp_libs D) (dp_conf D) config [c] \<subseteq>
        asked_for (dp_libs D) (dp_conf D) config (sm_passed s)"
      using c(1) by (intro asked_for_mono) simp
    ultimately show ?thesis
      using handle_crypto_msg_lets [OF fc f d c(2), of "pi_env i"] inv v Inr
      by (auto simp: fw parent_iteration_firewall system_inv_def)
  qed
qed

lemma system_inv_step:
  assumes step: "system_step ops D P M N config s t"
    and inv: "system_inv ok lets before D M N config s"
    and fc: "firewall_contract (dp_fw D) ok ready lets" and cm: "msg_codec M" and cn: "msg_codec N"
    and d: "distinct (map st_name (dc_access config))"
  shows "system_inv ok lets before D M N config t"
  using step
proof cases
  case (capture i r w)
  then show ?thesis using system_inv_capture [OF capture(3) inv] by simp
next
  case (crypto i r w)
  then show ?thesis using system_inv_crypto [OF crypto(3) inv cm] by simp
next
  case (parent i)
  have "set (pa_reader (sm_parent t)) \<subseteq> set (pa_reader (sm_parent s))"
    using recv_msg_queue [OF surjective_pairing, of N "pi_recv i" "pa_reader (sm_parent s)"]
    by (simp add: parent(1) parent_iteration_reader)
  then show ?thesis
    using inv parent_iteration_lets [OF inv fc cn d refl, of P i] parent(1) by (auto simp: system_inv_def)
next
  case signal
  then show ?thesis using inv by (simp add: system_inv_def)
qed

lemma system_inv_reach:
  assumes "system_reach ops D P M N config s0 s" and "system_inv ok lets before D M N config s0"
    and "firewall_contract (dp_fw D) ok ready lets" and "msg_codec M" and "msg_codec N"
    and "distinct (map st_name (dc_access config))"
  shows "system_inv ok lets before D M N config s"
  using assms(1)
proof induction
  case start
  show ?case by (rule assms(2))
next
  case (step s t)
  then show ?case using system_inv_step [OF _ _ assms(3-6)] by blast
qed

lemma demo_capture:
  "\<exists>w. capture_iteration list_lru demo_packet_codec demo_capture_input
       \<lparr>cw_limiter = open_limiter, cw_to_crypto = []\<rparr> = (None, w) \<and>
     cw_to_crypto w = [ip_to_bytes (cp_source_ip demo_packet) @ demo_wire]"
  "passed_packet list_lru demo_capture_input open_limiter = [demo_packet]"
proof -
  have t: "take CAPTURE_BUF_LEN demo_wire = demo_wire"
    using demo_wire_built(2) by (simp add: CAPTURE_BUF_LEN_def)
  have c: "fst (check list_lru a b ip open_limiter) = Pass" for a b ip
    by (simp add: check_def open_limiter_def)
  obtain rl where "check list_lru 0 0 (cp_source_ip demo_packet) open_limiter = (Pass, rl)"
    using c by (metis prod.collapse)
  moreover have "length (ip_to_bytes ip @ demo_wire) \<le> MAX_IPC_MSG" for ip
    using ip_to_bytes_size(1) [of ip] demo_wire_built(2) by (simp add: MAX_IPC_MSG_def)
  ultimately show "\<exists>w. capture_iteration list_lru demo_packet_codec demo_capture_input
       \<lparr>cw_limiter = open_limiter, cw_to_crypto = []\<rparr> = (None, w) \<and>
     cw_to_crypto w = [ip_to_bytes (cp_source_ip demo_packet) @ demo_wire]"
    by (simp add: capture_iteration_def demo_capture_input_def t demo_facts send_msg_def demo_packet_codec_def
        Let_def not_less del: length_append)
  show "passed_packet list_lru demo_capture_input open_limiter = [demo_packet]"
    by (simp add: passed_packet_def demo_capture_input_def c t demo_packet_def)
qed

lemma demo_validated:
  "validate_capture_msg demo_libs demo_conf demo_config (Some (from_secs 1010))
     (Packet (cp_source_ip demo_packet) demo_wire) = Some (ValidRequest ''ssh'' (cp_source_ip demo_packet) demo_payload)"
proof -
  note d = demo_distinct
  have "\<lparr>cp_source_ip = cp_source_ip demo_packet, cp_data = demo_wire\<rparr> = demo_packet"
    by (simp add: demo_packet_def)
  then show ?thesis
    unfolding validate_ValidRequest [OF d] using demo_authorised demo_facts(2) by metis
qed

lemma demo_crypto:
  "\<exists>w. crypto_iteration demo_packet_codec demo_codec (validate_capture_msg demo_libs demo_conf demo_config) demo_crypto_input
       \<lparr>yw_from_capture = [ip_to_bytes (cp_source_ip demo_packet) @ demo_wire], yw_to_parent = []\<rparr> = (None, w) \<and>
     yw_from_capture w = [] \<and> yw_to_parent w = [1 # ip_to_bytes (cp_source_ip demo_packet)]"
proof -
  have "length (ip_to_bytes ip @ demo_wire) \<le> MAX_IPC_MSG" "length (1 # ip_to_bytes ip) \<le> MAX_IPC_MSG"
    "ip_to_bytes ip @ demo_wire \<noteq> []" for ip
    using ip_to_bytes_size [of ip] demo_wire_built(2) by (simp_all add: MAX_IPC_MSG_def)
  then show ?thesis
    using demo_validated
    by (simp add: crypto_iteration_def demo_crypto_input_def recv_msg_def send_msg_def demo_packet_codec_def
        demo_reply_codec_def demo_env_def Let_def not_less ip_to_bytes_size
        del: length_append append_is_Nil_conv)
qed

lemma demo_parent_handles:
  "pa_daemon (parent_iteration D no_children demo_codec demo_parent_input config
     ((parent_of d)\<lparr>pa_reader := [1 # ip_to_bytes (cp_source_ip demo_packet)]\<rparr>)) =
   handle_crypto_msg D demo_env demo_reply config d"
proof -
  have "length (1 # ip_to_bytes ip) \<le> MAX_IPC_MSG" for ip
    using ip_to_bytes_size [of ip] by (simp add: MAX_IPC_MSG_def)
  then have "recv_msg demo_codec None [1 # ip_to_bytes (cp_source_ip demo_packet)] = (Ok demo_reply, [])"
    using ip_bytes_roundtrip [of "cp_source_ip demo_packet" "[]"]
    by (simp add: recv_msg_def demo_reply_codec_def demo_facts not_less demo_reply_def)
  then show ?thesis
    by (simp add: parent_iteration_def parent_recv_def demo_parent_input_def parent_of_def PRUNE_EVERY_TICKS_def
        case_prod_beta Let_def split: sum.split option.split)
qed

text \<open>With any firewall and cache, the sample packet gets through the three processes.\<close>

lemma demo_reach_any:
  assumes "dp_libs D = demo_libs" "dp_conf D = demo_conf"
  shows "\<exists>s. system_reach list_lru D no_children demo_packet_codec demo_codec demo_config (system_of d) s \<and>
     pa_daemon (sm_parent s) = handle_crypto_msg D demo_env demo_reply demo_config d"
proof -
  obtain w1 where w1: "capture_iteration list_lru demo_packet_codec demo_capture_input
      \<lparr>cw_limiter = open_limiter, cw_to_crypto = []\<rparr> = (None, w1)"
    "cw_to_crypto w1 = [ip_to_bytes (cp_source_ip demo_packet) @ demo_wire]"
    using demo_capture(1) by blast
  define s1 where "s1 = (system_of d)\<lparr>sm_limiter := cw_limiter w1, sm_to_crypto := cw_to_crypto w1,
    sm_capture_alive := True, sm_passed := [demo_packet]\<rparr>"
  have r1: "system_step list_lru D no_children demo_packet_codec demo_codec demo_config (system_of d) s1"
    using system_step.capture [of "system_of d" list_lru demo_packet_codec demo_capture_input None w1] w1 demo_capture(2)
    by (simp add: s1_def system_of_def)
  obtain w2 where w2: "crypto_iteration demo_packet_codec demo_codec
      (validate_capture_msg demo_libs demo_conf demo_config) demo_crypto_input
      \<lparr>yw_from_capture = [ip_to_bytes (cp_source_ip demo_packet) @ demo_wire], yw_to_parent = []\<rparr> = (None, w2)"
    "yw_to_parent w2 = [1 # ip_to_bytes (cp_source_ip demo_packet)]"
    using demo_crypto by blast
  define s2 where "s2 = s1\<lparr>sm_to_crypto := yw_from_capture w2, sm_parent := (parent_of d)\<lparr>pa_reader := yw_to_parent w2\<rparr>,
    sm_crypto_alive := True\<rparr>"
  have r2: "system_step list_lru D no_children demo_packet_codec demo_codec demo_config s1 s2"
    using system_step.crypto [of s1 demo_packet_codec demo_codec D demo_config demo_crypto_input None w2] w1 w2
    by (simp add: s1_def s2_def system_of_def parent_of_def assms)
  define s3 where "s3 = s2\<lparr>sm_parent := parent_iteration D no_children demo_codec demo_parent_input
    demo_config (sm_parent s2)\<rparr>"
  have r3: "system_step list_lru D no_children demo_packet_codec demo_codec demo_config s2 s3"
    unfolding s3_def by (rule system_step.parent) (simp add: s2_def parent_of_def)
  have "pa_daemon (sm_parent s3) = handle_crypto_msg D demo_env demo_reply demo_config d"
    using demo_parent_handles [of D demo_config d] w2(2) by (simp add: s3_def s2_def)
  then show ?thesis
    using r1 r2 r3 system_reach.intros by metis
qed

text \<open>And is honoured if its nonce is fresh.\<close>

lemma demo_handled:
  assumes "check_and_insert (dp_lru D) (dp_ord D) (Some (from_secs 1010)) no_fault (pl_nonce demo_payload)
      (dm_replay d) (dm_disk d) = (Ok True, c, k)"
  shows "dm_firewall (handle_crypto_msg D demo_env demo_reply demo_config d) =
    snd (fw_open_access (dp_fw D) \<lparr>ar_source_ip = V4 0x0A000001, ar_ports = [port_proto_new Tcp 22],
      ar_timeout = from_secs 30, ar_comment = rule_comment demo_payload\<rparr> (dm_firewall d))"
  using assms by (simp add: demo_reply_def handle_ValidRequest [OF demo_authorised demo_distinct] demo_env_def)

lemma demo_reach:
  "\<exists>s. system_reach list_lru demo_deps no_children demo_packet_codec demo_codec demo_config demo_system s \<and>
     mock_lets_through (dm_firewall (pa_daemon (sm_parent s))) = {(V4 0x0A000001, port_proto_new Tcp 22)}"
proof -
  obtain s where s: "system_reach list_lru demo_deps no_children demo_packet_codec demo_codec demo_config demo_system s"
    "pa_daemon (sm_parent s) = handle_crypto_msg demo_deps demo_env demo_reply demo_config demo_state"
    using demo_reach_any [of demo_deps demo_state] by (auto simp: demo_deps_def demo_system_def)
  obtain c k where "check_and_insert list_lru rev (Some (from_secs 1010)) no_fault (pl_nonce demo_payload)
      (dm_replay demo_state) (dm_disk demo_state) = (Ok True, c, k)"
    by (rule demo_fresh)
  then have "mock_lets_through (dm_firewall (pa_daemon (sm_parent s))) = {(V4 0x0A000001, port_proto_new Tcp 22)}"
    using demo_handled [of demo_deps demo_state c k]
    by (simp add: s(2) demo_deps_def mock_backend_def demo_state_def mock_open_access_def mock_init_def mock_default_def
        mock_lets_through_def rule_pairs_def Let_def)
  then show ?thesis using s(1) by blast
qed

lemma system_initial_inv:
  "system_initial s \<Longrightarrow> ok (dm_firewall (pa_daemon (sm_parent s))) \<Longrightarrow>
     system_inv ok lets (lets (dm_firewall (pa_daemon (sm_parent s)))) D M N config s"
  by (simp add: system_initial_def system_inv_def)

subsection \<open>Properties\<close>

text \<open>
  C6. In the three-process daemon no interleaving of the capture worker, the crypto worker and
  the parent lets anything through that was not asked for with authority: in every reachable
  state, a pair that the firewall lets through and did not at the start belongs to a rule
  that the configuration authorises for a packet which passed the rate limiter.
\<close>

theorem privsep_opens_only_authorised:
  assumes "firewall_contract (dp_fw D) ok ready lets" and "msg_codec M" and "msg_codec N"
    and "distinct (map st_name (dc_access config))"
    and "system_initial s0" and "ok (dm_firewall (pa_daemon (sm_parent s0)))"
    and "system_reach ops D P M N config s0 s"
    and "(ip, pp) \<in> lets (dm_firewall (pa_daemon (sm_parent s)))"
    and "(ip, pp) \<notin> lets (dm_firewall (pa_daemon (sm_parent s0)))"
  shows "\<exists>captured \<in> set (sm_passed s). \<exists>now stanza payload rule.
    authorised (dp_libs D) (dp_conf D) config now captured stanza payload rule \<and> (ip, pp) \<in> rule_pairs rule"
proof -
  have "system_inv ok lets (lets (dm_firewall (pa_daemon (sm_parent s0)))) D M N config s0"
    using assms(5,6) by (rule system_initial_inv)
  then have "system_inv ok lets (lets (dm_firewall (pa_daemon (sm_parent s0)))) D M N config s"
    using system_inv_reach [OF assms(7) _ assms(1-4)] by blast
  then show ?thesis
    using assms(8,9) unfolding system_inv_def asked_for_def by blast
qed

theorem privsep_opens_only_authorised_witness:
  "\<exists>s captured now stanza payload rule.
     system_reach list_lru demo_deps no_children demo_packet_codec demo_codec demo_config demo_system s \<and>
     captured \<in> set (sm_passed s) \<and>
     authorised demo_libs demo_conf demo_config now captured stanza payload rule \<and>
     (V4 0x0A000001, port_proto_new Tcp 22) \<in> rule_pairs rule"
proof -
  obtain s where s: "system_reach list_lru demo_deps no_children demo_packet_codec demo_codec demo_config demo_system s"
    "(V4 0x0A000001, port_proto_new Tcp 22) \<in> mock_lets_through (dm_firewall (pa_daemon (sm_parent s)))"
    using demo_reach by blast
  note m = demo_contract
  have "distinct (map st_name (dc_access demo_config))" "system_initial demo_system"
    "(V4 0x0A000001, port_proto_new Tcp 22) \<notin> mock_lets_through (dm_firewall (pa_daemon (sm_parent demo_system)))"
    by (simp_all add: demo_facts system_initial_def demo_system_def system_of_def parent_of_def demo_state_def mock_init_def
        mock_default_def mock_lets_through_def)
  then show ?thesis
    using privsep_opens_only_authorised [OF m demo_packets.msg_codec_axioms demo_replies.msg_codec_axioms _ _ _ s]
      s(1) by (fastforce simp: demo_deps_def)
qed

text \<open>
  C15. Dividing the work between crypto worker and parent does not change what is opened: for
  the same packet, clock and I/O outcomes, validating in the worker and handling the reply
  in the parent leaves the same firewall as the single-process pipeline, and the same state
  altogether when the packet is authorised. For a packet that is not, the parent changes
  nothing, while the pipeline may have recorded its nonce.
\<close>

theorem privsep_matches_pipeline:
  assumes "distinct (map st_name (dc_access config))"
    and "process_packet D env captured config s = Some (r, s1)"
    and "validate_capture_msg (dp_libs D) (dp_conf D) config (pe_now env)
      (Packet (cp_source_ip captured) (cp_data captured)) = Some msg"
  shows "dm_firewall (handle_crypto_msg D env msg config s) = dm_firewall s1 \<and>
    handle_crypto_msg D env msg config s =
      (if \<exists>stanza payload rule. authorised (dp_libs D) (dp_conf D) config (pe_now env) captured stanza payload rule
       then s1 else s)"
  using privsep_pipeline [OF assms] .

theorem privsep_matches_pipeline_witness:
  "\<exists>r s1 msg. process_packet demo_deps demo_env demo_packet demo_config demo_state = Some (r, s1) \<and>
     validate_capture_msg demo_libs demo_conf demo_config (pe_now demo_env)
       (Packet (cp_source_ip demo_packet) (cp_data demo_packet)) = Some msg \<and>
     handle_crypto_msg demo_deps demo_env msg demo_config demo_state = s1"
proof -
  obtain r s1 where p: "process_packet demo_deps demo_env demo_packet demo_config demo_state = Some (r, s1)"
    using process_packet_total by blast
  have v: "validate_capture_msg (dp_libs demo_deps) (dp_conf demo_deps) demo_config (pe_now demo_env)
      (Packet (cp_source_ip demo_packet) (cp_data demo_packet)) =
      Some (ValidRequest ''ssh'' (cp_source_ip demo_packet) demo_payload)"
    using demo_validated by (simp add: demo_deps_def demo_env_def demo_facts)
  have "distinct (map st_name (dc_access demo_config))" by (simp add: demo_facts)
  moreover have "authorised (dp_libs demo_deps) (dp_conf demo_deps) demo_config (pe_now demo_env) demo_packet demo_stanza
      demo_payload \<lparr>ar_source_ip = V4 0x0A000001, ar_ports = [port_proto_new Tcp 22], ar_timeout = from_secs 30,
        ar_comment = rule_comment demo_payload\<rparr>"
    using demo_authorised by (simp add: demo_deps_def demo_env_def)
  ultimately have "handle_crypto_msg demo_deps demo_env
      (ValidRequest ''ssh'' (cp_source_ip demo_packet) demo_payload :: reject_reason crypto_msg) demo_config demo_state = s1"
    using privsep_matches_pipeline [OF _ p v] by auto
  then show ?thesis
    using p v by (intro exI [of _ r] exI [of _ s1] exI [of _ "ValidRequest ''ssh'' (cp_source_ip demo_packet) demo_payload"])
      (simp add: demo_deps_def)
qed

text \<open>
  C23. A worker touches a packet only inside its sandbox: if the capture child or the crypto
  child has changed its limiter or its queues, then before that the kernel fully enforced a
  Landlock ruleset without any allowed path and accepted a seccomp filter that kills the
  process on every system call that is not listed, among them those to open files, create
  sockets, run programs or signal other processes.
\<close>

theorem workers_run_only_sandboxed:
  assumes "snd (capture_child S write_stderr info arch ops M h t is p w) \<noteq> w \<or>
    snd (crypto_child S write_stderr info arch L C M N config h t js p v) \<noteq> v"
  shows "\<exists>q1 q2 q3 f p'. sy_restrict_self S [] q1 = (Ok FullyEnforced, q2) \<and> sy_apply_filter S f q3 = (Ok (), p') \<and>
    (\<forall>nr. filter_action f nr = (if nr \<in> set (worker_syscall_list arch) then Allow else KillProcess)) \<and>
    (\<forall>nr \<in> set forbidden_syscalls. filter_action f nr = KillProcess)"
proof -
  obtain p' where "apply_worker_sandbox S arch p = (Some (Ok ()), p')"
    using assms by (cases "apply_worker_sandbox S arch p")
      (auto simp: capture_child_def crypto_child_def split: option.splits sum.splits)
  from worker_sandbox_fails_closed [OF this] show ?thesis by blast
qed

theorem workers_run_only_sandboxed_witness:
  "snd (capture_child (demo_sys FullyEnforced) (\<lambda>_ p. (Ok (), p)) [] X86_64 list_lru demo_packet_codec None None
     [demo_capture_input] root_process \<lparr>cw_limiter = open_limiter, cw_to_crypto = []\<rparr>)
     \<noteq> \<lparr>cw_limiter = open_limiter, cw_to_crypto = []\<rparr> \<and>
   (\<exists>q1 q2. sy_restrict_self (demo_sys FullyEnforced) [] q1 = (Ok FullyEnforced, q2))"
proof -
  obtain p' where "apply_worker_sandbox (demo_sys FullyEnforced) X86_64 root_process = (Some (Ok ()), p')"
    by (simp add: apply_worker_sandbox_def landlock_apply_def install_worker_filter_def worker_filter_def
        sb_bind_def sb_call_def sb_return_def sb_lift_def demo_sys_def Let_def landlock_verdict_def
        classify_status_def)
  then have "snd (capture_child (demo_sys FullyEnforced) (\<lambda>_ p. (Ok (), p)) [] X86_64 list_lru demo_packet_codec None None
     [demo_capture_input] root_process \<lparr>cw_limiter = open_limiter, cw_to_crypto = []\<rparr>)
     \<noteq> \<lparr>cw_limiter = open_limiter, cw_to_crypto = []\<rparr>"
    using demo_capture(1) by (auto simp: capture_child_def run_capture_worker_def)
  with workers_run_only_sandboxed [OF disjI1 [OF this]] show ?thesis by blast
qed

end
