(* ===== verification/Freshness.thy ===== *)
theory Freshness
  imports Privsep_Run
begin

text \<open>
  The daemon state over time, in either mode: the actions that the loops perform on it, and
  why a packet is acted on at most once. The clock check bounds how long a packet stays
  valid, the replay cache bounds how long its nonce is remembered; the two fit together
  when the retention of the cache covers the validity of a packet.
\<close>

subsection \<open>Actions\<close>

text \<open>
  What happens to the daemon state: the single-process pipeline handles a packet, the parent
  handles a reply of the crypto worker, either loop prunes the replay cache.
\<close>

datatype action =
    ProcessPacket packet_env captured_packet
  | HandleReply packet_env "reject_reason crypto_msg"
  | Prune sys_time write_io

definition run_action ::
  "('c, 'f) deps \<Rightarrow> daemon_config \<Rightarrow> action \<Rightarrow> ('c, 'f) daemon_state \<Rightarrow> ('c, 'f) daemon_state" where
  "run_action D config a d =
     (case a of
        ProcessPacket env captured \<Rightarrow>
          (case process_packet D env captured config d of Some (_, d') \<Rightarrow> d' | None \<Rightarrow> d)
      | HandleReply env msg \<Rightarrow> handle_crypto_msg D env msg config d
      | Prune now io \<Rightarrow> prune_replay D now io config d)"

definition run_actions ::
  "('c, 'f) deps \<Rightarrow> daemon_config \<Rightarrow> action list \<Rightarrow> ('c, 'f) daemon_state \<Rightarrow> ('c, 'f) daemon_state" where
  "run_actions D config acts d = foldl (\<lambda>d a. run_action D config a d) d acts"

definition is_prune :: "action \<Rightarrow> bool" where
  "is_prune a = (case a of Prune _ _ \<Rightarrow> True | _ \<Rightarrow> False)"

text \<open>The prunes among the actions happen no later than \<open>now\<close>.\<close>

definition prunes_before :: "sys_time \<Rightarrow> action list \<Rightarrow> bool" where
  "prunes_before now acts \<longleftrightarrow> list_all (\<lambda>a. case a of Prune t _ \<Rightarrow> unat (unix_secs t) \<le> unat (unix_secs now) | _ \<Rightarrow> True) acts"

text \<open>The retention of the replay cache covers the validity of a packet, clock skew included.\<close>

definition retention_covers_validity :: "daemon_config \<Rightarrow> bool" where
  "retention_covers_validity config \<longleftrightarrow>
     as_secs (ds_max_spa_packet_age (dc_daemon config)) + 30 \<le> as_secs (rp_max_age (dc_replay config))"

definition prune_keeps :: "daemon_config \<Rightarrow> u64 \<Rightarrow> action \<Rightarrow> bool" where
  "prune_keeps config ts a =
     (case a of Prune now io \<Rightarrow> keeps ts (PruneOlderThan (rp_max_age (dc_replay config)) now io) | _ \<Rightarrow> True)"

subsection \<open>A sample run\<close>

text \<open>A valid configuration whose replay cache forgets a nonce after ten seconds.\<close>

definition short_config :: daemon_config where
  "short_config = demo_config\<lparr>dc_replay := default_replay_section\<lparr>rp_max_age := from_secs 10\<rparr>\<rparr>"

definition env_at :: "nat \<Rightarrow> packet_env" where
  "env_at s = \<lparr>pe_now = Some (from_secs s), pe_now_replay = Some (from_secs s), pe_io = no_fault\<rparr>"

subsection \<open>Lemmas\<close>

lemma run_ops_append: "run_ops ops ord (xs @ ys) s = run_ops ops ord ys (run_ops ops ord xs s)"
  by (simp add: run_ops_def)

text \<open>On the replay cache, a packet or a reply is at most one check.\<close>

lemma process_packet_checks:
  assumes "process_packet D env captured config d = Some (r, d')"
  shows "(dm_replay d', dm_disk d') = (dm_replay d, dm_disk d) \<or>
    (\<exists>stanza payload. authenticates (dp_libs D) (cp_data captured) (dc_access config) stanza (Ok payload) \<and>
       (dm_replay d', dm_disk d') =
         run_op (dp_lru D) (dp_ord D) (CheckAndInsert (pl_nonce payload) (pe_now_replay env) (pe_io env)) (dm_replay d, dm_disk d))"
proof -
  obtain mr where mr: "match_packet (dp_libs D) (cp_data captured) (dc_access config) = Some mr"
    using match_packet_total by blast
  show ?thesis
  proof (cases mr)
    case (Matched n payload)
    obtain q replay disk where c: "check_and_insert (dp_lru D) (dp_ord D) (pe_now_replay env) (pe_io env)
        (pl_nonce payload) (dm_replay d) (dm_disk d) = (q, replay, disk)"
      by (metis prod_cases3)
    then have "(dm_replay d', dm_disk d') = (dm_replay d, dm_disk d) \<or> (dm_replay d', dm_disk d') = (replay, disk)"
      using assms mr Matched
      by (auto simp: process_packet_def Let_def split: sum.splits prod.splits bool.splits spa_message.splits)
    moreover have "run_op (dp_lru D) (dp_ord D) (CheckAndInsert (pl_nonce payload) (pe_now_replay env) (pe_io env))
        (dm_replay d, dm_disk d) = (replay, disk)"
      by (simp add: run_op_def c)
    moreover obtain stanza where "authenticates (dp_libs D) (cp_data captured) (dc_access config) stanza (Ok payload)"
      using mr Matched match_packet_Matched by blast
    ultimately show ?thesis by metis
  qed (use assms mr in \<open>auto simp: process_packet_def\<close>)
qed

lemma process_packet_replay:
  assumes "process_packet D env captured config d = Some (r, d')"
  shows "(dm_replay d', dm_disk d') = (dm_replay d, dm_disk d) \<or>
    (\<exists>n. (dm_replay d', dm_disk d') =
       run_op (dp_lru D) (dp_ord D) (CheckAndInsert n (pe_now_replay env) (pe_io env)) (dm_replay d, dm_disk d))"
  using process_packet_checks [OF assms] by blast

lemma handle_crypto_msg_replay:
  "(dm_replay (handle_crypto_msg D env msg config d), dm_disk (handle_crypto_msg D env msg config d)) =
     (dm_replay d, dm_disk d) \<or>
   (\<exists>n. (dm_replay (handle_crypto_msg D env msg config d), dm_disk (handle_crypto_msg D env msg config d)) =
      run_op (dp_lru D) (dp_ord D) (CheckAndInsert n (pe_now_replay env) (pe_io env)) (dm_replay d, dm_disk d))"
proof (cases msg)
  case (ValidRequest n ip payload)
  obtain q replay disk where c: "check_and_insert (dp_lru D) (dp_ord D) (pe_now_replay env) (pe_io env)
      (pl_nonce payload) (dm_replay d) (dm_disk d) = (q, replay, disk)"
    by (metis prod_cases3)
  then have "(dm_replay (handle_crypto_msg D env msg config d), dm_disk (handle_crypto_msg D env msg config d)) =
      (replay, disk)"
    using ValidRequest
    by (auto simp: handle_crypto_msg_def Let_def split: sum.splits prod.splits bool.splits spa_message.splits option.splits)
  moreover have "run_op (dp_lru D) (dp_ord D) (CheckAndInsert (pl_nonce payload) (pe_now_replay env) (pe_io env))
      (dm_replay d, dm_disk d) = (replay, disk)"
    by (simp add: run_op_def c)
  ultimately show ?thesis by metis
qed (simp_all add: handle_other)

lemma prune_replay_op:
  "(dm_replay (prune_replay D now io config d), dm_disk (prune_replay D now io config d)) =
     run_op (dp_lru D) (dp_ord D) (PruneOlderThan (rp_max_age (dc_replay config)) now io) (dm_replay d, dm_disk d)"
  by (simp add: prune_replay_def run_op_def Let_def split: prod.splits)

text \<open>So a sequence of actions is a sequence of operations on the replay cache.\<close>

lemma run_action_ops:
  assumes "prune_keeps config ts a"
  shows "\<exists>rops. list_all (keeps ts) rops \<and> length (filter is_check rops) \<le> (if is_prune a then 0 else 1) \<and>
    (dm_replay (run_action D config a d), dm_disk (run_action D config a d)) =
      run_ops (dp_lru D) (dp_ord D) rops (dm_replay d, dm_disk d)"
proof -
  have one: "\<exists>rops. list_all (keeps ts) rops \<and> length (filter is_check rops) \<le> 1 \<and>
      x = run_ops (dp_lru D) (dp_ord D) rops (dm_replay d, dm_disk d)"
    if "x = (dm_replay d, dm_disk d) \<or>
      (\<exists>n. x = run_op (dp_lru D) (dp_ord D) (CheckAndInsert n now io) (dm_replay d, dm_disk d))" for x now io
    using that
  proof
    assume "x = (dm_replay d, dm_disk d)"
    then show ?thesis by (intro exI [of _ "[]"]) (simp add: run_ops_def)
  next
    assume "\<exists>n. x = run_op (dp_lru D) (dp_ord D) (CheckAndInsert n now io) (dm_replay d, dm_disk d)"
    then obtain n where "x = run_op (dp_lru D) (dp_ord D) (CheckAndInsert n now io) (dm_replay d, dm_disk d)" ..
    then show ?thesis
      by (intro exI [of _ "[CheckAndInsert n now io]"]) (simp add: run_ops_def keeps_def is_check_def)
  qed
  show ?thesis
  proof (cases a)
    case (ProcessPacket env captured)
    obtain r d' where p: "process_packet D env captured config d = Some (r, d')"
      using process_packet_total by blast
    show ?thesis
      using one [OF process_packet_replay [OF p]] ProcessPacket p by (simp add: run_action_def is_prune_def)
  next
    case (HandleReply env msg)
    then show ?thesis
      using one [OF handle_crypto_msg_replay [of D env msg config d]] by (simp add: run_action_def is_prune_def)
  next
    case (Prune now io)
    then show ?thesis
      using assms prune_replay_op [of D now io config d]
      by (intro exI [of _ "[PruneOlderThan (rp_max_age (dc_replay config)) now io]"])
        (simp add: run_action_def is_prune_def prune_keeps_def run_ops_def is_check_def)
  qed
qed

lemma run_actions_ops:
  assumes "list_all (prune_keeps config ts) acts"
  shows "\<exists>rops. list_all (keeps ts) rops \<and>
    length (filter is_check rops) \<le> length (filter (\<lambda>a. \<not> is_prune a) acts) \<and>
    (dm_replay (run_actions D config acts d), dm_disk (run_actions D config acts d)) =
      run_ops (dp_lru D) (dp_ord D) rops (dm_replay d, dm_disk d)"
  using assms
proof (induction acts arbitrary: d)
  case Nil
  show ?case by (intro exI [of _ "[]"]) (simp add: run_actions_def run_ops_def)
next
  case (Cons a acts)
  then obtain r1 where r1: "list_all (keeps ts) r1" "length (filter is_check r1) \<le> (if is_prune a then 0 else 1)"
    "(dm_replay (run_action D config a d), dm_disk (run_action D config a d)) =
      run_ops (dp_lru D) (dp_ord D) r1 (dm_replay d, dm_disk d)"
    using run_action_ops [of config ts a D d] by auto
  obtain r2 where r2: "list_all (keeps ts) r2" "length (filter is_check r2) \<le> length (filter (\<lambda>a. \<not> is_prune a) acts)"
    "(dm_replay (run_actions D config acts (run_action D config a d)),
      dm_disk (run_actions D config acts (run_action D config a d))) =
      run_ops (dp_lru D) (dp_ord D) r2 (dm_replay (run_action D config a d), dm_disk (run_action D config a d))"
    using Cons by fastforce
  have "run_actions D config (a # acts) d = run_actions D config acts (run_action D config a d)"
    by (simp add: run_actions_def)
  then show ?case
    using r1 r2 by (intro exI [of _ "r1 @ r2"]) (auto simp: run_ops_append split: if_splits)
qed

lemma sint_small: "unat w < 2 ^ 63 \<Longrightarrow> sint (w :: i64) = int (unat w)"
proof -
  assume "unat w < 2 ^ 63"
  then have "int (unat w) < 2 ^ 63" by (metis of_nat_less_iff of_nat_numeral of_nat_power)
  moreover have "sint w = signed_take_bit 63 (int (unat w))"
    by (simp add: sint_uint)
  moreover have "- (2 ^ 63) \<le> int (unat w)"
    by (rule order_trans [of _ 0]) simp_all
  ultimately show ?thesis
    by (simp only: signed_take_bit_int_eq_self)
qed

lemma validity_window_iff:
  assumes "as_secs (ds_max_spa_packet_age (dc_daemon config)) \<le> 604800" and "unat (unix_secs now) < 2 ^ 62"
  shows "validate_against_clock p (now_unix now) (max_age_secs config) DEFAULT_MAX_SKEW_SECS = Ok () \<longleftrightarrow>
    int (unat (unix_secs now)) - int (as_secs (ds_max_spa_packet_age (dc_daemon config))) \<le> sint (pl_timestamp p) \<and>
    sint (pl_timestamp p) \<le> int (unat (unix_secs now)) + 30"
proof -
  let ?age = "as_secs (ds_max_spa_packet_age (dc_daemon config))"
  have m: "max_age_secs config = of_nat ?age" using assms(1) by (simp add: max_age_secs_def)
  have u: "unat (of_nat ?age :: i64) = ?age" using assms(1) by (intro unat_of_nat_small) simp
  have a: "sint (max_age_secs config) = int ?age"
    unfolding m using sint_small [of "of_nat ?age :: i64"] u assms(1) by simp
  have n: "sint (now_unix now) = int (unat (unix_secs now))"
    unfolding now_unix_def using assms(2) by (intro sint_small) simp
  have k: "sint DEFAULT_MAX_SKEW_SECS = 30" by (simp add: DEFAULT_MAX_SKEW_SECS_def)
  have "int (unat (unix_secs now)) < 2 ^ 62" using assms(2) by (metis of_nat_less_iff of_nat_numeral of_nat_power)
  then show ?thesis
    using clock_window [of "now_unix now" DEFAULT_MAX_SKEW_SECS "max_age_secs config" p] assms(1)
    unfolding a n k by auto
qed

lemmas validity_window = validity_window_iff [THEN iffD1, THEN conjunct1] validity_window_iff [THEN iffD1, THEN conjunct2]

text \<open>
  A nonce that was recorded is still known when its packet is presented again within its
  validity, if the retention covers the validity, the prunes since then are not from the
  future, and fewer other packets than the capacity of the cache came in between.
\<close>

lemma replayed_nonce_known:
  assumes rs: "replay_store (dp_lru D) I (dp_ord D)" and i: "I (rc_inner (dm_replay d))"
    and valid: "valid_daemon config" and cover: "retention_covers_validity config"
    and first: "authorised (dp_libs D) (dp_conf D) config (pe_now env) captured stanza payload rule"
    and rec: "check_and_insert (dp_lru D) (dp_ord D) (pe_now_replay env) (pe_io env) (pl_nonce payload)
      (dm_replay d) (dm_disk d) = (Ok True, dm_replay d1, dm_disk d1)"
    and second: "authorised (dp_libs D) (dp_conf D) config now2 captured2 stanza2 payload2 rule2"
    and same: "cp_data captured2 = cp_data captured"
    and clocks: "unat (unix_secs (pe_now env)) \<le> unat (unix_secs (pe_now_replay env))"
      "unat (unix_secs (pe_now env)) < 2 ^ 62" "unat (unix_secs now2) < 2 ^ 62" "prunes_before now2 acts"
    and few: "length (filter (\<lambda>a. \<not> is_prune a) acts) < replay_capacity (dp_lru D) (dm_replay d)"
  shows "fst (check_and_insert (dp_lru D) (dp_ord D) t io (pl_nonce payload2)
      (dm_replay (run_actions D config acts d1)) disk) = Ok False"
proof -
  let ?ts = "unix_secs (pe_now_replay env)"
  have p: "payload2 = payload"
    using first second same authenticates_unique by (fastforce simp: authorised_def)
  have age: "as_secs (ds_max_spa_packet_age (dc_daemon config)) \<le> 604800"
    and ret: "as_secs (rp_max_age (dc_replay config)) \<le> 604800"
    using valid as_secs_mono [of _ "from_secs 604800"] by (auto simp: valid_daemon_def)
  have w: "sint (pl_timestamp payload) \<le> int (unat (unix_secs (pe_now env))) + 30"
    "int (unat (unix_secs now2)) - int (as_secs (ds_max_spa_packet_age (dc_daemon config))) \<le> sint (pl_timestamp payload)"
    using validity_window [OF age clocks(2)] validity_window [OF age clocks(3)] first second p
    by (auto simp: authorised_def)
  have k: "prune_keeps config ?ts a" if "a \<in> set acts" for a
  proof (cases a)
    case (Prune now io)
    then have "unat (unix_secs now) \<le> unat (unix_secs now2)"
      using clocks(4) that by (auto simp: prunes_before_def list_all_iff)
    then have "unat (unix_secs now) - as_secs (rp_max_age (dc_replay config)) \<le> unat ?ts"
      using w cover clocks(1) unfolding retention_covers_validity_def by linarith
    moreover have "unat (of_nat (as_secs (rp_max_age (dc_replay config))) :: u64) = as_secs (rp_max_age (dc_replay config))"
      using ret by (intro unat_of_nat_small) simp
    ultimately show ?thesis
      using Prune by (simp add: prune_keeps_def keeps_def word_le_nat_alt unat_saturating_sub)
  qed (simp_all add: prune_keeps_def)
  then obtain rops where r: "list_all (keeps ?ts) rops"
    "length (filter is_check rops) \<le> length (filter (\<lambda>a. \<not> is_prune a) acts)"
    "(dm_replay (run_actions D config acts d1), dm_disk (run_actions D config acts d1)) =
      run_ops (dp_lru D) (dp_ord D) rops (dm_replay d1, dm_disk d1)"
    using run_actions_ops [of config ?ts acts D d1] by (auto simp: list_all_iff)
  have h: "replay_store.held (dp_lru D) I (pl_nonce payload) ?ts 0 (dm_replay d1)"
    "lru_cap (dp_lru D) (rc_inner (dm_replay d1)) = lru_cap (dp_lru D) (rc_inner (dm_replay d))"
    using replay_store.held_fresh [OF rs i rec] by auto
  then have "replay_store.held (dp_lru D) I (pl_nonce payload) ?ts (0 + length (filter is_check rops))
      (fst (run_ops (dp_lru D) (dp_ord D) rops (dm_replay d1, dm_disk d1)))"
    using replay_store.held_run [OF rs, of "pl_nonce payload" ?ts 0 "(dm_replay d1, dm_disk d1)" rops] r(1,2) few
    by (simp add: replay_capacity_def)
  then show ?thesis
    using replay_store.held_rejects [OF rs] r(3) p by (metis fst_conv)
qed

lemma installed_at_most_once:
  assumes "replay_store (dp_lru D) I (dp_ord D)" "I (rc_inner (dm_replay d))"
    and valid: "valid_daemon config" and "retention_covers_validity config"
    and first: "process_packet D env captured config d = Some (Ok (Installed n h), d1)"
    and second: "process_packet D env2 captured2 config (run_actions D config acts d1) = Some (r, d2)"
    and "cp_data captured2 = cp_data captured"
    and "unat (unix_secs (pe_now env)) \<le> unat (unix_secs (pe_now_replay env))"
      "unat (unix_secs (pe_now env)) < 2 ^ 62" "unat (unix_secs (pe_now env2)) < 2 ^ 62"
      "prunes_before (pe_now env2) acts"
    and "length (filter (\<lambda>a. \<not> is_prune a) acts) < replay_capacity (dp_lru D) (dm_replay d)"
  shows "dm_firewall d2 = dm_firewall (run_actions D config acts d1) \<and> (\<forall>n h. r \<noteq> Ok (Installed n h))"
proof -
  have dist: "distinct (map st_name (dc_access config))"
    using valid by (simp add: valid_daemon_def)
  obtain stanza payload rule where
    a: "authorised (dp_libs D) (dp_conf D) config (pe_now env) captured stanza payload rule"
    and c: "check_and_insert (dp_lru D) (dp_ord D) (pe_now_replay env) (pe_io env) (pl_nonce payload)
      (dm_replay d) (dm_disk d) = (Ok True, dm_replay d1, dm_disk d1)"
    using iffD1 [OF process_packet_Installed [OF dist] first] by (elim exE conjE) simp
  show ?thesis
  proof (cases "\<exists>st p ru. authorised (dp_libs D) (dp_conf D) config (pe_now env2) captured2 st p ru")
    case False
    then show ?thesis
      using process_packet_unauthorised [OF _ dist second] by auto
  next
    case True
    then obtain st p ru where b: "authorised (dp_libs D) (dp_conf D) config (pe_now env2) captured2 st p ru" by blast
    have "fst (check_and_insert (dp_lru D) (dp_ord D) (pe_now_replay env2) (pe_io env2) (pl_nonce p)
        (dm_replay (run_actions D config acts d1)) (dm_disk (run_actions D config acts d1))) = Ok False"
      by (rule replayed_nonce_known [OF assms(1-4) a c b assms(7-12)])
    then obtain c' k' where "check_and_insert (dp_lru D) (dp_ord D) (pe_now_replay env2) (pe_io env2) (pl_nonce p)
        (dm_replay (run_actions D config acts d1)) (dm_disk (run_actions D config acts d1)) = (Ok False, c', k')"
      by (metis prod.collapse)
    then show ?thesis
      using second unfolding process_packet_authorised [OF b dist] by (auto simp: case_prod_beta Let_def)
  qed
qed

lemma valid_demo_config: "valid_daemon demo_config" "valid_daemon short_config"
  by (simp_all add: short_config_def demo_config_def demo_stanza_def demo_key_def
      valid_daemon_def sample_config_def sample_stanza_def valid_stanza_def
      valid_rate_limit_def from_secs_def config_defaults)

lemma demo_retention: "retention_covers_validity demo_config"
  by (simp add: retention_covers_validity_def demo_config_def sample_config_def config_defaults)

text \<open>The sample packet is installed whenever the cache does not know its nonce.\<close>

lemma short_authorised:
  assumes "s = 1010 \<or> s = 1025"
  shows "authorised demo_libs demo_conf short_config (Some (from_secs s)) demo_packet demo_stanza demo_payload
    \<lparr>ar_source_ip = V4 0x0A000001, ar_ports = [port_proto_new Tcp 22], ar_timeout = from_secs 30,
     ar_comment = rule_comment demo_payload\<rparr>"
proof -
  have "dc_access short_config = dc_access demo_config" "dc_daemon short_config = dc_daemon demo_config"
    "max_age_secs short_config = max_age_secs demo_config"
    by (simp_all add: short_config_def max_age_secs_def)
  moreover have "validate_against_clock demo_payload (now_unix (Some (from_secs s))) 120 DEFAULT_MAX_SKEW_SECS = Ok ()"
    using assms by (auto simp: validate_against_clock_def demo_payload_def DEFAULT_MAX_SKEW_SECS_def now_unix_def unix_secs_def)
  ultimately show ?thesis
    using demo_authorised by (simp add: authorised_def demo_facts)
qed

lemma short_installs:
  assumes "s = 1010 \<or> s = 1025" and new: "\<not> lru_contains list_lru (rc_inner (dm_replay d)) (pl_nonce demo_payload)"
    and path: "rc_persist_path (dm_replay d) = Some ''/r''" and init: "mk_initialized (dm_firewall d)"
  obtains d' where "process_packet demo_deps (env_at s) demo_packet short_config d =
      Some (Ok (Installed ''ssh'' (RuleHandle (''mock-'' @ dec_string (unat (mk_next_id (dm_firewall d)))))), d')"
    "dm_replay d' = (dm_replay d)\<lparr>rc_inner := lru_put list_lru (rc_inner (dm_replay d)) (pl_nonce demo_payload) (of_nat s)\<rparr>"
    "mk_next_id (dm_firewall d') = mk_next_id (dm_firewall d) + 1" "mk_initialized (dm_firewall d')"
proof -
  have dist: "distinct (map st_name (dc_access short_config))"
    using valid_demo_config(2) by (simp add: valid_daemon_def)
  have a: "authorised (dp_libs demo_deps) (dp_conf demo_deps) short_config (pe_now (env_at s)) demo_packet demo_stanza demo_payload
    \<lparr>ar_source_ip = V4 0x0A000001, ar_ports = [port_proto_new Tcp 22], ar_timeout = from_secs 30,
     ar_comment = rule_comment demo_payload\<rparr>"
    using short_authorised [OF assms(1)] by (simp add: demo_deps_def env_at_def)
  show ?thesis
    by (rule that [OF trans [OF process_packet_authorised [OF a dist]]])
      ((simp add: demo_deps_def env_at_def check_and_insert_def new path save_to_file_def write_no_fault Let_def
        mock_backend_def mock_open_access_def init unix_secs_def demo_facts), simp_all add: init)
qed

subsection \<open>Properties\<close>

text \<open>
  C5. A packet is acted on at most once. After the daemon installed a rule for a packet, the
  same bytes presented again, from whatever address and after any sequence of packets,
  worker replies and prunes, change nothing in the firewall and install nothing, provided
  the configuration passed validation, the retention of the replay cache covers the
  validity of a packet, the clock readings are ordered and fit, and fewer packets than the
  capacity of the cache came in between.
\<close>

theorem packet_acted_on_once:
  assumes "replay_store (dp_lru D) I (dp_ord D)" "I (rc_inner (dm_replay d))"
    and "valid_daemon config" "retention_covers_validity config"
    and "process_packet D env captured config d = Some (Ok (Installed n h), d1)"
    and "process_packet D env2 captured2 config (run_actions D config acts d1) = Some (r, d2)"
    and "cp_data captured2 = cp_data captured"
    and "unat (unix_secs (pe_now env)) \<le> unat (unix_secs (pe_now_replay env))"
      "unat (unix_secs (pe_now env)) < 2 ^ 62" "unat (unix_secs (pe_now env2)) < 2 ^ 62"
      "prunes_before (pe_now env2) acts"
    and "length (filter (\<lambda>a. \<not> is_prune a) acts) < replay_capacity (dp_lru D) (dm_replay d)"
  shows "dm_firewall d2 = dm_firewall (run_actions D config acts d1) \<and> (\<forall>n h. r \<noteq> Ok (Installed n h))"
  using installed_at_most_once [OF assms] .

theorem packet_acted_on_once_witness:
  "\<exists>h d1 r d2. process_packet demo_deps demo_env demo_packet demo_config demo_state = Some (Ok (Installed ''ssh'' h), d1) \<and>
     process_packet demo_deps (env_at 1025) demo_packet demo_config
       (run_actions demo_deps demo_config [Prune (Some (from_secs 1021)) no_fault] d1) = Some (r, d2) \<and>
     (\<forall>n h. r \<noteq> Ok (Installed n h))"
proof -
  let ?acts = "[Prune (Some (from_secs 1021)) no_fault]"
  obtain h d1 where i: "process_packet demo_deps demo_env demo_packet demo_config demo_state = Some (Ok (Installed ''ssh'' h), d1)"
    using demo_installs by blast
  obtain r d2 where j: "process_packet demo_deps (env_at 1025) demo_packet demo_config (run_actions demo_deps demo_config ?acts d1) = Some (r, d2)"
    using process_packet_total by blast
  have "dm_firewall d2 = dm_firewall (run_actions demo_deps demo_config ?acts d1) \<and> (\<forall>n h. r \<noteq> Ok (Installed n h))"
    by (intro packet_acted_on_once [OF demo_store _ valid_demo_config(1) demo_retention i j])
      (simp_all add: demo_deps_def demo_state_def cache_eval demo_env_def env_at_def unix_secs_def
        prunes_before_def is_prune_def)
  from conjunct2 [OF this] show ?thesis
    by (intro exI conjI) (rule i, rule j)
qed

text \<open>
  C30. The premise on the retention is needed, and validation does not enforce it: with the
  replay section of a valid configuration set to forget after ten seconds, a packet
  installed at second 1010 is installed again at second 1025, after one prune in between.
\<close>

theorem short_retention_reinstalls:
  "validate_daemon short_config = Ok () \<and>
   (\<exists>h d1 h' d2. process_packet demo_deps (env_at 1010) demo_packet short_config demo_state = Some (Ok (Installed ''ssh'' h), d1) \<and>
      process_packet demo_deps (env_at 1025) demo_packet short_config
        (run_actions demo_deps short_config [Prune (Some (from_secs 1021)) no_fault] d1) = Some (Ok (Installed ''ssh'' h'), d2) \<and>
      h' \<noteq> h)"
proof -
  have s: "\<not> lru_contains list_lru (rc_inner (dm_replay demo_state)) (pl_nonce demo_payload)"
    "rc_persist_path (dm_replay demo_state) = Some ''/r''" "mk_initialized (dm_firewall demo_state)"
    "mk_next_id (dm_firewall demo_state) = 0"
    "rc_inner (dm_replay demo_state) = (4, [])"
    by (simp_all add: demo_state_def cache_eval mock_init_def mock_default_def)
  obtain d1 where p1: "process_packet demo_deps (env_at 1010) demo_packet short_config demo_state =
      Some (Ok (Installed ''ssh'' (RuleHandle (''mock-'' @ dec_string (unat (mk_next_id (dm_firewall demo_state)))))), d1)"
    and r1: "dm_replay d1 = (dm_replay demo_state)
      \<lparr>rc_inner := lru_put list_lru (rc_inner (dm_replay demo_state)) (pl_nonce demo_payload) (of_nat 1010)\<rparr>"
    and n1: "mk_next_id (dm_firewall d1) = mk_next_id (dm_firewall demo_state) + 1" "mk_initialized (dm_firewall d1)"
    by (rule short_installs [of 1010, OF _ s(1-3)]) simp_all
  have d1: "rc_inner (dm_replay d1) = (4, [(pl_nonce demo_payload, 1010)])" "rc_persist_path (dm_replay d1) = Some ''/r''"
    using r1 s by (simp_all add: list_lru_def insert_front_def)
  define d2 where "d2 = run_actions demo_deps short_config [Prune (Some (from_secs 1021)) no_fault] d1"
  have d2: "rc_inner (dm_replay d2) = (4, [])" "rc_persist_path (dm_replay d2) = Some ''/r''"
    "dm_firewall d2 = dm_firewall d1"
    using d1 by (simp_all add: d2_def run_actions_def run_action_def prune_replay_def prune_older_than_def
        demo_deps_def list_lru_def short_config_def unix_secs_def saturating_sub_def save_to_file_def write_no_fault
        case_prod_beta)
  have c2: "\<not> lru_contains list_lru (rc_inner (dm_replay d2)) (pl_nonce demo_payload)" "mk_initialized (dm_firewall d2)"
    using d2 n1 by (simp_all add: list_lru_def)
  obtain d3 where "process_packet demo_deps (env_at 1025) demo_packet short_config d2 =
      Some (Ok (Installed ''ssh'' (RuleHandle (''mock-'' @ dec_string (unat (mk_next_id (dm_firewall d2)))))), d3)"
    by (rule short_installs [of 1025, OF _ c2(1) d2(2) c2(2)]) simp_all
  moreover have "dec_string (unat (mk_next_id (dm_firewall d2))) \<noteq> dec_string (unat (mk_next_id (dm_firewall demo_state)))"
    using d2(3) n1(1) s(4) by simp
  ultimately show ?thesis
    using valid_demo_config(2) p1 unfolding d2_def validate_daemon_Ok by (intro conjI exI) (assumption | rule p1 | simp)+
qed

end
