(* ===== verification/Daemon_Run.thy ===== *)
theory Daemon_Run
  imports Freshness
begin

text \<open>
  The daemon as one process: \<open>shutdown.rs\<close>, the main loop of \<open>run.rs\<close>, and the start-up code of
  the binaries \<open>bin/fwknoxd.rs\<close> and \<open>bin/fwknoxd-mock.rs\<close>, which choose between this loop and
  the three processes of \<open>privsep_run.rs\<close>. The lemmas show when the loop returns, that it
  only opens what a packet was authorised for, and what survives a restart.
\<close>

subsection \<open>Shutdown signal\<close>

text \<open>The flag is shared by all clones and by the handlers; a delivered signal trips it.\<close>

record shutdown_signal =
  sd_flag :: bool

definition shutdown_new :: shutdown_signal where
  "shutdown_new = \<lparr>sd_flag = False\<rparr>"

definition SIGINT :: nat where "SIGINT = 2"

text \<open>\<open>register\<close>: the outcome of registering a handler for a signal number.\<close>

definition install_handlers :: "(nat \<Rightarrow> io_error + unit) \<Rightarrow> io_error + unit" where
  "install_handlers register = and_then (register SIGTERM) (\<lambda>_. and_then (register SIGINT) (\<lambda>_. Ok ()))"

definition is_shutdown :: "shutdown_signal \<Rightarrow> bool" where
  "is_shutdown s = sd_flag s"

definition trigger :: "shutdown_signal \<Rightarrow> shutdown_signal" where
  "trigger s = s\<lparr>sd_flag := True\<rparr>"

subsection \<open>The main loop\<close>

definition LOOP_TICK :: duration where "LOOP_TICK = 500000000"

text \<open>The line logged for a handled packet.\<close>

datatype packet_log =
    LogInstalled string ip_addr
  | LogReplay string ip_addr
  | LogNoMatch ip_addr
  | LogRejected string ip_addr reject_reason
  | LogFailure ip_addr daemon_error

definition handle_packet ::
  "('c, 'f) deps \<Rightarrow> packet_env \<Rightarrow> captured_packet \<Rightarrow> daemon_config \<Rightarrow> ('c, 'f) daemon_state
    \<Rightarrow> (packet_log \<times> ('c, 'f) daemon_state) option" where
  "handle_packet D env pkt config d =
     map_option (\<lambda>(r, d). (case r of
          Ok (Installed n _) \<Rightarrow> LogInstalled n (cp_source_ip pkt)
        | Ok (Replay n) \<Rightarrow> LogReplay n (cp_source_ip pkt)
        | Ok PacketNoMatch \<Rightarrow> LogNoMatch (cp_source_ip pkt)
        | Ok (PacketRejected n reason) \<Rightarrow> LogRejected n (cp_source_ip pkt) reason
        | Err e \<Rightarrow> LogFailure (cp_source_ip pkt) e, d))
       (process_packet D env pkt config d)"

text \<open>What one iteration reads from the system, a signal delivered before it included.\<close>

record run_input =
  ri_signal :: bool
  ri_sys_reset :: instant
  ri_sys :: instant
  ri_env :: packet_env
  ri_prune_now :: sys_time
  ri_prune_io :: write_io

text \<open>
  The state of the process. \<open>rs_passed\<close> records, with its clock readings, each packet that
  the capture backend delivered and the limiter passed; the code does not read it.
\<close>

record ('k, 'c, 'f, 'b) run_state =
  rs_capture :: 'b
  rs_limiter :: "'k rate_limiter"
  rs_daemon :: "('c, 'f) daemon_state"
  rs_tick :: u64
  rs_shutdown :: shutdown_signal
  rs_log :: "packet_log list"
  rs_passed :: "(packet_env \<times> captured_packet) list"

text \<open>One receive: \<open>None\<close> is a panic.\<close>

definition run_receive ::
  "('c, 'f) deps \<Rightarrow> 'b capture_ops \<Rightarrow> 'k key_lru \<Rightarrow> run_input \<Rightarrow> daemon_config \<Rightarrow> ('k, 'c, 'f, 'b) run_state
    \<Rightarrow> ('k, 'c, 'f, 'b) run_state option" where
  "run_receive D B ops i config s =
     (let (r, b) = cap_recv_timeout B LOOP_TICK (rs_capture s); s = s\<lparr>rs_capture := b\<rparr> in
      case r of
        Ok None \<Rightarrow> Some s
      | Ok (Some pkt) \<Rightarrow>
          (case check ops (ri_sys_reset i) (ri_sys i) (cp_source_ip pkt) (rs_limiter s) of
             (Pass, rl) \<Rightarrow>
               map_option (\<lambda>(l, d). s\<lparr>rs_limiter := rl, rs_daemon := d, rs_log := rs_log s @ [l],
                   rs_passed := rs_passed s @ [(ri_env i, pkt)]\<rparr>)
                 (handle_packet D (ri_env i) pkt config (rs_daemon s))
           | (Drop _, rl) \<Rightarrow> Some (s\<lparr>rs_limiter := rl\<rparr>))
      | Err _ \<Rightarrow> Some s)"

text \<open>The rest of the body: the tick counter wraps, every 600 ticks the cache is pruned.\<close>

definition run_tick ::
  "('c, 'f) deps \<Rightarrow> run_input \<Rightarrow> daemon_config \<Rightarrow> ('k, 'c, 'f, 'b) run_state \<Rightarrow> ('k, 'c, 'f, 'b) run_state" where
  "run_tick D i config s =
     (let s = s\<lparr>rs_tick := rs_tick s + 1\<rparr> in
      if rs_tick s mod PRUNE_EVERY_TICKS = 0
      then s\<lparr>rs_daemon := prune_replay D (ri_prune_now i) (ri_prune_io i) config (rs_daemon s)\<rparr>
      else s)"

text \<open>\<open>Running\<close>: not returned yet when the inputs end.\<close>

datatype 'a run_end = Returned 'a | Running | Panicked

fun run_loop ::
  "('c, 'f) deps \<Rightarrow> 'b capture_ops \<Rightarrow> 'k key_lru \<Rightarrow> run_input list \<Rightarrow> daemon_config \<Rightarrow> ('k, 'c, 'f, 'b) run_state
    \<Rightarrow> ('k, 'c, 'f, 'b) run_state run_end" where
  "run_loop D B ops [] config s = Running"
| "run_loop D B ops (i # is) config s =
     (let s = (if ri_signal i then s\<lparr>rs_shutdown := trigger (rs_shutdown s)\<rparr> else s) in
      if is_shutdown (rs_shutdown s) then Returned s
      else case run_receive D B ops i config s of
             None \<Rightarrow> Panicked
           | Some s \<Rightarrow> run_loop D B ops is config (run_tick D i config s))"

definition run ::
  "('c, 'f) deps \<Rightarrow> 'b capture_ops \<Rightarrow> 'k key_lru \<Rightarrow> write_io \<Rightarrow> run_input list \<Rightarrow> daemon_config
    \<Rightarrow> ('k, 'c, 'f, 'b) run_state \<Rightarrow> ((daemon_error + unit) \<times> ('k, 'c, 'f, 'b) run_state) run_end" where
  "run D B ops save_io is config s =
     (let (r, d) = firewall_startup D config (rs_daemon s); s = s\<lparr>rs_daemon := d\<rparr> in
      case r of
        Err e \<Rightarrow> Returned (Err e, s)
      | Ok _ \<Rightarrow>
          (case run_loop D B ops is config s of
             Returned s \<Rightarrow> Returned (Ok (), s\<lparr>rs_daemon := daemon_exit D save_io config (rs_daemon s)\<rparr>)
           | Running \<Rightarrow> Running
           | Panicked \<Rightarrow> Panicked))"

subsection \<open>Starting the daemon\<close>

text \<open>
  \<open>Path::parent\<close> on Unix: trailing slashes and \<open>.\<close> components do not count; the root and the
  empty path have no parent.
\<close>

fun trim_sep :: "string \<Rightarrow> string" where
  "trim_sep (c # r) = (if c = CHR ''/'' then trim_sep r
     else if c = CHR ''.'' \<and> r \<noteq> [] \<and> hd r = CHR ''/'' then trim_sep r else c # r)"
| "trim_sep [] = []"

definition path_parent :: "path \<Rightarrow> path option" where
  "path_parent p =
     (let q = trim_sep (rev p); r = trim_sep (dropWhile (\<lambda>c. c \<noteq> CHR ''/'') q) in
      if q = [] then None
      else Some (if r = [] \<and> p \<noteq> [] \<and> hd p = CHR ''/'' then ''/'' else rev r))"

definition parent_or_current :: "path \<Rightarrow> path" where
  "parent_or_current p = (case path_parent p of None \<Rightarrow> ''.'' | Some q \<Rightarrow> q)"

definition apply_sandbox :: "'p sys_ops \<Rightarrow> daemon_config \<Rightarrow> 'p \<Rightarrow> (daemon_error + unit) option \<times> 'p" where
  "apply_sandbox S config p =
     (let target = (if is_root S p
            then Some \<lparr>pt_user = ds_run_user (dc_daemon config), pt_group = ds_run_group (dc_daemon config)\<rparr>
            else None);
          landlock = (if ds_landlock_enabled (dc_daemon config)
            then Some \<lparr>lc_read_only = [], lc_read_write = [parent_or_current (rp_cache_path (dc_replay config))]\<rparr>
            else None);
          (r, p) = sandbox_apply S \<lparr>sc_keep_caps = [CAP_NET_ADMIN], sc_drop_to = target, sc_landlock = landlock\<rparr> p in
      (map_option (map_err SandboxErr) r, p))"

definition select_backend :: "daemon_config \<Rightarrow> daemon_error + unit" where
  "select_backend config =
     (case ds_firewall_backend (dc_daemon config) of
        Nftables \<Rightarrow> Ok ()
      | Iptables \<Rightarrow> Err (FirewallErr (Unsupported ''iptables backend (Phase 3 ships only nftables)'')))"

text \<open>\<open>stat_ok\<close>: whether the file system lets the process see the cache file.\<close>

definition open_replay_cache ::
  "'c nonce_lru \<Rightarrow> hash_order \<Rightarrow> bool \<Rightarrow> io_error option \<Rightarrow> daemon_config \<Rightarrow> disk \<Rightarrow> replay_error + 'c replay_cache" where
  "open_replay_cache ops ord stat_ok fault config disk =
     (let cap = (if rp_max_entries (dc_replay config) = 0 then 1 else rp_max_entries (dc_replay config));
          path = rp_cache_path (dc_replay config) in
      and_then (if stat_ok \<and> disk path \<noteq> None then load_from_file ops ord fault disk path
                else Ok (with_capacity ops cap))
        (\<lambda>replay. Ok (set_persist_path path replay)))"

text \<open>The outcomes of the system calls of the start-up; \<open>mi_bind\<close> gives the bound socket.\<close>

record 's main_io =
  mi_bind :: "io_error + 's"
  mi_stat_ok :: bool
  mi_cache_read :: "io_error option"
  mi_limiter_now :: instant
  mi_register :: "nat \<Rightarrow> io_error + unit"
  mi_save :: write_io
  mi_startup :: startup_io

record ('k, 'c, 's) ready_daemon =
  rd_config :: daemon_config
  rd_socket :: 's
  rd_replay :: "'c replay_cache"
  rd_limiter :: "'k rate_limiter"

text \<open>The mock binary takes its own backend and does not sandbox the main process.\<close>

datatype binary = Fwknoxd | FwknoxdMock

text \<open>Steps 1 to 6 of \<open>real_main\<close>; \<open>None\<close> is a panic.\<close>

definition daemon_setup ::
  "binary \<Rightarrow> 'p sys_ops \<Rightarrow> 'k key_lru \<Rightarrow> ('c, 'f) deps \<Rightarrow> toml_lib \<Rightarrow> (path \<Rightarrow> io_error + string) \<Rightarrow> 's main_io
    \<Rightarrow> path \<Rightarrow> disk \<Rightarrow> 'p \<Rightarrow> (daemon_error + ('k, 'c, 's) ready_daemon) option \<times> 'p" where
  "daemon_setup bin S ops D T read io cli_config disk p =
     (case map_err ConfigErr (load_daemon_config (dp_conf D) T read cli_config) of Err e \<Rightarrow> (Some (Err e), p) | Ok config \<Rightarrow>
     (case (if bin = Fwknoxd then select_backend config else Ok ()) of Err e \<Rightarrow> (Some (Err e), p) | Ok _ \<Rightarrow>
     (case map_err IoErr (mi_bind io) of Err e \<Rightarrow> (Some (Err e), p) | Ok socket \<Rightarrow>
     (case map_err ReplayErr (open_replay_cache (dp_lru D) (dp_ord D) (mi_stat_ok io) (mi_cache_read io) config disk) of
        Err e \<Rightarrow> (Some (Err e), p) | Ok replay \<Rightarrow>
     (case (if bin = Fwknoxd \<and> ds_enable_sandbox (dc_daemon config) then apply_sandbox S config p else (Some (Ok ()), p)) of
        (None, p) \<Rightarrow> (None, p)
      | (Some (Err e), p) \<Rightarrow> (Some (Err e), p)
      | (Some (Ok _), p) \<Rightarrow>
          (case from_config ops (dc_rate_limit config) (mi_limiter_now io) of
             None \<Rightarrow> (None, p)
           | Some limiter \<Rightarrow>
               (Some (Ok \<lparr>rd_config = config, rd_socket = socket, rd_replay = replay, rd_limiter = limiter\<rparr>), p)))))))"

text \<open>Step 7: three processes or one.\<close>

definition dispatch ::
  "'k key_lru \<Rightarrow> ('c, 'f) deps \<Rightarrow> 's udp_socket_ops \<Rightarrow> 'q proc_ops \<Rightarrow> 'r crypto_msg codec \<Rightarrow> 's main_io
    \<Rightarrow> parent_input list \<Rightarrow> run_input list \<Rightarrow> 'f \<Rightarrow> disk \<Rightarrow> 'q \<Rightarrow> ('k, 'c, 's) ready_daemon
    \<Rightarrow> ((daemon_error + unit) \<times> ('c, 'f) daemon_state) run_end" where
  "dispatch ops D K P N io pis ris fw disk procs rd =
     (let config = rd_config rd; d = \<lparr>dm_replay = rd_replay rd, dm_disk = disk, dm_firewall = fw\<rparr> in
      if ds_enable_privsep (dc_daemon config) then
        case privsep_run D P N (mi_startup io) pis config
               \<lparr>pa_reader = [], pa_daemon = d, pa_tick = 0, pa_shutdown = is_shutdown shutdown_new, pa_procs = procs\<rparr> of
          None \<Rightarrow> Running
        | Some (r, s) \<Rightarrow> Returned (r, pa_daemon s)
      else
        case install_handlers (mi_register io) of
          Err e \<Rightarrow> Returned (Err (IoErr e), d)
        | Ok _ \<Rightarrow>
            (case run D (udp_capture_ops K) ops (mi_save io) ris config
                    \<lparr>rs_capture = udp_from_socket (rd_socket rd), rs_limiter = rd_limiter rd, rs_daemon = d,
                     rs_tick = 0, rs_shutdown = shutdown_new, rs_log = [], rs_passed = []\<rparr> of
               Returned (r, s) \<Rightarrow> Returned (r, rs_daemon s)
             | Running \<Rightarrow> Running
             | Panicked \<Rightarrow> Panicked))"

definition real_main ::
  "binary \<Rightarrow> 'p sys_ops \<Rightarrow> 'k key_lru \<Rightarrow> ('c, 'f) deps \<Rightarrow> toml_lib \<Rightarrow> (path \<Rightarrow> io_error + string) \<Rightarrow> 's udp_socket_ops
    \<Rightarrow> 'q proc_ops \<Rightarrow> 'r crypto_msg codec \<Rightarrow> 's main_io \<Rightarrow> parent_input list \<Rightarrow> run_input list \<Rightarrow> path \<Rightarrow> 'f \<Rightarrow> disk
    \<Rightarrow> 'q \<Rightarrow> 'p \<Rightarrow> ((daemon_error + unit) \<times> ('c, 'f) daemon_state option) run_end" where
  "real_main bin S ops D T read K P N io pis ris cli_config fw disk procs p =
     (case fst (daemon_setup bin S ops D T read io cli_config disk p) of
        None \<Rightarrow> Panicked
      | Some (Err e) \<Rightarrow> Returned (Err e, None)
      | Some (Ok rd) \<Rightarrow>
          (case dispatch ops D K P N io pis ris fw disk procs rd of
             Returned (r, d) \<Rightarrow> Returned (r, Some d)
           | Running \<Rightarrow> Running
           | Panicked \<Rightarrow> Panicked))"

text \<open>The exit code of the binary: a panic aborts the process.\<close>

definition exit_code :: "((daemon_error + unit) \<times> 'd) run_end \<Rightarrow> int option" where
  "exit_code e =
     (case e of Returned (Ok _, _) \<Rightarrow> Some 0 | Returned (Err _, _) \<Rightarrow> Some 1 | Running \<Rightarrow> None | Panicked \<Rightarrow> Some 134)"

definition tracing_level :: "u8 \<Rightarrow> string" where
  "tracing_level verbose = (if verbose = 0 then ''info'' else if verbose = 1 then ''debug'' else ''trace'')"

text \<open>\<open>env_filter\<close>: the filter of the environment, if there is a valid one.\<close>

definition init_tracing :: "string \<Rightarrow> string option \<Rightarrow> u8 \<Rightarrow> string" where
  "init_tracing own env_filter verbose =
     (case env_filter of
        Some f \<Rightarrow> f
      | None \<Rightarrow> ''fwknox='' @ tracing_level verbose @ '','' @ own @ ''='' @ tracing_level verbose)"

subsection \<open>Specification\<close>

text \<open>
  What the loop keeps: everything the firewall lets through was let through before or belongs
  to the rule that the configuration authorises for a packet that passed the limiter, at the
  time it was handled.
\<close>

definition asked_by :: "('c, 'f) deps \<Rightarrow> daemon_config \<Rightarrow> (packet_env \<times> captured_packet) list
    \<Rightarrow> ip_addr \<times> port_proto \<Rightarrow> bool" where
  "asked_by D config passed pair \<longleftrightarrow>
     (\<exists>(env, pkt) \<in> set passed. \<exists>stanza payload rule.
        authorised (dp_libs D) (dp_conf D) config (pe_now env) pkt stanza payload rule \<and>
        pair \<in> rule_pairs rule \<and> snd pair \<in> set (st_open_ports stanza) \<and>
        (st_require_source_match stanza \<longrightarrow> fst pair = cp_source_ip pkt))"

definition run_inv ::
  "('f \<Rightarrow> bool) \<Rightarrow> ('f \<Rightarrow> (ip_addr \<times> port_proto) set) \<Rightarrow> (ip_addr \<times> port_proto) set \<Rightarrow> ('c, 'f) deps \<Rightarrow> daemon_config
    \<Rightarrow> ('k, 'c, 'f, 'b) run_state \<Rightarrow> bool" where
  "run_inv ok lets base D config s \<longleftrightarrow>
     ok (dm_firewall (rs_daemon s)) \<and>
     (\<forall>pair \<in> lets (dm_firewall (rs_daemon s)). pair \<in> base \<or> asked_by D config (rs_passed s) pair)"

subsection \<open>A sample run\<close>

text \<open>A capture backend that hands out a list of packets, as the tests of \<open>run.rs\<close> have it.\<close>

definition scripted_capture :: "captured_packet list capture_ops" where
  "scripted_capture = \<lparr>cap_recv_timeout = (\<lambda>_ q. case q of [] \<Rightarrow> (Ok None, []) | p # q \<Rightarrow> (Ok (Some p), q))\<rparr>"

definition demo_input :: "bool \<Rightarrow> run_input" where
  "demo_input sig = \<lparr>ri_signal = sig, ri_sys_reset = 0, ri_sys = 0, ri_env = demo_env,
     ri_prune_now = Some (from_secs 1010), ri_prune_io = no_fault\<rparr>"

definition run_of :: "('c, 'f) daemon_state \<Rightarrow> ((source_key, token_bucket) list_cache, 'c, 'f, captured_packet list) run_state" where
  "run_of d = \<lparr>rs_capture = [demo_packet], rs_limiter = open_limiter, rs_daemon = d, rs_tick = 0,
     rs_shutdown = shutdown_new, rs_log = [], rs_passed = []\<rparr>"

definition demo_run ::
  "((source_key, token_bucket) list_cache, (nonce, u64) list_cache, mock_state, captured_packet list) run_state" where
  "demo_run = run_of demo_state"

definition dead_child :: "unit proc_ops" where
  "dead_child = \<lparr>pr_kill = (\<lambda>_ _ p. (Err 3, p)), pr_waitpid = (\<lambda>_ _ p. (Ok (Exited 101 1), p))\<rparr>"

definition demo_io :: "(u16 \<times> ip_addr \<times> bytes) list main_io" where
  "demo_io = \<lparr>mi_bind = Ok [], mi_stat_ok = True, mi_cache_read = None, mi_limiter_now = 0, mi_register = (\<lambda>_. Ok ()),
     mi_save = no_fault, mi_startup = \<lparr>su_pair1 = None, su_pair2 = None, su_fork_capture = Ok 101, su_fork_crypto = Ok 102,
       su_handlers = None, su_set_timeout = None, su_save = no_fault\<rparr>\<rparr>"

subsection \<open>Lemmas\<close>

lemma handle_packet_total:
  obtains l r d' where "handle_packet D env pkt config d = Some (l, d')"
    "process_packet D env pkt config d = Some (r, d')"
proof -
  obtain r d' where p: "process_packet D env pkt config d = Some (r, d')"
    using process_packet_total by blast
  show ?thesis
    by (rule that [OF _ p]) (simp add: handle_packet_def p)
qed

text \<open>A receive never panics and does one of two things to the daemon state.\<close>

lemma run_receive_cases:
  obtains (idle) s' where "run_receive D B ops i config s = Some s'" "rs_daemon s' = rs_daemon s"
      "rs_passed s' = rs_passed s" "rs_shutdown s' = rs_shutdown s"
  | (packet) s' pkt r where "run_receive D B ops i config s = Some s'"
      "process_packet D (ri_env i) pkt config (rs_daemon s) = Some (r, rs_daemon s')"
      "rs_passed s' = rs_passed s @ [(ri_env i, pkt)]" "rs_shutdown s' = rs_shutdown s"
proof -
  obtain r b where c: "cap_recv_timeout B LOOP_TICK (rs_capture s) = (r, b)" by fastforce
  show ?thesis
  proof (cases "\<exists>pkt. r = Ok (Some pkt)")
    case True
    then obtain pkt where r: "r = Ok (Some pkt)" ..
    obtain dec rl where k: "check ops (ri_sys_reset i) (ri_sys i) (cp_source_ip pkt) (rs_limiter s) = (dec, rl)"
      by fastforce
    obtain l q d' where h: "handle_packet D (ri_env i) pkt config (rs_daemon s) = Some (l, d')"
      "process_packet D (ri_env i) pkt config (rs_daemon s) = Some (q, d')"
      by (rule handle_packet_total)
    show ?thesis
    proof (cases dec)
      case Pass
      then have "run_receive D B ops i config s = Some (s\<lparr>rs_capture := b, rs_limiter := rl, rs_daemon := d',
          rs_log := rs_log s @ [l], rs_passed := rs_passed s @ [(ri_env i, pkt)]\<rparr>)"
        by (simp add: run_receive_def c r k h)
      then show ?thesis
        by (rule packet [of _ pkt q]) (simp_all add: h)
    next
      case (Drop x)
      then have "run_receive D B ops i config s = Some (s\<lparr>rs_capture := b, rs_limiter := rl\<rparr>)"
        by (simp add: run_receive_def c r k)
      then show ?thesis by (rule idle) simp_all
    qed
  next
    case False
    then have "run_receive D B ops i config s = Some (s\<lparr>rs_capture := b\<rparr>)"
      by (cases r) (auto simp: run_receive_def c split: option.splits)
    then show ?thesis by (rule idle) simp_all
  qed
qed

lemma run_tick_fields [simp]:
  "rs_shutdown (run_tick D i config s) = rs_shutdown s" "rs_passed (run_tick D i config s) = rs_passed s"
  by (simp_all add: run_tick_def Let_def)

lemma run_loop_returns:
  "run_loop D B ops is config s \<noteq> Panicked \<and>
   ((\<exists>s'. run_loop D B ops is config s = Returned s') \<longleftrightarrow>
     (is \<noteq> [] \<and> is_shutdown (rs_shutdown s)) \<or> list_ex ri_signal is)"
proof (induction "is" arbitrary: s)
  case (Cons i "is")
  show ?case
  proof (cases "ri_signal i \<or> is_shutdown (rs_shutdown s)")
    case True
    then show ?thesis by (auto simp: is_shutdown_def trigger_def)
  next
    case False
    then obtain s' where "run_receive D B ops i config s = Some s'" "rs_shutdown s' = rs_shutdown s"
      by (cases rule: run_receive_cases [of D B ops i config s]) auto
    then show ?thesis
      using False Cons [of "run_tick D i config s'"] by simp
  qed
qed simp

text \<open>Nothing is read after the first signal.\<close>

lemma run_loop_first_signal:
  "ri_signal i \<Longrightarrow> run_loop D B ops (is @ i # js) config s = run_loop D B ops (is @ [i]) config s"
  by (induction "is" arbitrary: s) (auto simp: Let_def is_shutdown_def trigger_def split: option.splits)

text \<open>The loop keeps the safety invariant.\<close>

lemma process_packet_ok:
  assumes fc: "firewall_contract (dp_fw D) ok ready lets" and ok: "ok (dm_firewall d)"
    and dist: "distinct (map st_name (dc_access config))"
    and p: "process_packet D env pkt config d = Some (r, d')"
  shows "ok (dm_firewall d')"
proof (cases "\<exists>stanza payload rule. authorised (dp_libs D) (dp_conf D) config (pe_now env) pkt stanza payload rule")
  case True
  then obtain stanza payload rule
    where a: "authorised (dp_libs D) (dp_conf D) config (pe_now env) pkt stanza payload rule" by blast
  obtain q fw where o: "fw_open_access (dp_fw D) rule (dm_firewall d) = (q, fw)" by fastforce
  have "ok fw"
    using firewall_contract.open_Ok [OF fc ok] firewall_contract.open_Err [OF fc ok] o by (cases q) auto
  then show ?thesis
    using p ok unfolding process_packet_authorised [OF a dist]
    by (auto simp: o Let_def split: prod.splits sum.splits bool.splits)
next
  case False
  then have "dm_firewall d' = dm_firewall d"
    using process_packet_unauthorised [OF _ dist p] by blast
  then show ?thesis using ok by simp
qed

lemma asked_by_append: "asked_by D config (xs @ ys) pair \<longleftrightarrow> asked_by D config xs pair \<or> asked_by D config ys pair"
  unfolding asked_by_def set_append bex_Un ..

lemma run_inv_receive:
  assumes inv: "run_inv ok lets base D config s" and fc: "firewall_contract (dp_fw D) ok ready lets"
    and dist: "distinct (map st_name (dc_access config))" and r: "run_receive D B ops i config s = Some s'"
  shows "run_inv ok lets base D config s'"
proof (cases rule: run_receive_cases [of D B ops i config s])
  case (idle s2)
  then show ?thesis using inv r by (simp add: run_inv_def)
next
  case (packet s2 pkt q)
  then have s2: "s2 = s'" using r by simp
  have ok: "ok (dm_firewall (rs_daemon s))" using inv by (simp add: run_inv_def)
  have "asked_by D config (rs_passed s') pair"
    if new: "pair \<in> lets (dm_firewall (rs_daemon s'))" "pair \<notin> lets (dm_firewall (rs_daemon s))" for pair
  proof -
    obtain stanza payload rule where
      "authorised (dp_libs D) (dp_conf D) config (pe_now (ri_env i)) pkt stanza payload rule"
      "pair \<in> rule_pairs rule" "snd pair \<in> set (st_open_ports stanza)"
      "st_require_source_match stanza \<longrightarrow> fst pair = cp_source_ip pkt"
      using process_packet_new_pairs [OF fc ok dist packet(2), of "fst pair" "snd pair"] new s2 by auto
    then have "asked_by D config [(ri_env i, pkt)] pair"
      unfolding asked_by_def by auto
    then show ?thesis using packet(3) s2 by (simp add: asked_by_append)
  qed
  then show ?thesis
    using inv process_packet_ok [OF fc ok dist packet(2)] packet(3) s2
    by (auto simp: run_inv_def asked_by_append)
qed

lemma run_inv_loop:
  assumes "run_inv ok lets base D config s" "firewall_contract (dp_fw D) ok ready lets"
    "distinct (map st_name (dc_access config))" "run_loop D B ops is config s = Returned s'"
  shows "run_inv ok lets base D config s'"
  using assms(1,4)
proof (induction "is" arbitrary: s)
  case (Cons i "is")
  show ?case
  proof (cases "ri_signal i \<or> is_shutdown (rs_shutdown s)")
    case True
    then show ?thesis using Cons.prems by (auto simp: run_inv_def is_shutdown_def trigger_def split: if_splits)
  next
    case False
    then obtain s1 where s1: "run_receive D B ops i config s = Some s1"
      using Cons.prems(2) by (auto split: option.splits)
    have "run_inv ok lets base D config (run_tick D i config s1)"
      using run_inv_receive [OF Cons.prems(1) assms(2,3) s1]
      by (simp add: run_inv_def run_tick_def Let_def prune_replay_def case_prod_beta)
    then show ?thesis using Cons.IH Cons.prems(2) False s1 by simp
  qed
qed simp

text \<open>On the daemon state the loop is a sequence of actions, at most one packet per iteration.\<close>

lemma run_loop_is_actions:
  assumes "run_loop D B ops is config s = Returned s'"
  shows "\<exists>acts. rs_daemon s' = run_actions D config acts (rs_daemon s) \<and>
    length (filter (\<lambda>a. \<not> is_prune a) acts) \<le> length is \<and>
    list_all (\<lambda>a. case a of Prune t _ \<Rightarrow> t \<in> ri_prune_now ` set is | _ \<Rightarrow> True) acts"
  using assms
proof (induction "is" arbitrary: s)
  case (Cons i "is")
  show ?case
  proof (cases "ri_signal i \<or> is_shutdown (rs_shutdown s)")
    case True
    then show ?thesis
      using Cons.prems by (intro exI [of _ "[]"]) (auto simp: run_actions_def is_shutdown_def trigger_def split: if_splits)
  next
    case False
    then obtain s1 where s1: "run_receive D B ops i config s = Some s1"
      using Cons.prems by (auto split: option.splits)
    obtain a1 where a1: "rs_daemon s1 = run_actions D config a1 (rs_daemon s)"
      "a1 = [] \<or> (\<exists>pkt. a1 = [ProcessPacket (ri_env i) pkt])"
    proof (cases rule: run_receive_cases [of D B ops i config s])
      case (idle s2)
      then show ?thesis using that [of "[]"] s1 by (simp add: run_actions_def)
    next
      case (packet s2 pkt q)
      then show ?thesis
        using that [of "[ProcessPacket (ri_env i) pkt]"] s1 by (simp add: run_actions_def run_action_def)
    qed
    define a2 where "a2 = (if (rs_tick s1 + 1) mod PRUNE_EVERY_TICKS = 0 then [Prune (ri_prune_now i) (ri_prune_io i)] else [])"
    have t: "rs_daemon (run_tick D i config s1) = run_actions D config a2 (rs_daemon s1)"
      by (simp add: run_tick_def Let_def a2_def run_actions_def run_action_def)
    obtain a3 where a3: "rs_daemon s' = run_actions D config a3 (rs_daemon (run_tick D i config s1))"
      "length (filter (\<lambda>a. \<not> is_prune a) a3) \<le> length is"
      "list_all (\<lambda>a. case a of Prune t _ \<Rightarrow> t \<in> ri_prune_now ` set is | _ \<Rightarrow> True) a3"
      using Cons.IH [of "run_tick D i config s1"] Cons.prems False s1 by auto
    have l: "length (filter (\<lambda>a. \<not> is_prune a) (a1 @ a2 @ a3)) \<le> length (i # is)"
      using a1(2) a3(2) by (auto simp: a2_def is_prune_def)
    have p: "list_all (\<lambda>a. case a of Prune t _ \<Rightarrow> t \<in> ri_prune_now ` set (i # is) | _ \<Rightarrow> True) (a1 @ a2 @ a3)"
      using a1(2) a3(3) by (auto simp: a2_def list_all_iff split: action.splits)
    have "rs_daemon s' = run_actions D config (a1 @ a2 @ a3) (rs_daemon s)"
      using a1(1) t a3(1) by (simp add: run_actions_def)
    then show ?thesis by (intro exI conjI) (assumption, rule l, rule p)
  qed
qed simp

text \<open>The replay cache keeps its invariant and its capacity through a run.\<close>

lemma run_loop_replay_inv:
  assumes rs: "replay_store (dp_lru D) I (dp_ord D)" and i: "I (rc_inner (dm_replay (rs_daemon s)))"
    and r: "run_loop D B ops is config s = Returned s'"
  shows "I (rc_inner (dm_replay (rs_daemon s'))) \<and>
    replay_capacity (dp_lru D) (dm_replay (rs_daemon s')) = replay_capacity (dp_lru D) (dm_replay (rs_daemon s))"
proof -
  obtain acts where a: "rs_daemon s' = run_actions D config acts (rs_daemon s)"
    using run_loop_is_actions [OF r] by blast
  have "prune_keeps config (- 1) b" for b
    by (simp add: prune_keeps_def keeps_def split: action.splits)
  then obtain rops where "(dm_replay (rs_daemon s'), dm_disk (rs_daemon s')) =
      run_ops (dp_lru D) (dp_ord D) rops (dm_replay (rs_daemon s), dm_disk (rs_daemon s))"
    using run_actions_ops [of config "- 1" acts D "rs_daemon s"] a by (auto simp: list_all_iff)
  then show ?thesis
    using replay_store.inv_run [OF rs, of "(dm_replay (rs_daemon s), dm_disk (rs_daemon s))" rops] i
    by (metis fst_conv replay_capacity_def)
qed

text \<open>What a run that ended on a signal leaves behind.\<close>

lemma run_Ok_cases:
  assumes "run D B ops save_io is config s = Returned (Ok u, s')"
  obtains d s1 where "firewall_startup D config (rs_daemon s) = (Ok (), d)"
    "run_loop D B ops is config (s\<lparr>rs_daemon := d\<rparr>) = Returned s1"
    "s' = s1\<lparr>rs_daemon := daemon_exit D save_io config (rs_daemon s1)\<rparr>"
  using assms by (auto simp: run_def Let_def split: prod.splits sum.splits run_end.splits)

lemma firewall_startup_replay:
  "firewall_startup D config d = (r, d') \<Longrightarrow> dm_replay d' = dm_replay d"
  by (auto simp: firewall_startup_def Let_def split: prod.splits)

lemma daemon_exit_fields:
  "dm_replay (daemon_exit D save_io config d) = dm_replay d"
  "dm_disk (daemon_exit D no_fault config d) =
     (dm_disk d)(rp_cache_path (dc_replay config) \<mapsto> cache_text (dp_ord D (lru_iter (dp_lru D) (rc_inner (dm_replay d)))))"
  by (simp_all add: daemon_exit_def Let_def case_prod_beta save_to_file_def write_no_fault)

lemma restart_loads:
  assumes rs: "replay_store (dp_lru D) I (dp_ord D)" and rs': "replay_store (dp_lru D) I ord'"
    and i: "I (rc_inner (dm_replay (rs_daemon s)))"
    and cap: "replay_capacity (dp_lru D) (dm_replay (rs_daemon s)) \<le> DEFAULT_MAX_ENTRIES"
    and r: "run D B ops no_fault is config s = Returned (Ok u, s')"
    and len: "\<forall>e \<in> set (lru_iter (dp_lru D) (rc_inner (dm_replay (rs_daemon s')))). length (fst e) = 16"
  shows "\<exists>c. open_replay_cache (dp_lru D) ord' True None config (dm_disk (rs_daemon s')) = Ok c \<and> I (rc_inner c) \<and>
    mset (lru_iter (dp_lru D) (rc_inner c)) = mset (lru_iter (dp_lru D) (rc_inner (dm_replay (rs_daemon s'))))"
proof -
  obtain d s1 where d: "firewall_startup D config (rs_daemon s) = (Ok (), d)"
    and l: "run_loop D B ops is config (s\<lparr>rs_daemon := d\<rparr>) = Returned s1"
    and s': "s' = s1\<lparr>rs_daemon := daemon_exit D no_fault config (rs_daemon s1)\<rparr>"
    using r by (rule run_Ok_cases)
  note lru = replay_store.axioms(1) [OF rs]
  let ?path = "rp_cache_path (dc_replay config)" and ?it = "lru_iter (dp_lru D) (rc_inner (dm_replay (rs_daemon s')))"
  have i1: "I (rc_inner (dm_replay (rs_daemon s')))"
    and c1: "replay_capacity (dp_lru D) (dm_replay (rs_daemon s')) \<le> DEFAULT_MAX_ENTRIES"
    using run_loop_replay_inv [OF rs _ l] i cap firewall_startup_replay [OF d] s' by (simp_all add: daemon_exit_fields)
  have disk: "dm_disk (rs_daemon s') ?path = Some (cache_text (dp_ord D ?it))"
    using s' by (simp add: daemon_exit_fields)
  have es: "\<forall>e \<in> set (dp_ord D ?it). length (fst e) = 16" "distinct (map fst (dp_ord D ?it))"
    "length (dp_ord D ?it) \<le> DEFAULT_MAX_ENTRIES"
    using len replay_store.ord_set [OF rs] replay_store.ord_distinct [OF rs lru_cache.iter_distinct [OF lru i1]]
      lru_cache.iter_bounded [OF lru i1] c1
    by (simp_all add: replay_store.ord_length [OF rs] replay_capacity_def)
  obtain c where c: "load_from_file (dp_lru D) ord' None (dm_disk (rs_daemon s')) ?path = Ok c" "I (rc_inner c)"
    "lru_iter (dp_lru D) (rc_inner c) = rev (ord' (dp_ord D ?it))"
    using replay_store.load_written [OF rs' es, of "dm_disk (rs_daemon s')" ?path] disk by auto
  have "mset (lru_iter (dp_lru D) (rc_inner c)) = mset ?it"
    using c(3) replay_store.ord_perm [OF rs] replay_store.ord_perm [OF rs'] by simp
  then show ?thesis
    using c disk by (intro exI [of _ "set_persist_path ?path c"]) (simp add: open_replay_cache_def set_persist_path_def)
qed

text \<open>As root with the sandbox on, the main process of \<open>fwknoxd\<close> never gets past the sandbox.\<close>

lemma apply_sandbox_root:
  assumes "linux_process S caps" "is_root S p"
  shows "fst (apply_sandbox S config p) \<noteq> Some (Ok ())"
proof -
  define sc where "sc = \<lparr>sc_keep_caps = [CAP_NET_ADMIN],
      sc_drop_to = Some \<lparr>pt_user = ds_run_user (dc_daemon config), pt_group = ds_run_group (dc_daemon config)\<rparr>,
      sc_landlock = (if ds_landlock_enabled (dc_daemon config)
        then Some \<lparr>lc_read_only = [], lc_read_write = [parent_or_current (rp_cache_path (dc_replay config))]\<rparr> else None)\<rparr>"
  have "fst (sandbox_apply S sc p) \<noteq> Some (Ok ())"
    using linux_process.sandbox_apply_caps(2) [OF assms(1), of sc p "()" _ Effective]
    by (cases "sandbox_apply S sc p") (auto simp: sc_def)
  then show ?thesis
    using assms(2) unfolding apply_sandbox_def sc_def
    by (auto simp: Let_def case_prod_beta map_err_def split: sum.splits)
qed

lemma real_main_root:
  assumes "linux_process S caps" "is_root S p"
    and "load_daemon_config (dp_conf D) T read cli_config = Ok config" "ds_enable_sandbox (dc_daemon config)"
  shows "real_main Fwknoxd S ops D T read K P N io pis ris cli_config fw disk procs p = Panicked \<or>
    (\<exists>e. real_main Fwknoxd S ops D T read K P N io pis ris cli_config fw disk procs p = Returned (Err e, None))"
proof -
  obtain a q where a: "apply_sandbox S config p = (a, q)" by fastforce
  then have "a \<noteq> Some (Ok ())" using apply_sandbox_root [OF assms(1,2), of config] by simp
  then show ?thesis
    by (auto simp: real_main_def daemon_setup_def assms(3,4) a split: sum.splits option.splits)
qed

text \<open>With any firewall and cache, the loop processes the sample packet and stops.\<close>

lemma demo_run_any:
  assumes "process_packet D demo_env demo_packet demo_config d = Some (r, d')"
  obtains s' where "run_loop D scripted_capture list_lru [demo_input False, demo_input True] demo_config (run_of d) = Returned s'"
    "rs_daemon s' = d'"
proof -
  have "check ops sr sy ip open_limiter = (Pass, open_limiter\<lparr>lim_stats := incr_allowed (lim_stats open_limiter)\<rparr>)"
    for ops :: "(source_key, token_bucket) list_cache key_lru" and sr sy ip
    by (simp add: check_def open_limiter_def)
  then show ?thesis
    using that by (simp add: run_of_def demo_input_def scripted_capture_def run_receive_def handle_packet_def assms run_tick_def
        PRUNE_EVERY_TICKS_def is_shutdown_def trigger_def shutdown_new_def)
qed

lemma demo_run_opens:
  obtains s' where "run_loop demo_deps scripted_capture list_lru [demo_input False, demo_input True] demo_config demo_run = Returned s'"
    "(V4 0x0A000001, port_proto_new Tcp 22) \<in> mock_lets_through (dm_firewall (rs_daemon s'))"
proof -
  note dist = demo_distinct
  obtain h d where p: "process_packet demo_deps demo_env demo_packet demo_config demo_state = Some (Ok (Installed ''ssh'' h), d)"
    using demo_installs by blast
  obtain s' where "run_loop demo_deps scripted_capture list_lru [demo_input False, demo_input True] demo_config demo_run = Returned s'"
    "rs_daemon s' = d"
    using demo_run_any [OF p] unfolding demo_run_def by blast
  moreover have "(V4 0x0A000001, port_proto_new Tcp 22) \<in> mock_lets_through (dm_firewall d)"
  proof -
    obtain stanza payload rule fw where
      a: "authorised (dp_libs demo_deps) (dp_conf demo_deps) demo_config (pe_now demo_env) demo_packet stanza payload rule"
      and o: "fw_open_access (dp_fw demo_deps) rule (dm_firewall demo_state) = (Ok h, fw)" "dm_firewall d = fw"
      using iffD1 [OF process_packet_Installed [OF dist] p] by (elim exE conjE) simp
    have "rule_pairs rule \<subseteq> mock_lets_through fw"
      using mock.open_Ok [of rule "dm_firewall demo_state" h fw] o(1) by (simp add: demo_deps_def)
    moreover have "rule = \<lparr>ar_source_ip = V4 0x0A000001, ar_ports = [port_proto_new Tcp 22], ar_timeout = from_secs 30,
       ar_comment = rule_comment demo_payload\<rparr>"
      using a demo_authorised authorised_unique by (simp add: demo_deps_def demo_env_def)
    ultimately show ?thesis using o(2) by (auto simp: rule_pairs_def)
  qed
  ultimately show ?thesis using that by blast
qed

lemma parent_recv_procs [simp]: "pa_procs (parent_recv D N i config s) = pa_procs s"
  by (simp add: parent_recv_def Let_def case_prod_beta split: sum.split)

lemma sample_loads_demo:
  "load_daemon_config (dp_conf demo_deps) sample_toml (\<lambda>_. Ok []) ''/etc/fwknox/fwknoxd.toml'' = Ok sample_config"
  using sample_loads by (simp add: demo_deps_def)

subsection \<open>Properties\<close>

text \<open>
  C21. The single-process daemon ends exactly when it is told to. Whatever the capture backend,
  the limiter, the clocks and the firewall do, the main loop never panics; it returns if and
  only if the firewall cannot be initialised at the start or the shutdown flag is set when
  an iteration begins, so no packet and no error of a backend can stop it, and a signal
  always does, at the next iteration.
\<close>

theorem run_returns_iff_signalled:
  "run D B ops save_io is config s \<noteq> Panicked \<and>
   ((\<exists>r s'. run D B ops save_io is config s = Returned (r, s')) \<longleftrightarrow>
     (\<exists>e. fst (firewall_startup D config (rs_daemon s)) = Err e) \<or>
     (is_shutdown (rs_shutdown s) \<and> 0 < length is) \<or> list_ex ri_signal is)"
proof -
  obtain r d where f: "firewall_startup D config (rs_daemon s) = (r, d)" by fastforce
  show ?thesis
  proof (cases r)
    case (Inl e)
    then show ?thesis by (simp add: run_def f Let_def)
  next
    case (Inr u)
    then show ?thesis
      using run_loop_returns [of D B ops "is" config "s\<lparr>rs_daemon := d\<rparr>"]
      by (auto simp: run_def f Let_def split: run_end.splits)
  qed
qed

text \<open>
  C7. The single-process daemon lets nothing through without authority: at whatever iteration
  the loop is stopped, a pair of address and port that the firewall lets through and did not
  at the start belongs to the rule that the configuration authorised, at the time of
  handling, for a packet which the capture backend delivered and the rate limiter passed;
  the port is among the open ports of the stanza, and where the stanza requires a source
  match the address is the sender's.
\<close>

theorem run_opens_only_authorised:
  assumes "firewall_contract (dp_fw D) ok ready lets" and "ok (dm_firewall (rs_daemon s))"
    and "distinct (map st_name (dc_access config))"
    and "run_loop D B ops is config s = Returned s'"
    and "pair \<in> lets (dm_firewall (rs_daemon s'))" and "pair \<notin> lets (dm_firewall (rs_daemon s))"
  shows "asked_by D config (rs_passed s') pair"
proof -
  have "run_inv ok lets (lets (dm_firewall (rs_daemon s))) D config s"
    using assms(2) by (simp add: run_inv_def)
  then show ?thesis
    using run_inv_loop [OF _ assms(1,3,4)] assms(5,6) unfolding run_inv_def by blast
qed

theorem run_opens_only_authorised_witness:
  "\<exists>s'. run_loop demo_deps scripted_capture list_lru [demo_input False, demo_input True] demo_config demo_run = Returned s' \<and>
     asked_by demo_deps demo_config (rs_passed s') (V4 0x0A000001, port_proto_new Tcp 22)"
proof -
  note dist = demo_distinct
  note m = demo_contract
  obtain s' where r: "run_loop demo_deps scripted_capture list_lru [demo_input False, demo_input True] demo_config demo_run = Returned s'"
    and l: "(V4 0x0A000001, port_proto_new Tcp 22) \<in> mock_lets_through (dm_firewall (rs_daemon s'))"
    by (rule demo_run_opens)
  have "(V4 0x0A000001, port_proto_new Tcp 22) \<notin> mock_lets_through (dm_firewall (rs_daemon demo_run))"
    by (simp add: demo_run_def run_of_def demo_state_def mock_init_def mock_default_def mock_lets_through_def)
  then have "asked_by demo_deps demo_config (rs_passed s') (V4 0x0A000001, port_proto_new Tcp 22)"
    by (rule run_opens_only_authorised [OF m _ dist r l, simplified])
  then show ?thesis using r by blast
qed

text \<open>
  C20. A clean shutdown loses no nonce: when \<open>run\<close> returns after a signal and the final save
  succeeds, the next start loads the cache file and rejects every nonce that was in the
  cache, whatever orders the hash maps are iterated in, for a cache of at most the default
  capacity holding 16-byte nonces.
\<close>

theorem restart_rejects_known_nonces:
  assumes "replay_store (dp_lru D) I (dp_ord D)" and "replay_store (dp_lru D) I ord'"
    and "I (rc_inner (dm_replay (rs_daemon s)))"
    and "replay_capacity (dp_lru D) (dm_replay (rs_daemon s)) \<le> DEFAULT_MAX_ENTRIES"
    and "run D B ops no_fault is config s = Returned (Ok u, s')"
    and "\<forall>e \<in> set (lru_iter (dp_lru D) (rc_inner (dm_replay (rs_daemon s')))). length (fst e) = 16"
    and "lru_contains (dp_lru D) (rc_inner (dm_replay (rs_daemon s'))) n"
  shows "\<exists>c. open_replay_cache (dp_lru D) ord' True None config (dm_disk (rs_daemon s')) = Ok c \<and>
    fst (check_and_insert (dp_lru D) ord' now io n c disk) = Ok False"
proof -
  obtain c where c: "open_replay_cache (dp_lru D) ord' True None config (dm_disk (rs_daemon s')) = Ok c" "I (rc_inner c)"
    "mset (lru_iter (dp_lru D) (rc_inner c)) = mset (lru_iter (dp_lru D) (rc_inner (dm_replay (rs_daemon s'))))"
    using restart_loads [OF assms(1-6)] by blast
  obtain d s1 where d: "firewall_startup D config (rs_daemon s) = (Ok (), d)"
    and l: "run_loop D B ops is config (s\<lparr>rs_daemon := d\<rparr>) = Returned s1"
    and s': "s' = s1\<lparr>rs_daemon := daemon_exit D no_fault config (rs_daemon s1)\<rparr>"
    using assms(5) by (rule run_Ok_cases)
  have "I (rc_inner (dm_replay (rs_daemon s')))"
    using run_loop_replay_inv [OF assms(1) _ l] assms(3) firewall_startup_replay [OF d] s' by (simp add: daemon_exit_fields)
  note contains = lru_cache.contains_iter [OF replay_store.axioms(1) [OF assms(1)]]
  have "lru_contains (dp_lru D) (rc_inner c) n"
    using assms(7) mset_eq_setD [OF c(3)] contains [OF c(2)] contains [OF \<open>I (rc_inner (dm_replay (rs_daemon s')))\<close>] by simp
  then show ?thesis using c(1) by (auto simp: check_and_insert_def)
qed

theorem restart_rejects_known_nonces_witness:
  "\<exists>s' c. run demo_deps scripted_capture list_lru no_fault [demo_input True] demo_config
      (demo_run\<lparr>rs_daemon := demo_state\<lparr>dm_replay := sample_cache\<rparr>\<rparr>) = Returned (Ok (), s') \<and>
     open_replay_cache list_lru id True None demo_config (dm_disk (rs_daemon s')) = Ok c \<and>
     fst (check_and_insert list_lru id (Some (from_secs 2000)) no_fault (replicate 16 5) c Map.empty) = Ok False"
proof -
  let ?s = "demo_run\<lparr>rs_daemon := demo_state\<lparr>dm_replay := sample_cache\<rparr>\<rparr>"
  obtain s' where r: "run demo_deps scripted_capture list_lru no_fault [demo_input True] demo_config ?s = Returned (Ok (), s')"
    and s': "dm_replay (rs_daemon s') = sample_cache"
    by (simp add: run_def firewall_startup_def demo_deps_def mock_backend_def mock_init_def mock_flush_def demo_input_def
        is_shutdown_def trigger_def daemon_exit_fields demo_run_def run_of_def demo_state_def Let_def)
  have rs: "replay_store (dp_lru demo_deps) list_cache_inv (dp_ord demo_deps)"
    "replay_store (dp_lru demo_deps) list_cache_inv id"
    using list_replay.replay_store_axioms list_lru.lru_cache_axioms
    by (simp_all add: demo_deps_def replay_store_def replay_store_axioms_def)
  have "\<exists>c. open_replay_cache (dp_lru demo_deps) id True None demo_config (dm_disk (rs_daemon s')) = Ok c \<and>
      fst (check_and_insert (dp_lru demo_deps) id (Some (from_secs 2000)) no_fault (replicate 16 5) c Map.empty) = Ok False"
    by (rule restart_rejects_known_nonces [OF rs _ _ r])
      (simp_all add: s' sample_cache_inv replay_capacity_def demo_deps_def list_lru_def sample_cache_def DEFAULT_MAX_ENTRIES_def
        list_cache_inv_def)
  then show ?thesis using r by (auto simp: demo_deps_def)
qed





text \<open>
  The main loop honours the replay cache: after a packet was installed, the loop may run
  over any inputs whose prunes are not from the future and which are fewer than the capacity
  of the cache; the same bytes presented afterwards within the clock's range install nothing.
\<close>

theorem run_loop_acts_once:
  assumes "replay_store (dp_lru D) I (dp_ord D)" "I (rc_inner (dm_replay (rs_daemon s)))"
    and "valid_daemon config" "retention_covers_validity config"
    and "process_packet D env pkt config (rs_daemon s) = Some (Ok (Installed n h), d1)"
    and "run_loop D B ops is config (s\<lparr>rs_daemon := d1\<rparr>) = Returned s2"
    and "process_packet D env2 pkt2 config (rs_daemon s2) = Some (r, d3)" "cp_data pkt2 = cp_data pkt"
    and "unat (unix_secs (pe_now env)) \<le> unat (unix_secs (pe_now_replay env))"
      "unat (unix_secs (pe_now env)) < 2 ^ 62" "unat (unix_secs (pe_now env2)) < 2 ^ 62"
    and "\<forall>i \<in> set is. unat (unix_secs (ri_prune_now i)) \<le> unat (unix_secs (pe_now env2))"
    and "length is < replay_capacity (dp_lru D) (dm_replay (rs_daemon s))"
  shows "dm_firewall d3 = dm_firewall (rs_daemon s2) \<and> (\<forall>n h. r \<noteq> Ok (Installed n h))"
proof -
  obtain acts where a: "rs_daemon s2 = run_actions D config acts d1"
    "length (filter (\<lambda>a. \<not> is_prune a) acts) \<le> length is"
    "list_all (\<lambda>a. case a of Prune t _ \<Rightarrow> t \<in> ri_prune_now ` set is | _ \<Rightarrow> True) acts"
    using run_loop_is_actions [OF assms(6)] by (elim exE conjE) simp
  have "prunes_before (pe_now env2) acts"
    using a(3) assms(12) unfolding prunes_before_def by (elim list.pred_mono_strong) (auto split: action.splits)
  moreover have "length (filter (\<lambda>a. \<not> is_prune a) acts) < replay_capacity (dp_lru D) (dm_replay (rs_daemon s))"
    using a(2) assms(13) by simp
  ultimately show ?thesis
    using installed_at_most_once [OF assms(1-5) _ assms(8-11)] assms(7) a(1) by simp
qed

theorem run_loop_acts_once_witness:
  "\<exists>h d1 s2 r d3. process_packet demo_deps demo_env demo_packet demo_config demo_state = Some (Ok (Installed ''ssh'' h), d1) \<and>
     run_loop demo_deps scripted_capture list_lru [demo_input False, demo_input True] demo_config
       (demo_run\<lparr>rs_daemon := d1\<rparr>) = Returned s2 \<and>
     process_packet demo_deps (env_at 1025) demo_packet demo_config (rs_daemon s2) = Some (r, d3) \<and>
     (\<forall>n h. r \<noteq> Ok (Installed n h))"
proof -
  let ?is = "[demo_input False, demo_input True]"
  obtain h d1 where i: "process_packet demo_deps demo_env demo_packet demo_config (rs_daemon demo_run) = Some (Ok (Installed ''ssh'' h), d1)"
    using demo_installs by (auto simp: demo_run_def run_of_def)
  obtain s2 where l: "run_loop demo_deps scripted_capture list_lru ?is demo_config (demo_run\<lparr>rs_daemon := d1\<rparr>) = Returned s2"
    using run_loop_returns [of demo_deps scripted_capture list_lru ?is demo_config "demo_run\<lparr>rs_daemon := d1\<rparr>"]
    by (auto simp: demo_input_def)
  obtain r d3 where j: "process_packet demo_deps (env_at 1025) demo_packet demo_config (rs_daemon s2) = Some (r, d3)"
    using process_packet_total by blast
  note rs = demo_store
  have "dm_firewall d3 = dm_firewall (rs_daemon s2) \<and> (\<forall>n h. r \<noteq> Ok (Installed n h))"
    by (intro run_loop_acts_once [OF rs _ valid_demo_config(1) demo_retention i l j])
      (simp_all add: demo_deps_def demo_run_def run_of_def demo_state_def cache_eval demo_env_def env_at_def
        unix_secs_def demo_input_def)
  from i [unfolded demo_run_def run_of_def run_state.simps] conjunct2 [OF this] show ?thesis
    by (intro exI conjI) (assumption, rule l, rule j)
qed

end
