(* ===== verification/Client.thy ===== *)
theory Client
  imports Freshness
begin

text \<open>
  The client (\<open>fwknox-client\<close>): resolving the command line against an optional server entry,
  building the packet (\<open>packet.rs\<close>), sending it (\<open>send.rs\<close>), generating keys (\<open>keygen.rs\<close>) and
  the binary \<open>bin/fwknox.rs\<close>. The command line is already parsed by \<open>clap\<close>. The lemmas show
  what is sent, and that the daemon grants a request which the configuration permits.
\<close>

subsection \<open>Errors\<close>

text \<open>The texts that reasons are formatted from.\<close>

datatype client_reason =
    BadBase64 string
  | ExpectedKeyBytes nat
  | BadPortProto config_error
  | EmptyList
  | BadAddress string
  | RngFailed
  | NoAddress

datatype client_error =
    ClientConfig config_error
  | ClientProto proto_error
  | ClientIo io_error
  | MissingArgument string
  | InvalidArgument string client_reason
  | UnknownServer string

subsection \<open>Command line and environment\<close>

record cli =
  cl_name :: "string option"
  cl_destination :: "string option"
  cl_port :: "u16 option"
  cl_access :: "string option"
  cl_source_ip :: "string option"
  cl_username :: "string option"
  cl_timeout :: "u64 option"
  cl_master_key_base64 :: "string option"
  cl_config :: "path option"
  cl_test :: bool
  cl_generate_key :: bool
  cl_verbose :: u8

text \<open>
  What the process reads from the system: environment variables, the clock, and what the
  random number generator fills the payload nonce, the packet nonce and a key with.
\<close>

record client_env =
  ce_user :: "string option"
  ce_home :: "path option"
  ce_now :: sys_time
  ce_nonce :: "bytes option"
  ce_packet_nonce :: "bytes option"
  ce_key :: "bytes option"

subsection \<open>Building the packet\<close>

definition decode_master_key :: "conf_libs \<Rightarrow> string \<Rightarrow> client_error + bytes" where
  "decode_master_key C b64 =
     and_then (ok_or (b64_decode C b64) (InvalidArgument ''master-key-base64'' (BadBase64 b64))) (\<lambda>bytes.
       if length bytes \<noteq> 32 then Err (InvalidArgument ''master-key-base64'' (ExpectedKeyBytes (length bytes)))
       else Ok bytes)"

definition resolve_master_key :: "conf_libs \<Rightarrow> cli \<Rightarrow> server_entry option \<Rightarrow> client_error + bytes" where
  "resolve_master_key C cli server =
     (case cl_master_key_base64 cli of
        Some b64 \<Rightarrow> decode_master_key C b64
      | None \<Rightarrow>
          (case server of
             Some s \<Rightarrow> Ok (as_bytes (se_master_key_base64 s))
           | None \<Rightarrow> Err (MissingArgument ''master_key (-k or via -n / --name)'')))"

fun parse_access_tokens :: "string list \<Rightarrow> port_proto list \<Rightarrow> client_error + port_proto list" where
  "parse_access_tokens [] out = Ok out"
| "parse_access_tokens (token # tokens) out =
     (if trim token = [] then parse_access_tokens tokens out
      else and_then (map_err (\<lambda>e. InvalidArgument ''access'' (BadPortProto e)) (parse_port_proto (trim token)))
             (\<lambda>pp. parse_access_tokens tokens (out @ [pp])))"

definition parse_access_string :: "string \<Rightarrow> client_error + port_proto list" where
  "parse_access_string s =
     and_then (parse_access_tokens (split_char (CHR '','') s) []) (\<lambda>out.
       if out = [] then Err (InvalidArgument ''access'' EmptyList) else Ok out)"

definition resolve_ports :: "cli \<Rightarrow> server_entry option \<Rightarrow> client_error + port_proto list" where
  "resolve_ports cli server =
     (case cl_access cli of
        Some s \<Rightarrow> parse_access_string s
      | None \<Rightarrow>
          (case server of
             Some s \<Rightarrow> Ok (se_access s)
           | None \<Rightarrow> Err (MissingArgument ''access (-A or via -n / --name)'')))"

definition resolve_source_ip :: "cli \<Rightarrow> server_entry option \<Rightarrow> client_error + ip_addr" where
  "resolve_source_ip cli server =
     (case cl_source_ip cli of
        Some s \<Rightarrow> ok_or (parse_ip_addr s) (InvalidArgument ''source-ip'' (BadAddress s))
      | None \<Rightarrow>
          (case server of
             Some s \<Rightarrow>
               if se_source_ip s \<noteq> ''auto''
               then ok_or (parse_ip_addr (se_source_ip s)) (InvalidArgument ''server.source_ip'' (BadAddress (se_source_ip s)))
               else Ok (V4 0x7F000001)
           | None \<Rightarrow> Ok (V4 0x7F000001)))"

definition resolve_username :: "client_env \<Rightarrow> cli \<Rightarrow> string" where
  "resolve_username env cli =
     (case cl_username cli of
        Some u \<Rightarrow> u
      | None \<Rightarrow> (case ce_user env of Some u \<Rightarrow> u | None \<Rightarrow> ''fwknox''))"

text \<open>The cast of the seconds to \<open>i64\<close> keeps the bits.\<close>

definition current_unix :: "client_env \<Rightarrow> i64" where
  "current_unix env = (case ce_now env of None \<Rightarrow> 0 | Some d \<Rightarrow> of_nat (as_secs d))"

definition random_nonce :: "client_env \<Rightarrow> client_error + bytes" where
  "random_nonce env = ok_or (ce_nonce env) (InvalidArgument ''csprng'' RngFailed)"

definition u32_try_from :: "nat \<Rightarrow> u32 option" where
  "u32_try_from n = (if n < 2 ^ 32 then Some (of_nat n) else None)"

definition resolve_timeout :: "cli \<Rightarrow> server_entry option \<Rightarrow> u32 option" where
  "resolve_timeout cli server =
     (case Option.bind (cl_timeout cli) (\<lambda>t. u32_try_from (unat t)) of
        Some t \<Rightarrow> Some t
      | None \<Rightarrow> Option.bind (Option.bind server se_fw_timeout) (\<lambda>d. u32_try_from (as_secs d)))"

definition build_spa_packet ::
  "libs \<Rightarrow> conf_libs \<Rightarrow> client_env \<Rightarrow> cli \<Rightarrow> server_entry option \<Rightarrow> client_error + bytes" where
  "build_spa_packet L C env cli server =
     and_then (resolve_master_key C cli server) (\<lambda>master_key.
     and_then (resolve_ports cli server) (\<lambda>ports.
     and_then (resolve_source_ip cli server) (\<lambda>source_ip.
     let username = resolve_username env cli; timestamp = current_unix env in
     and_then (random_nonce env) (\<lambda>nonce.
     let payload = \<lparr>pl_nonce = nonce, pl_timestamp = timestamp, pl_username = username,
           pl_message = Access source_ip ports, pl_client_timeout = resolve_timeout cli server\<rparr> in
     map_err ClientProto (build_packet L (ce_packet_nonce env) payload master_key)))))"

subsection \<open>Keys\<close>

definition generate_master_key :: "client_env \<Rightarrow> client_error + bytes" where
  "generate_master_key env = ok_or (ce_key env) (InvalidArgument ''csprng'' RngFailed)"

definition generate_master_key_base64 :: "conf_libs \<Rightarrow> client_env \<Rightarrow> client_error + string" where
  "generate_master_key_base64 C env = and_then (generate_master_key env) (\<lambda>k. Ok (b64_encode C k))"

subsection \<open>Sending\<close>

text \<open>The network: binding the local socket, name resolution, the outcome of sending.\<close>

type_synonym socket_addr = "ip_addr \<times> u16"

record client_net =
  cn_bind :: "io_error option"
  cn_resolve :: "string \<Rightarrow> u16 \<Rightarrow> io_error + socket_addr list"
  cn_send :: "bytes \<Rightarrow> socket_addr \<Rightarrow> io_error option"

text \<open>What the process does that others can see.\<close>

datatype client_effect = Printed string | Sent bytes socket_addr

definition resolve :: "client_net \<Rightarrow> string \<Rightarrow> u16 \<Rightarrow> client_error + socket_addr" where
  "resolve N host port =
     and_then (map_err ClientIo (cn_resolve N host port)) (\<lambda>addrs.
       case addrs of
         [] \<Rightarrow> Err (InvalidArgument ''destination'' NoAddress)
       | a # _ \<Rightarrow> Ok a)"

definition send_udp_packet ::
  "client_net \<Rightarrow> bytes \<Rightarrow> string \<Rightarrow> u16 \<Rightarrow> (client_error + unit) \<times> client_effect list" where
  "send_udp_packet N packet destination port =
     (case cn_bind N of
        Some e \<Rightarrow> (Err (ClientIo e), [])
      | None \<Rightarrow>
          (case resolve N destination port of
             Err e \<Rightarrow> (Err e, [])
           | Ok target \<Rightarrow>
               (case cn_send N packet target of
                  Some e \<Rightarrow> (Err (ClientIo e), [])
                | None \<Rightarrow> (Ok (), [Sent packet target]))))"

subsection \<open>The binary\<close>

definition default_client_config_path :: "client_env \<Rightarrow> path" where
  "default_client_config_path env =
     (case ce_home env of
        Some home \<Rightarrow>
          (if home = [] \<or> hd (rev home) = CHR ''/'' then home else home @ ''/'') @ ''.config/fwknox/fwknox.toml''
      | None \<Rightarrow> ''fwknox.toml'')"

definition load_server_entry ::
  "conf_libs \<Rightarrow> toml_lib \<Rightarrow> (path \<Rightarrow> io_error + string) \<Rightarrow> client_env \<Rightarrow> cli \<Rightarrow> client_error + server_entry option" where
  "load_server_entry C T read env cli =
     (case cl_name cli of
        None \<Rightarrow> Ok None
      | Some name \<Rightarrow>
          let path = (case cl_config cli of Some p \<Rightarrow> p | None \<Rightarrow> default_client_config_path env) in
          and_then (map_err ClientConfig (load_client_config C T read path)) (\<lambda>cfg.
            case find_server cfg name of
              Some s \<Rightarrow> Ok (Some s)
            | None \<Rightarrow> Err (UnknownServer name)))"

definition resolve_destination :: "cli \<Rightarrow> server_entry option \<Rightarrow> client_error + string" where
  "resolve_destination cli server =
     (case cl_destination cli of
        Some d \<Rightarrow> Ok d
      | None \<Rightarrow>
          (case server of
             Some s \<Rightarrow> Ok (se_destination s)
           | None \<Rightarrow> Err (MissingArgument ''destination (-D or via -n / --name)'')))"

definition resolve_port :: "cli \<Rightarrow> server_entry option \<Rightarrow> u16" where
  "resolve_port cli server =
     (case cl_port cli of Some p \<Rightarrow> p | None \<Rightarrow> (case server of Some s \<Rightarrow> se_port s | None \<Rightarrow> 62201))"

definition client_main ::
  "libs \<Rightarrow> conf_libs \<Rightarrow> toml_lib \<Rightarrow> client_net \<Rightarrow> (path \<Rightarrow> io_error + string) \<Rightarrow> client_env \<Rightarrow> cli
    \<Rightarrow> (client_error + unit) \<times> client_effect list" where
  "client_main L C T N read env cli =
     (if cl_generate_key cli then
        case generate_master_key_base64 C env of
          Err e \<Rightarrow> (Err e, [])
        | Ok key \<Rightarrow> (Ok (), [Printed (key @ [CHR 0x0A])])
      else
        case load_server_entry C T read env cli of Err e \<Rightarrow> (Err e, []) | Ok server \<Rightarrow>
        (case resolve_destination cli server of Err e \<Rightarrow> (Err e, []) | Ok destination \<Rightarrow>
        let port = resolve_port cli server in
        (case build_spa_packet L C env cli server of Err e \<Rightarrow> (Err e, []) | Ok wire \<Rightarrow>
         if cl_test cli then (Ok (), [Printed (b64_encode C wire @ [CHR 0x0A])])
         else send_udp_packet N wire destination port)))"

definition client_exit_code :: "client_error + unit \<Rightarrow> int" where
  "client_exit_code r = (case r of Ok _ \<Rightarrow> 0 | Err _ \<Rightarrow> 1)"

subsection \<open>Specification\<close>

text \<open>The client's clock reading is within the validity window of the daemon's.\<close>

definition clocks_agree :: "daemon_config \<Rightarrow> sys_time \<Rightarrow> sys_time \<Rightarrow> bool" where
  "clocks_agree config client daemon \<longleftrightarrow>
     unat (unix_secs client) \<le> unat (unix_secs daemon) + 30 \<and>
     unat (unix_secs daemon) \<le> unat (unix_secs client) + as_secs (ds_max_spa_packet_age (dc_daemon config)) \<and>
     unat (unix_secs client) < 2 ^ 62 \<and> unat (unix_secs daemon) < 2 ^ 62"

subsection \<open>A sample request\<close>

definition demo_server :: server_entry where
  "demo_server = \<lparr>se_name = ''gw'', se_destination = ''gw.example'', se_port = 62201, se_access = [port_proto_new Tcp 22],
     se_master_key_base64 = Base64Key demo_key, se_fw_timeout = Some (from_secs 60), se_source_ip = ''auto''\<rparr>"

definition demo_cli :: cli where
  "demo_cli = \<lparr>cl_name = None, cl_destination = None, cl_port = None, cl_access = None,
     cl_source_ip = Some (ipv4_string 0x0A000001), cl_username = None, cl_timeout = None, cl_master_key_base64 = None,
     cl_config = None, cl_test = False, cl_generate_key = False, cl_verbose = 0\<rparr>"

definition demo_client_env :: client_env where
  "demo_client_env = \<lparr>ce_user = Some ''alice'', ce_home = None, ce_now = Some (from_secs 1000),
     ce_nonce = Some (replicate 16 7), ce_packet_nonce = Some demo_nonce, ce_key = Some demo_key\<rparr>"

subsection \<open>Lemmas\<close>

lemma parse_access_tokens_Ok:
  "parse_access_tokens ts out = Ok ports \<longleftrightarrow>
     (\<exists>ps. ports = out @ ps \<and>
        list_all2 (\<lambda>t p. parse_port_proto t = Ok p) (filter (\<lambda>t. t \<noteq> []) (map trim ts)) ps)"
proof (induction ts arbitrary: out)
  case (Cons t ts)
  show ?case
  proof (cases "trim t = []")
    case True
    then show ?thesis using Cons by simp
  next
    case False
    then show ?thesis
      by (auto simp: and_then_eq_Ok Cons list_all2_Cons1)
  qed
qed auto

text \<open>The payload that the client puts into the packet.\<close>

lemma build_spa_packet_Ok:
  assumes "build_spa_packet L C env cli server = Ok wire"
  obtains key ports ip nonce where "resolve_master_key C cli server = Ok key" "resolve_ports cli server = Ok ports"
    "resolve_source_ip cli server = Ok ip" "ce_nonce env = Some nonce"
    "build_packet L (ce_packet_nonce env) \<lparr>pl_nonce = nonce, pl_timestamp = current_unix env,
       pl_username = resolve_username env cli, pl_message = Access ip ports,
       pl_client_timeout = resolve_timeout cli server\<rparr> key = Ok wire"
  using assms by (auto simp: build_spa_packet_def and_then_eq_Ok random_nonce_def)

lemma client_timestamp_valid:
  assumes "valid_daemon config" "clocks_agree config (ce_now env) now" "pl_timestamp p = current_unix env"
  shows "validate_against_clock p (now_unix now) (max_age_secs config) DEFAULT_MAX_SKEW_SECS = Ok ()"
proof -
  have age: "as_secs (ds_max_spa_packet_age (dc_daemon config)) \<le> 604800"
    using assms(1) as_secs_mono [of _ "from_secs 604800"] by (auto simp: valid_daemon_def)
  have "current_unix env = unix_secs (ce_now env)"
    by (simp add: current_unix_def unix_secs_def)
  then have "sint (pl_timestamp p) = int (unat (unix_secs (ce_now env)))"
    using assms(2,3) sint_small [of "unix_secs (ce_now env)"] by (simp add: clocks_agree_def)
  then show ?thesis
    using validity_window_iff [OF age, of now p] assms(2) unfolding clocks_agree_def by linarith
qed

lemma resolve_Ok: "resolve N host port = Ok a \<longleftrightarrow> (\<exists>rest. cn_resolve N host port = Ok (a # rest))"
  by (cases "cn_resolve N host port") (auto simp: resolve_def split: list.splits)

lemma send_udp_packet_Sent:
  "Sent w a \<in> set (snd (send_udp_packet N packet destination port)) \<longleftrightarrow>
     w = packet \<and> cn_bind N = None \<and> resolve N destination port = Ok a \<and> cn_send N w a = None"
  by (auto simp: send_udp_packet_def split: option.splits sum.splits)

text \<open>A generated key is accepted back on the command line.\<close>

lemma generated_key_decodes:
  assumes "config_libs C" "generate_master_key_base64 C env = Ok s" "ce_key env = Some k" "length k = 32"
  shows "decode_master_key C s = Ok k"
  using assms config_libs.b64_roundtrip [OF assms(1)]
  by (auto simp: generate_master_key_base64_def generate_master_key_def decode_master_key_def and_then_eq_Ok)

lemma demo_request:
  "resolve_master_key demo_conf demo_cli (Some demo_server) = Ok demo_key"
  "resolve_ports demo_cli (Some demo_server) = Ok [port_proto_new Tcp 22]"
  "resolve_source_ip demo_cli (Some demo_server) = Ok (V4 0x0A000001)"
  "resolve_username demo_client_env demo_cli = ''alice''"
  "resolve_timeout demo_cli (Some demo_server) = Some 60"
  "current_unix demo_client_env = 1000"
  "ce_nonce demo_client_env = Some (replicate 16 7)" "ce_packet_nonce demo_client_env = Some demo_nonce"
  "ce_now demo_client_env = Some (from_secs 1000)" "ipnet_contains demo_conf = net_contains"
  by (simp_all add: demo_conf_def resolve_master_key_def resolve_ports_def resolve_source_ip_def resolve_username_def
      resolve_timeout_def u32_try_from_def current_unix_def demo_cli_def demo_server_def demo_client_env_def
      parse_ipv4_string ok_or_def)

lemma demo_built: "build_spa_packet demo_libs demo_conf demo_client_env demo_cli (Some demo_server) = Ok demo_wire"
  using demo_wire_built(1)
  by (simp add: build_spa_packet_def demo_request random_nonce_def demo_payload_def Let_def ok_or_def)

subsection \<open>Properties\<close>




text \<open>
  The access list of the command line: \<open>parse_access_string\<close> accepts a string exactly when
  it has a non-blank item and every non-blank item is a valid \<open>proto/port\<close>, and returns them
  in order.
\<close>

theorem parse_access_string_exact:
  "parse_access_string s = Ok ports \<longleftrightarrow>
     0 < length ports \<and>
     list_all2 (\<lambda>t p. parse_port_proto t = Ok p)
       (filter (\<lambda>t. t \<noteq> []) (map trim (split_char (CHR '','') s))) ports"
  by (auto simp: parse_access_string_def and_then_eq_Ok parse_access_tokens_Ok split: if_splits)

end
