(* ===== verification/Gate.thy ===== *)
theory Gate
  imports Daemon_Run
begin

text \<open>
  What the daemon promises, as an abstract machine: a gate that remembers nonces and lets
  pairs of source and port through. The gate opens a pair only by granting the rule of an
  authorised packet whose nonce it does not remember, and remembers the nonce in the same
  step. Both forms of the daemon, the single process of \<open>run.rs\<close> and the three processes of
  \<open>privsep_run.rs\<close>, are forward simulations of this machine.
\<close>

section \<open>The gate\<close>

record gate =
  gt_seen :: "nonce set"
  gt_open :: "(ip_addr \<times> port_proto) set"

text \<open>
  The last argument of an event is the set of nonces that the gate forgets in it.
\<close>

datatype gate_event =
    Grant captured_packet nonce access_rule "nonce set"
  | Burn nonce "nonce set"
  | Lose "nonce set"

primrec forgotten :: "gate_event \<Rightarrow> nonce set" where
  "forgotten (Grant captured n rule gone) = gone"
| "forgotten (Burn n gone) = gone"
| "forgotten (Lose gone) = gone"

text \<open>The packets granted, and the pairs they opened.\<close>

definition grants :: "gate_event list \<Rightarrow> captured_packet set" where
  "grants es = {captured. \<exists>n rule gone. Grant captured n rule gone \<in> set es}"

definition crediting :: "captured_packet set \<Rightarrow> gate_event set" where
  "crediting packets = {e. grants [e] \<subseteq> packets}"

definition granted_pairs :: "gate_event list \<Rightarrow> (ip_addr \<times> port_proto) set" where
  "granted_pairs es = {pair. \<exists>captured n rule gone. Grant captured n rule gone \<in> set es \<and> pair \<in> rule_pairs rule}"

text \<open>A full memory makes room for one nonce by forgetting one.\<close>

definition makes_room :: "nat \<Rightarrow> nonce set \<Rightarrow> nonce set \<Rightarrow> bool" where
  "makes_room cap seen gone \<longleftrightarrow> (if card seen < cap then gone = {} else \<exists>m \<in> seen. gone = {m})"

inductive gate_step :: "libs \<Rightarrow> conf_libs \<Rightarrow> daemon_config \<Rightarrow> nat \<Rightarrow> gate \<Rightarrow> gate_event \<Rightarrow> gate \<Rightarrow> bool"
  for L C config cap where
  grant: "authorised L C config now captured stanza payload rule \<Longrightarrow> pl_nonce payload \<notin> gt_seen g \<Longrightarrow>
     makes_room cap (gt_seen g) gone \<Longrightarrow> op \<subseteq> gt_open g \<union> rule_pairs rule \<Longrightarrow>
     gate_step L C config cap g (Grant captured (pl_nonce payload) rule gone)
       \<lparr>gt_seen = insert (pl_nonce payload) (gt_seen g - gone), gt_open = op\<rparr>"
| burn: "n \<notin> gt_seen g \<Longrightarrow> makes_room cap (gt_seen g) gone \<Longrightarrow>
     gate_step L C config cap g (Burn n gone) (g\<lparr>gt_seen := insert n (gt_seen g - gone)\<rparr>)"
| lose: "gone \<subseteq> gt_seen g \<Longrightarrow> op \<subseteq> gt_open g \<Longrightarrow>
     gate_step L C config cap g (Lose gone) \<lparr>gt_seen = gt_seen g - gone, gt_open = op\<rparr>"

inductive_simps gate_step_simps:
  "gate_step L C config cap g (Grant captured n rule gone) g'"
  "gate_step L C config cap g (Burn n gone) g'"
  "gate_step L C config cap g (Lose gone) g'"

text \<open>The runs of a machine whose steps carry events.\<close>

inductive trace :: "('a \<Rightarrow> 'e \<Rightarrow> 'a \<Rightarrow> bool) \<Rightarrow> 'a \<Rightarrow> 'e list \<Rightarrow> 'a \<Rightarrow> bool" for astep where
  trace_nil: "trace astep a [] a"
| trace_snoc: "trace astep a es b \<Longrightarrow> astep b e c \<Longrightarrow> trace astep a (es @ [e]) c"

text \<open>Between two grants of one nonce the gate has forgotten it.\<close>

definition grants_once :: "gate_event list \<Rightarrow> bool" where
  "grants_once es \<longleftrightarrow>
     (\<forall>before captured n rule gone between captured' rule' gone' after.
        es = before @ Grant captured n rule gone # between @ Grant captured' n rule' gone' # after \<longrightarrow>
        (\<exists>e \<in> set between. n \<in> forgotten e))"

section \<open>The gate of a daemon state\<close>

definition gate_of ::
  "('f \<Rightarrow> (ip_addr \<times> port_proto) set) \<Rightarrow> ('c, 'f) deps \<Rightarrow> ('c, 'f) daemon_state \<Rightarrow> gate" where
  "gate_of lets D d =
     \<lparr>gt_seen = fst ` set (lru_iter (dp_lru D) (rc_inner (dm_replay d))), gt_open = lets (dm_firewall d)\<rparr>"

text \<open>One iteration of the single-process loop, or a signal.\<close>

inductive loop_step ::
  "('c, 'f) deps \<Rightarrow> 'b capture_ops \<Rightarrow> 'k key_lru \<Rightarrow> daemon_config
    \<Rightarrow> ('k, 'c, 'f, 'b) run_state \<Rightarrow> ('k, 'c, 'f, 'b) run_state \<Rightarrow> bool"
  for D B ops config where
  iteration: "run_receive D B ops i config s = Some s1 \<Longrightarrow> \<not> is_shutdown (rs_shutdown s)
    \<Longrightarrow> loop_step D B ops config s (run_tick D i config s1)"
| signalled: "loop_step D B ops config s (s\<lparr>rs_shutdown := trigger (rs_shutdown s)\<rparr>)"

section \<open>Lemmas\<close>

subsection \<open>Runs of the gate\<close>

lemma trace_single: "astep a e b \<Longrightarrow> trace astep a [e] b"
  using trace_snoc [OF trace_nil] by fastforce

lemma trace_append: "trace astep b fs c \<Longrightarrow> trace astep a es b \<Longrightarrow> trace astep a (es @ fs) c"
  by (induction rule: trace.induct) (auto simp: trace_snoc simp flip: append_assoc)

inductive_cases trace_snocE: "trace astep a (es @ [e]) c"

lemma trace_split: "trace astep a (es @ fs) c \<Longrightarrow> \<exists>b. trace astep a es b \<and> trace astep b fs c"
proof (induction fs arbitrary: c rule: rev_induct)
  case Nil
  then show ?case using trace_nil by fastforce
next
  case (snoc f fs)
  then have "trace astep a ((es @ fs) @ [f]) c" by simp
  then obtain b where "trace astep a (es @ fs) b" "astep b f c"
    by (rule trace_snocE) auto
  then show ?case using snoc.IH trace_snoc by metis
qed

lemma trace_splitE:
  assumes "trace astep a (es @ fs) c"
  obtains b where "trace astep a es b" "trace astep b fs c"
  using trace_split [OF assms] by (elim exE conjE)

lemma trace_single_iff: "trace astep a [e] b \<longleftrightarrow> astep a e b"
proof
  assume "trace astep a [e] b"
  then have "trace astep a ([] @ [e]) b" by simp
  then obtain c where "trace astep a [] c" "astep c e b" by (rule trace_snocE) auto
  then show "astep a e b" by (auto elim: trace.cases)
qed (rule trace_single)

lemma gate_step_remembers:
  "gate_step L C config cap g e g' \<Longrightarrow> n \<in> gt_seen g \<Longrightarrow> n \<notin> forgotten e \<Longrightarrow> n \<in> gt_seen g'"
  by (cases rule: gate_step.cases) auto

lemma gate_step_opens: "gate_step L C config cap g e g' \<Longrightarrow> gt_open g' \<subseteq> gt_open g \<union> granted_pairs [e]"
  by (cases rule: gate_step.cases) (auto simp: granted_pairs_def)

lemma gate_remembers:
  "trace (gate_step L C config cap) g es g' \<Longrightarrow> n \<in> gt_seen g \<Longrightarrow> \<forall>e \<in> set es. n \<notin> forgotten e \<Longrightarrow> n \<in> gt_seen g'"
  by (induction rule: trace.induct) (auto intro: gate_step_remembers)

lemma gate_grants_once: "trace (gate_step L C config cap) g es g' \<Longrightarrow> grants_once es"
  unfolding grants_once_def
proof (intro allI impI)
  fix before captured n rule gone between captured' rule' gone' after
  assume t: "trace (gate_step L C config cap) g es g'"
    and es: "es = before @ Grant captured n rule gone # between @ Grant captured' n rule' gone' # after"
  let ?T = "trace (gate_step L C config cap)"
  have "?T g (before @ [Grant captured n rule gone] @ between @ [Grant captured' n rule' gone'] @ after) g'"
    using t es by simp
  then obtain g1 where "?T g1 ([Grant captured n rule gone] @ between @ [Grant captured' n rule' gone'] @ after) g'"
    by (rule trace_splitE)
  then obtain g2 where g2: "?T g1 [Grant captured n rule gone] g2"
    "?T g2 (between @ [Grant captured' n rule' gone'] @ after) g'"
    by (rule trace_splitE)
  from g2(2) obtain g3 where g3: "?T g2 between g3" "?T g3 ([Grant captured' n rule' gone'] @ after) g'"
    by (rule trace_splitE)
  from g3(2) obtain g4 where "?T g3 [Grant captured' n rule' gone'] g4"
    by (rule trace_splitE)
  with g2(1) have "n \<in> gt_seen g2" "n \<notin> gt_seen g3"
    by (auto simp: trace_single_iff gate_step_simps)
  then show "\<exists>e \<in> set between. n \<in> forgotten e"
    using gate_remembers [OF g3(1)] by blast
qed

lemma granted_pairs_append: "granted_pairs (es @ fs) = granted_pairs es \<union> granted_pairs fs"
  unfolding granted_pairs_def set_append by blast

lemma grants_append [simp]: "grants (es @ fs) = grants es \<union> grants fs"
  by (auto simp: grants_def)

lemma grants_single [simp]:
  "grants [] = {}" "grants [Grant captured n rule gone] = {captured}" "grants [Burn n gone] = {}" "grants [Lose gone] = {}"
  by (auto simp: grants_def)

lemma grants_credited: "grants es \<subseteq> packets \<longleftrightarrow> set es \<subseteq> crediting packets"
  unfolding grants_def crediting_def by fastforce

lemma gate_opens: "trace (gate_step L C config cap) g es g' \<Longrightarrow> gt_open g' \<subseteq> gt_open g \<union> granted_pairs es"
proof (induction rule: trace.induct)
  case (trace_snoc a es b e c)
  then show ?case using gate_step_opens [of L C config cap b e c] by (auto simp: granted_pairs_append)
qed simp

text \<open>The memory of the gate stays within its capacity.\<close>

lemma makes_room_bounded:
  assumes "makes_room cap seen gone" "finite seen" "card seen \<le> cap"
  shows "Suc (card (seen - gone)) \<le> cap"
proof (cases "card seen < cap")
  case True
  then show ?thesis using assms by (simp add: makes_room_def)
next
  case False
  then obtain m where "m \<in> seen" "gone = {m}" using assms(1) by (auto simp: makes_room_def)
  then show ?thesis using assms(2,3) card_Suc_Diff1 by metis
qed

lemma gate_bounded:
  assumes "trace (gate_step L C config cap) g es g'" "finite (gt_seen g)" "card (gt_seen g) \<le> cap"
  shows "finite (gt_seen g') \<and> card (gt_seen g') \<le> cap"
  using assms
proof (induction rule: trace.induct)
  case (trace_snoc a es b e c)
  then have b: "finite (gt_seen b)" "card (gt_seen b) \<le> cap" by simp_all
  have "card (gt_seen b - gone) \<le> cap" for gone
    using card_mono [of "gt_seen b" "gt_seen b - gone"] b by simp
  with trace_snoc(2) show ?case
    by cases (use b makes_room_bounded [OF _ b] in \<open>auto simp: card_insert_if\<close>)
qed simp

subsection \<open>Forward simulations\<close>

text \<open>
  A machine that simulates another by an abstraction function: every step is a run of the
  abstract machine whose events the state has been credited with.
\<close>

locale forward_simulation =
  fixes cstep :: "'s \<Rightarrow> 's \<Rightarrow> bool" and astep :: "'a \<Rightarrow> 'e \<Rightarrow> 'a \<Rightarrow> bool"
    and abst :: "'s \<Rightarrow> 'a" and keep :: "'s \<Rightarrow> bool" and credit :: "'s \<Rightarrow> 'e set"
  assumes keep_step: "keep s \<Longrightarrow> cstep s t \<Longrightarrow> keep t"
    and credit_step: "cstep s t \<Longrightarrow> credit s \<subseteq> credit t"
    and simulate: "keep s \<Longrightarrow> cstep s t \<Longrightarrow> \<exists>es. trace astep (abst s) es (abst t) \<and> set es \<subseteq> credit t"
begin

lemma refines:
  assumes "cstep\<^sup>*\<^sup>* s t" "keep s"
  shows "keep t \<and> (\<exists>es. trace astep (abst s) es (abst t) \<and> set es \<subseteq> credit t)"
  using assms
proof (induction rule: rtranclp_induct)
  case base
  then show ?case by (intro conjI exI [of _ "[]"]) (simp_all add: trace_nil)
next
  case (step t u)
  then obtain es where es: "keep t" "trace astep (abst s) es (abst t)" "set es \<subseteq> credit t" by auto
  obtain fs where fs: "trace astep (abst t) fs (abst u)" "set fs \<subseteq> credit u"
    using simulate [OF es(1) step(2)] by (elim exE conjE)
  have "trace astep (abst s) (es @ fs) (abst u)" by (rule trace_append [OF fs(1) es(2)])
  moreover have "set (es @ fs) \<subseteq> credit u" using es(3) fs(2) credit_step [OF step(2)] by auto
  ultimately show ?case using keep_step [OF es(1) step(2)] by metis
qed

end

subsection \<open>The daemon's operations on the gate\<close>

text \<open>
  What the daemon relies on: a firewall that keeps its contract, a cache that is one, and
  access stanzas with distinct names.
\<close>

locale gate_daemon = firewall_contract "dp_fw D" ok ready lets + replay_store "dp_lru D" I "dp_ord D"
  for D :: "('c, 'f) deps" and ok ready lets I +
  fixes config :: daemon_config and cap :: nat
  assumes names: "distinct (map st_name (dc_access config))"
begin

abbreviation gstep :: "gate \<Rightarrow> gate_event \<Rightarrow> gate \<Rightarrow> bool" where
  "gstep \<equiv> gate_step (dp_libs D) (dp_conf D) config cap"

definition gate_inv :: "('c, 'f) daemon_state \<Rightarrow> bool" where
  "gate_inv d \<longleftrightarrow> ok (dm_firewall d) \<and> I (rc_inner (dm_replay d)) \<and> lru_cap (dp_lru D) (rc_inner (dm_replay d)) = cap"

text \<open>A transition of the daemon state that the gate has too, granting only some packets.\<close>

definition simulated :: "captured_packet set \<Rightarrow> ('c, 'f) daemon_state \<Rightarrow> ('c, 'f) daemon_state \<Rightarrow> bool" where
  "simulated packets d d' \<longleftrightarrow> (gate_inv d \<longrightarrow> gate_inv d' \<and>
     (\<exists>es. trace gstep (gate_of lets D d) es (gate_of lets D d') \<and> grants es \<subseteq> packets))"

lemma simulated_refl: "simulated packets d d"
  unfolding simulated_def by (metis trace_nil grants_single(1) empty_subsetI)

lemma simulated_mono: "simulated packets d d' \<Longrightarrow> packets \<subseteq> packets' \<Longrightarrow> simulated packets' d d'"
  unfolding simulated_def by (metis subset_trans)

lemma simulated_trans: "simulated packets d d1 \<Longrightarrow> simulated packets d1 d2 \<Longrightarrow> simulated packets d d2"
  unfolding simulated_def by (metis trace_append grants_append Un_subset_iff)

lemma simulated_step:
  assumes "gate_inv d \<Longrightarrow> gate_inv d'" "gate_inv d \<Longrightarrow> gstep (gate_of lets D d) e (gate_of lets D d')" "grants [e] \<subseteq> packets"
  shows "simulated packets d d'"
  unfolding simulated_def using assms trace_single by metis

text \<open>A check of a nonce records it, making room, or leaves a part of what was recorded.\<close>

lemma butlast_room:
  assumes "distinct (map fst es)" "es \<noteq> [] \<or> length es < k"
  shows "\<exists>gone. makes_room k (fst ` set es) gone \<and>
    fst ` set (if length es < k then es else butlast es) = fst ` set es - gone"
proof (cases "length es < k")
  case True
  then show ?thesis
    using distinct_card [OF assms(1)] by (intro exI [of _ "{}"]) (simp add: makes_room_def)
next
  case False
  then obtain fs e where es: "es = fs @ [e]" using assms(2) by (metis append_butlast_last_id)
  then show ?thesis
    using distinct_card [OF assms(1)] assms(1) False
    by (intro exI [of _ "{fst e}"]) (auto simp: makes_room_def)
qed

lemma check_seen:
  assumes i: "I (rc_inner c)" and c: "check_and_insert (dp_lru D) (dp_ord D) now io n c disk = (r, c', disk')"
  defines "seen \<equiv> fst ` set (entries c)" and "seen' \<equiv> fst ` set (entries c')"
  shows "I (rc_inner c') \<and> lru_cap (dp_lru D) (rc_inner c') = lru_cap (dp_lru D) (rc_inner c) \<and>
    (if r = Ok True
     then n \<notin> seen \<and> (\<exists>gone. makes_room (lru_cap (dp_lru D) (rc_inner c)) seen gone \<and> seen' = insert n (seen - gone))
     else seen' \<subseteq> seen)"
  using i
proof (cases rule: check_and_insert_cases [where n = n and now = now and io = io and disk = disk])
  case replay
  then show ?thesis using c i by (simp add: seen_def seen'_def)
next
  case (fresh c1 disk1)
  have "entries c \<noteq> [] \<or> length (entries c) < lru_cap (dp_lru D) (rc_inner c)"
    using cap_pos [OF i] by auto
  from butlast_room [OF iter_distinct [OF i] this] obtain gone
    where g: "makes_room (lru_cap (dp_lru D) (rc_inner c)) seen gone"
      "fst ` set (if length (entries c) < lru_cap (dp_lru D) (rc_inner c) then entries c else butlast (entries c)) = seen - gone"
    unfolding seen_def by (elim exE conjE)
  have c': "c' = c1" "r = Ok True" using c fresh(3) by simp_all
  have "entries c' = (n, unix_secs now) #
      (if length (entries c) < lru_cap (dp_lru D) (rc_inner c) then entries c else butlast (entries c))"
    unfolding c' fresh(2) using put_fresh_entries(1) [OF i fresh(1)] by simp
  then have "seen' = insert n (seen - gone)"
    unfolding seen'_def by (simp only: list.set image_insert fst_conv g(2))
  then show ?thesis
    using g(1) fresh(1,2) c' i by (auto simp: seen_def put_inv put_cap)
next
  case (failed e c1 path)
  then show ?thesis
    using c i put_fresh_entries(2) [OF i failed(1)] in_set_butlastD [of _ "entries c"]
    by (auto simp: seen_def seen'_def put_inv put_cap pop_inv pop_cap)
qed

text \<open>
  The one way in which the daemon opens anything: for an authorised packet, whose nonce is
  checked first.
\<close>

definition honours :: "captured_packet \<Rightarrow> ('c, 'f) daemon_state \<Rightarrow> ('c, 'f) daemon_state \<Rightarrow> bool" where
  "honours captured d d' \<longleftrightarrow> (\<exists>now stanza payload rule t io r.
     authorised (dp_libs D) (dp_conf D) config now captured stanza payload rule \<and>
     check_and_insert (dp_lru D) (dp_ord D) t io (pl_nonce payload) (dm_replay d) (dm_disk d) = (r, dm_replay d', dm_disk d') \<and>
     dm_firewall d' = (if r = Ok True then snd (fw_open_access (dp_fw D) rule (dm_firewall d)) else dm_firewall d))"

lemma process_packet_honours:
  assumes a: "authorised (dp_libs D) (dp_conf D) config (pe_now env) captured stanza payload rule"
    and p: "process_packet D env captured config d = Some (r, d')"
  shows "honours captured d d'"
proof -
  obtain q replay disk where c: "check_and_insert (dp_lru D) (dp_ord D) (pe_now_replay env) (pe_io env)
      (pl_nonce payload) (dm_replay d) (dm_disk d) = (q, replay, disk)"
    by (metis prod_cases3)
  have "dm_replay d' = replay \<and> dm_disk d' = disk \<and> dm_firewall d' =
      (if q = Ok True then snd (fw_open_access (dp_fw D) rule (dm_firewall d)) else dm_firewall d)"
    using p unfolding process_packet_authorised [OF a names]
    by (auto simp: c case_prod_beta Let_def split: sum.splits bool.splits)
  then show ?thesis unfolding honours_def using a c by metis
qed

lemma handle_honours:
  assumes v: "validate_capture_msg (dp_libs D) (dp_conf D) config now
      (Packet (cp_source_ip captured) (cp_data captured)) = Some msg"
  shows "handle_crypto_msg D env msg config d = d \<or> honours captured d (handle_crypto_msg D env msg config d)"
proof (cases msg)
  case (ValidRequest n src p)
  have eta: "\<lparr>cp_source_ip = cp_source_ip captured, cp_data = cp_data captured\<rparr> = captured" by simp
  obtain stanza rule where n: "n = st_name stanza"
    and a: "authorised (dp_libs D) (dp_conf D) config now captured stanza p rule"
    using v ValidRequest validate_ValidRequest [OF names] eta by auto
  obtain q replay disk where c: "check_and_insert (dp_lru D) (dp_ord D) (pe_now_replay env) (pe_io env)
      (pl_nonce p) (dm_replay d) (dm_disk d) = (q, replay, disk)"
    by (metis prod_cases3)
  have "dm_replay (handle_crypto_msg D env msg config d) = replay \<and>
      dm_disk (handle_crypto_msg D env msg config d) = disk \<and>
      dm_firewall (handle_crypto_msg D env msg config d) =
        (if q = Ok True then snd (fw_open_access (dp_fw D) rule (dm_firewall d)) else dm_firewall d)"
    using ValidRequest n by (simp add: handle_ValidRequest [OF a names] c)
  then show ?thesis unfolding honours_def using a c by metis
qed (simp_all add: handle_other)

lemma honours_simulated:
  assumes "honours captured d d'"
  shows "simulated {captured} d d'"
proof (cases "gate_inv d")
  case True
  obtain now stanza payload rule t io r where
    a: "authorised (dp_libs D) (dp_conf D) config now captured stanza payload rule"
    and c: "check_and_insert (dp_lru D) (dp_ord D) t io (pl_nonce payload) (dm_replay d) (dm_disk d) = (r, dm_replay d', dm_disk d')"
    and f: "dm_firewall d' = (if r = Ok True then snd (fw_open_access (dp_fw D) rule (dm_firewall d)) else dm_firewall d)"
    using assms unfolding honours_def by (elim exE conjE)
  note s = check_seen [OF _ c]
  obtain q fw where o: "fw_open_access (dp_fw D) rule (dm_firewall d) = (q, fw)" by fastforce
  have ok: "ok (dm_firewall d)" using True by (simp add: gate_inv_def)
  have fw: "ok fw" "lets fw \<subseteq> lets (dm_firewall d) \<union> rule_pairs rule"
    using open_Ok [OF ok] open_Err [OF ok] open_adds_only [OF ok o] o by (cases q, auto)
  have inv: "gate_inv d'" using True s f fw o by (simp add: gate_inv_def)
  show ?thesis
  proof (cases "r = Ok True")
    case True
    then obtain gone where g: "pl_nonce payload \<notin> gt_seen (gate_of lets D d)" "makes_room cap (gt_seen (gate_of lets D d)) gone"
      "gate_of lets D d' = \<lparr>gt_seen = insert (pl_nonce payload) (gt_seen (gate_of lets D d) - gone), gt_open = lets fw\<rparr>"
      using s \<open>gate_inv d\<close> f o by (auto simp: gate_inv_def gate_of_def)
    have "lets fw \<subseteq> gt_open (gate_of lets D d) \<union> rule_pairs rule"
      using fw(2) by (simp add: gate_of_def)
    from gate_step.grant [OF a g(1,2) this]
    have "gstep (gate_of lets D d) (Grant captured (pl_nonce payload) rule gone) (gate_of lets D d')"
      by (simp only: g(3))
    then show ?thesis by (rule simulated_step [OF inv]) simp
  next
    case False
    then have "gstep (gate_of lets D d) (Lose (gt_seen (gate_of lets D d) - gt_seen (gate_of lets D d'))) (gate_of lets D d')"
      using s True f by (auto simp: gate_step_simps gate_inv_def gate_of_def)
    then show ?thesis by (rule simulated_step [OF inv]) simp
  qed
qed (simp add: simulated_def)

text \<open>The operations that only forget or close, and a check of a nonce that opens nothing.\<close>

lemma shrink_simulated:
  assumes "gate_inv d \<Longrightarrow> gate_inv d' \<and> gt_seen (gate_of lets D d') \<subseteq> gt_seen (gate_of lets D d) \<and>
    gt_open (gate_of lets D d') \<subseteq> gt_open (gate_of lets D d)"
  shows "simulated packets d d'"
proof (rule simulated_step)
  assume "gate_inv d"
  then show "gate_inv d'"
    and "gstep (gate_of lets D d) (Lose (gt_seen (gate_of lets D d) - gt_seen (gate_of lets D d'))) (gate_of lets D d')"
    using assms by (auto simp: gate_step_simps double_diff gate_of_def)
qed simp

lemma check_simulated:
  assumes c: "check_and_insert (dp_lru D) (dp_ord D) t io n (dm_replay d) disk = (r, dm_replay d', disk')"
    and f: "dm_firewall d' = dm_firewall d"
  shows "simulated packets d d'"
proof (cases "gate_inv d \<and> r = Ok True")
  case True
  then obtain gone where g: "n \<notin> gt_seen (gate_of lets D d)" "makes_room cap (gt_seen (gate_of lets D d)) gone"
    "gate_of lets D d' = (gate_of lets D d)\<lparr>gt_seen := insert n (gt_seen (gate_of lets D d) - gone)\<rparr>"
    using check_seen [OF _ c] f by (auto simp: gate_inv_def gate_of_def)
  show ?thesis
  proof (rule simulated_step)
    show "gate_inv d'" using True check_seen [OF _ c] f by (auto simp: gate_inv_def)
    show "gstep (gate_of lets D d) (Burn n gone) (gate_of lets D d')"
      unfolding g(3) by (rule gate_step.burn [OF g(1,2)])
  qed simp
next
  case False
  then show ?thesis
    using check_seen [OF _ c] f by (cases "gate_inv d", intro shrink_simulated) (auto simp: gate_inv_def gate_of_def simulated_def)
qed

lemma process_packet_simulated:
  assumes p: "process_packet D env captured config d = Some (r, d')"
  shows "simulated {captured} d d'"
proof (cases "\<exists>stanza payload rule. authorised (dp_libs D) (dp_conf D) config (pe_now env) captured stanza payload rule")
  case True
  then show ?thesis using process_packet_honours [OF _ p] honours_simulated by metis
next
  case False
  then have f: "dm_firewall d' = dm_firewall d"
    using process_packet_unauthorised [OF _ names p] by blast
  from process_packet_replay [OF p] show ?thesis
  proof (elim disjE exE)
    fix n
    assume "(dm_replay d', dm_disk d') =
      run_op (dp_lru D) (dp_ord D) (CheckAndInsert n (pe_now_replay env) (pe_io env)) (dm_replay d, dm_disk d)"
    then show ?thesis
      using check_simulated [OF _ f, of "pe_now_replay env" "pe_io env" n "dm_disk d"]
      by (metis prod.collapse run_op_def replay_op.case(1) fst_conv snd_conv)
  qed (use f in \<open>auto intro: shrink_simulated simp: gate_inv_def gate_of_def\<close>)
qed

lemma prune_simulated: "simulated packets d (prune_replay D now io config d)"
proof (rule shrink_simulated)
  assume i: "gate_inv d"
  obtain r c disk where p: "prune_older_than (dp_lru D) (dp_ord D) now io (rp_max_age (dc_replay config))
      (dm_replay d) (dm_disk d) = (r, c, disk)"
    by (metis prod_cases3)
  show "gate_inv (prune_replay D now io config d) \<and>
      gt_seen (gate_of lets D (prune_replay D now io config d)) \<subseteq> gt_seen (gate_of lets D d) \<and>
      gt_open (gate_of lets D (prune_replay D now io config d)) \<subseteq> gt_open (gate_of lets D d)"
    using prune_entries [OF _ p] i by (auto simp: prune_replay_def p gate_inv_def gate_of_def)
qed

lemma startup_simulated:
  assumes "firewall_startup D config d = (r, d')"
  shows "simulated packets d d'"
proof (rule shrink_simulated)
  assume i: "gate_inv d"
  define fw where "fw = (if ds_flush_rules_at_init (dc_daemon config) then snd (fw_flush (dp_fw D) (dm_firewall d))
    else dm_firewall d)"
  have fw: "ok fw" "lets fw \<subseteq> lets (dm_firewall d)"
    using i flush_Ok [OF _ surjective_pairing, of "dm_firewall d"] by (auto simp: fw_def gate_inv_def)
  have d': "d' = d\<lparr>dm_firewall := snd (fw_init (dp_fw D) fw)\<rparr>"
    using assms by (auto simp: firewall_startup_def fw_def Let_def case_prod_beta)
  show "gate_inv d' \<and> gt_seen (gate_of lets D d') \<subseteq> gt_seen (gate_of lets D d) \<and>
      gt_open (gate_of lets D d') \<subseteq> gt_open (gate_of lets D d)"
    using init_ok [OF fw(1) surjective_pairing] fw(2) i unfolding d' gate_inv_def gate_of_def by auto
qed

lemma exit_simulated: "simulated packets d (daemon_exit D save_io config d)"
proof (rule shrink_simulated)
  assume i: "gate_inv d"
  have "dm_firewall (daemon_exit D save_io config d) =
      (if ds_flush_rules_at_exit (dc_daemon config) then snd (fw_flush (dp_fw D) (dm_firewall d)) else dm_firewall d)"
    by (simp add: daemon_exit_def Let_def case_prod_beta)
  then show "gate_inv (daemon_exit D save_io config d) \<and>
      gt_seen (gate_of lets D (daemon_exit D save_io config d)) \<subseteq> gt_seen (gate_of lets D d) \<and>
      gt_open (gate_of lets D (daemon_exit D save_io config d)) \<subseteq> gt_open (gate_of lets D d)"
    using flush_Ok [OF _ surjective_pairing, of "dm_firewall d"] i
    by (auto simp: gate_inv_def gate_of_def daemon_exit_fields)
qed

end

subsection \<open>The three processes\<close>

locale gate_privsep = gate_daemon D ok ready lets I config cap
  for D :: "('c, 'f) deps" and ok ready lets I config cap +
  fixes ops :: "'k key_lru" and P :: "'p proc_ops" and M :: "capture_msg codec" and N :: "reject_reason crypto_msg codec"
  assumes packets: "msg_codec M" and replies: "msg_codec N"
begin

definition system_keep :: "('k, 'c, 'f, 'p) system \<Rightarrow> bool" where
  "system_keep s \<longleftrightarrow> system_inv ok lets UNIV D M N config s \<and> gate_inv (pa_daemon (sm_parent s))"

text \<open>An iteration of the parent honours at most one packet that passed, then may prune.\<close>

lemma parent_honours:
  assumes "system_inv ok lets UNIV D M N config s"
  shows "\<exists>d. (d = pa_daemon (sm_parent s) \<or> (\<exists>captured \<in> set (sm_passed s). honours captured (pa_daemon (sm_parent s)) d)) \<and>
    (pa_daemon (parent_iteration D P N i config (sm_parent s)) = d \<or>
     pa_daemon (parent_iteration D P N i config (sm_parent s)) = prune_replay D (pi_prune_now i) (pi_prune_io i) config d)"
proof -
  let ?d = "pa_daemon (parent_recv D N i config (sm_parent s))"
  have "?d = pa_daemon (sm_parent s) \<or> (\<exists>captured \<in> set (sm_passed s). honours captured (pa_daemon (sm_parent s)) ?d)"
  proof (cases "recv_msg N (pi_recv i) (pa_reader (sm_parent s))")
    case (Pair r q)
    show ?thesis
    proof (cases r)
      case (Inl e)
      then show ?thesis using Pair by (simp add: parent_recv_def)
    next
      case (Inr msg)
      then obtain b where b: "b \<in> set (pa_reader (sm_parent s))" "cd_from_slice N b = Ok msg"
        using recv_msg_queue [OF Pair] by blast
      obtain c now m where c: "c \<in> set (sm_passed s)" "cd_to_vec N m = Ok b"
        "validate_capture_msg (dp_libs D) (dp_conf D) config now (Packet (cp_source_ip c) (cp_data c)) = Some m"
        using assms b(1) unfolding system_inv_def by blast
      have "m = msg" using msg_codec.decode_encode [OF replies c(2)] b(2) by simp
      then show ?thesis
        using handle_honours [OF c(3), of "pi_env i" "pa_daemon (sm_parent s)"] c(1) Pair Inr by (auto simp: parent_recv_def)
    qed
  qed
  moreover have "pa_daemon (parent_iteration D P N i config (sm_parent s)) = ?d \<or>
      pa_daemon (parent_iteration D P N i config (sm_parent s)) = prune_replay D (pi_prune_now i) (pi_prune_io i) config ?d"
    by (auto simp: parent_iteration_def Let_def case_prod_beta split: sum.splits option.splits)
  ultimately show ?thesis by blast
qed

lemma parent_simulated:
  assumes "system_inv ok lets UNIV D M N config s"
  shows "simulated (set (sm_passed s)) (pa_daemon (sm_parent s))
    (pa_daemon (parent_iteration D P N i config (sm_parent s)))"
proof -
  obtain d where d: "d = pa_daemon (sm_parent s) \<or> (\<exists>captured \<in> set (sm_passed s). honours captured (pa_daemon (sm_parent s)) d)"
    "pa_daemon (parent_iteration D P N i config (sm_parent s)) = d \<or>
     pa_daemon (parent_iteration D P N i config (sm_parent s)) = prune_replay D (pi_prune_now i) (pi_prune_io i) config d"
    using parent_honours [OF assms, of i] by (elim exE conjE)
  have "simulated (set (sm_passed s)) (pa_daemon (sm_parent s)) d"
    using d(1) simulated_refl simulated_mono [OF honours_simulated] by auto
  then show ?thesis
    using d(2) simulated_trans [OF _ prune_simulated] by auto
qed

lemma system_simulated:
  assumes "system_step ops D P M N config s t" "system_keep s"
  shows "simulated (set (sm_passed t)) (pa_daemon (sm_parent s)) (pa_daemon (sm_parent t))"
  using assms(1)
proof cases
  case (parent i)
  then show ?thesis using parent_simulated [of s i] assms(2) by (simp add: system_keep_def)
qed (simp_all add: simulated_refl)

end

sublocale gate_privsep \<subseteq> privsep_sim: forward_simulation "system_step ops D P M N config"
  "gate_step (dp_libs D) (dp_conf D) config cap" "\<lambda>s. gate_of lets D (pa_daemon (sm_parent s))"
  system_keep "\<lambda>s. crediting (set (sm_passed s))"
proof unfold_locales
  fix s t :: "('k, 'c, 'f, 'p) system"
  assume st: "system_step ops D P M N config s t"
  then show "crediting (set (sm_passed s)) \<subseteq> crediting (set (sm_passed t))"
    by cases (auto simp: crediting_def)
  assume k: "system_keep s"
  have "system_inv ok lets UNIV D M N config t"
    using system_inv_step [OF st _ firewall_contract_axioms packets replies names] k by (simp add: system_keep_def)
  then show "system_keep t"
    using system_simulated [OF st k] k by (simp add: system_keep_def simulated_def)
  show "\<exists>es. trace (gate_step (dp_libs D) (dp_conf D) config cap) (gate_of lets D (pa_daemon (sm_parent s))) es
      (gate_of lets D (pa_daemon (sm_parent t))) \<and> set es \<subseteq> crediting (set (sm_passed t))"
    using system_simulated [OF st k] k by (simp add: system_keep_def simulated_def grants_credited)
qed

lemma system_reach_steps:
  "system_reach ops D P M N config s0 s \<Longrightarrow> (system_step ops D P M N config)\<^sup>*\<^sup>* s0 s"
  by (induction rule: system_reach.induct) auto

lemma system_reach_iff: "(system_step ops D P M N config)\<^sup>*\<^sup>* s0 s \<longleftrightarrow> system_reach ops D P M N config s0 s"
proof
  assume "(system_step ops D P M N config)\<^sup>*\<^sup>* s0 s"
  then show "system_reach ops D P M N config s0 s"
    by (induction rule: rtranclp_induct) (auto intro: system_reach.intros)
qed (rule system_reach_steps)

context gate_privsep
begin

lemma system_initial_keep:
  assumes "system_initial s0" "ok (dm_firewall (pa_daemon (sm_parent s0)))" "I (rc_inner (dm_replay (pa_daemon (sm_parent s0))))"
    "lru_cap (dp_lru D) (rc_inner (dm_replay (pa_daemon (sm_parent s0)))) = cap"
  shows "system_keep s0"
  using assms by (simp add: system_keep_def system_initial_def system_inv_def gate_inv_def)

lemma privsep_refines:
  assumes "system_reach ops D P M N config s0 s" "system_initial s0" "gate_inv (pa_daemon (sm_parent s0))"
  shows "\<exists>es. trace gstep (gate_of lets D (pa_daemon (sm_parent s0))) es (gate_of lets D (pa_daemon (sm_parent s))) \<and>
    grants es \<subseteq> set (sm_passed s) \<and> grants_once es"
proof -
  have k: "system_keep s0"
    using system_initial_keep [OF assms(2)] assms(3) by (simp add: gate_inv_def)
  obtain es where "trace gstep (gate_of lets D (pa_daemon (sm_parent s0))) es (gate_of lets D (pa_daemon (sm_parent s)))"
    "set es \<subseteq> crediting (set (sm_passed s))"
    using privsep_sim.refines [OF system_reach_steps [OF assms(1)] k] by (elim conjE exE)
  then show ?thesis
    using gate_grants_once grants_credited by (intro exI [of _ es]) blast
qed

end

subsection \<open>The single process\<close>

locale gate_loop = gate_daemon D ok ready lets I config cap
  for D :: "('c, 'f) deps" and ok ready lets I config cap +
  fixes ops :: "'k key_lru" and B :: "'b capture_ops"
begin

lemma loop_simulated:
  assumes "loop_step D B ops config s t"
  shows "simulated (snd ` set (rs_passed t)) (rs_daemon s) (rs_daemon t)"
  using assms
proof cases
  case (iteration i s1)
  have "simulated (snd ` set (rs_passed s1)) (rs_daemon s) (rs_daemon s1)"
  proof (cases rule: run_receive_cases [of D B ops i config s])
    case (idle s2)
    then show ?thesis using iteration(2) by (simp add: simulated_refl)
  next
    case (packet s2 pkt r)
    then have "s2 = s1" using iteration(2) by simp
    then show ?thesis
      using simulated_mono [OF process_packet_simulated [OF packet(2)]] packet(3) by simp
  qed
  moreover have "simulated (snd ` set (rs_passed s1)) (rs_daemon s1) (rs_daemon t)"
    unfolding iteration(1) by (simp add: run_tick_def Let_def simulated_refl prune_simulated)
  ultimately show ?thesis
    unfolding iteration(1) run_tick_fields by (rule simulated_trans)
qed (simp add: simulated_refl)

lemma loop_passed:
  assumes "loop_step D B ops config s t"
  shows "snd ` set (rs_passed s) \<subseteq> snd ` set (rs_passed t)"
  using assms
proof cases
  case (iteration i s1)
  have "set (rs_passed s) \<subseteq> set (rs_passed s1)"
    by (cases rule: run_receive_cases [of D B ops i config s]) (use iteration(2) in \<open>simp_all add: subset_insertI\<close>)
  then show ?thesis unfolding iteration(1) by (simp add: image_mono)
qed simp

end

sublocale gate_loop \<subseteq> loop_sim: forward_simulation "loop_step D B ops config"
  "gate_step (dp_libs D) (dp_conf D) config cap" "\<lambda>s. gate_of lets D (rs_daemon s)"
  "\<lambda>s. gate_inv (rs_daemon s)" "\<lambda>s. crediting (snd ` set (rs_passed s))"
proof unfold_locales
  fix s t :: "('k, 'c, 'f, 'b) run_state"
  assume st: "loop_step D B ops config s t"
  show "crediting (snd ` set (rs_passed s)) \<subseteq> crediting (snd ` set (rs_passed t))"
    using loop_passed [OF st] unfolding crediting_def by blast
  assume "gate_inv (rs_daemon s)"
  then show "gate_inv (rs_daemon t)"
    and "\<exists>es. trace (gate_step (dp_libs D) (dp_conf D) config cap) (gate_of lets D (rs_daemon s)) es
      (gate_of lets D (rs_daemon t)) \<and> set es \<subseteq> crediting (snd ` set (rs_passed t))"
    using loop_simulated [OF st] by (simp_all add: simulated_def grants_credited)
qed

text \<open>The loop of \<open>run.rs\<close> takes such steps, and the whole of \<open>run\<close> is one with the gate too.\<close>

lemma run_loop_steps:
  "run_loop D B ops is config s = Returned s' \<Longrightarrow> (loop_step D B ops config)\<^sup>*\<^sup>* s s'"
proof (induction "is" arbitrary: s)
  case (Cons i "is")
  define s0 where "s0 = (if ri_signal i then s\<lparr>rs_shutdown := trigger (rs_shutdown s)\<rparr> else s)"
  have s0: "(loop_step D B ops config)\<^sup>*\<^sup>* s s0"
    using loop_step.signalled [of D B ops config s] by (simp add: s0_def r_into_rtranclp)
  show ?case
  proof (cases "is_shutdown (rs_shutdown s0)")
    case True
    then show ?thesis using Cons.prems s0 by (simp add: s0_def [symmetric])
  next
    case False
    then obtain s1 where s1: "run_receive D B ops i config s0 = Some s1"
      "run_loop D B ops is config (run_tick D i config s1) = Returned s'"
      using Cons.prems by (auto simp: s0_def [symmetric] split: option.splits)
    have "loop_step D B ops config s0 (run_tick D i config s1)"
      by (rule loop_step.iteration [OF s1(1) False])
    then show ?thesis
      using s0 Cons.IH [OF s1(2)] by (meson rtranclp.rtrancl_into_rtrancl rtranclp_trans)
  qed
qed simp

context gate_loop
begin

lemma run_loop_simulated:
  "run_loop D B ops is config s = Returned s' \<Longrightarrow> simulated (snd ` set (rs_passed s')) (rs_daemon s) (rs_daemon s')"
  using loop_sim.refines [OF run_loop_steps] unfolding simulated_def grants_credited by metis

lemma run_simulated:
  assumes "run D B ops save_io is config s = Returned (r, s')"
  shows "simulated (snd ` set (rs_passed s')) (rs_daemon s) (rs_daemon s')"
proof -
  obtain q d where d: "firewall_startup D config (rs_daemon s) = (q, d)" by fastforce
  show ?thesis
  proof (cases q)
    case (Inl e)
    then show ?thesis
      using assms startup_simulated [OF d] by (auto simp: run_def d)
  next
    case (Inr u)
    then obtain s1 where s1: "run_loop D B ops is config (s\<lparr>rs_daemon := d\<rparr>) = Returned s1"
      "s' = s1\<lparr>rs_daemon := daemon_exit D save_io config (rs_daemon s1)\<rparr>"
      using assms by (auto simp: run_def d split: run_end.splits)
    have "simulated (snd ` set (rs_passed s1)) d (rs_daemon s1)"
      using run_loop_simulated [OF s1(1)] by simp
    then show ?thesis
      using simulated_trans [OF startup_simulated [OF d] simulated_trans [OF _ exit_simulated]] s1(2) by simp
  qed
qed

end

text \<open>The sample daemon, in both forms.\<close>

interpretation demo_gate_loop: gate_loop demo_deps "\<lambda>_. True" mk_initialized mock_lets_through list_cache_inv demo_config 4
  list_lru scripted_capture
  by (intro gate_loop.intro gate_daemon.intro gate_daemon_axioms.intro demo_contract demo_store demo_distinct)

interpretation demo_gate_privsep: gate_privsep demo_deps "\<lambda>_. True" mk_initialized mock_lets_through list_cache_inv demo_config 4
  list_lru no_children demo_packet_codec demo_codec
  by (intro gate_privsep.intro gate_daemon.intro gate_daemon_axioms.intro gate_privsep_axioms.intro demo_contract demo_store
      demo_distinct demo_packets.msg_codec_axioms demo_replies.msg_codec_axioms)

lemma demo_start:
  "list_cache_inv (rc_inner (dm_replay demo_state))"
  "gate_of mock_lets_through demo_deps demo_state = \<lparr>gt_seen = {}, gt_open = {}\<rparr>"
  "replay_capacity (dp_lru demo_deps) (dm_replay demo_state) = 4"
  by (simp_all add: gate_of_def demo_state_def demo_deps_def set_persist_path_def with_capacity_def replay_capacity_def
      list_lru_def list_cache_inv_def mock_init_def mock_default_def mock_lets_through_def)

section \<open>Properties\<close>





end
