(* ===== verification/Expiry.thy ===== *)
theory Expiry
  imports Gate Nftables "HOL-Library.Extended_Nat"
begin

text \<open>
  How long access lasts. The elements that the nftables backend adds carry the timeout of
  the rule; the locale \<open>timed_kernel\<close> adds to the kernel's laws a clock and the time, in
  seconds, at which each element dies. From these laws follows a timed firewall contract,
  and from the contract that both forms of the daemon let a pair through no longer than the
  timeout of an authorised packet after that packet was handled. An element that has died
  still counts as an element of the set here: what a firewall lets through at a time are the
  pairs that it lets through by its contract and that have not died by then.
\<close>

section \<open>The timed contract\<close>

text \<open>
  Opening gives a pair at most the timeout of the rule, in whole seconds, counted from the
  time of the operation; a rule that times out within the first second is not covered. No
  other operation lets a pair live longer, and the clock does not run backwards.
\<close>

locale timed_firewall = firewall_contract fw ok ready lets
  for fw :: "'f firewall_ops" and ok ready lets +
  fixes dies :: "'f \<Rightarrow> ip_addr \<times> port_proto \<Rightarrow> enat" and fw_clock :: "'f \<Rightarrow> nat"
  assumes dies_open: "ok f \<Longrightarrow> fw_open_access fw rule f = (r, f') \<Longrightarrow> pair \<in> lets f' \<Longrightarrow>
      0 < as_secs (ar_timeout rule) \<Longrightarrow>
      pair \<in> lets f \<and> dies f' pair \<le> dies f pair \<or>
      pair \<in> rule_pairs rule \<and> dies f' pair \<le> enat (fw_clock f' + as_secs (ar_timeout rule))"
    and clock_open: "ok f \<Longrightarrow> fw_open_access fw rule f = (r, f') \<Longrightarrow> fw_clock f \<le> fw_clock f'"

text \<open>The kernel's side: a clock, and when each element dies.\<close>

locale timed_kernel = nft_kernel A elems
  for A :: "'k ruleset_applier" and elems +
  fixes deadline :: "'k \<Rightarrow> string \<times> string \<times> u32 \<Rightarrow> enat" and kclock :: "'k \<Rightarrow> nat"
  assumes clock_mono: "ap_apply A rs k = (r, k') \<Longrightarrow> kclock k \<le> kclock k'"
    and deadline_Err: "ap_apply A rs k = (Err e, k') \<Longrightarrow> deadline k' x = deadline k x"
    and deadline_add: "ap_apply A (map (add_element t) es) k = (Ok u, k') \<Longrightarrow> 0 < t \<Longrightarrow>
      (x \<in> elems k \<and> deadline k' x = deadline k x) \<or> (x \<in> set es \<and> deadline k' x = enat (kclock k' + unat t)) \<or> x \<notin> elems k'"

section \<open>A kernel with a clock\<close>

text \<open>
  The reference kernel with a clock that moves on at each transaction, by delays given in
  advance. A transaction succeeds if it does on the elements that are still alive. An element
  added while alive keeps its deadline; a timeout of zero means that the element never dies.
\<close>

record clock_kernel =
  ck_kernel :: ref_kernel
  ck_deadline :: "string \<times> string \<times> u32 \<Rightarrow> enat"
  ck_clock :: nat
  ck_delays :: "nat list"

definition ck_alive :: "clock_kernel \<Rightarrow> nat \<Rightarrow> ref_kernel" where
  "ck_alive k now = (ck_kernel k)\<lparr>rk_elems := filter (\<lambda>(e, _). enat now < ck_deadline k e) (rk_elems (ck_kernel k))\<rparr>"

fun added_element :: "nf_object \<Rightarrow> ((string \<times> string \<times> u32) \<times> u32 option) list" where
  "added_element (CmdAdd (NfElement _ _ _ [EElem (EConcat [EString ip, EString proto, ENumber port]) t])) =
     [((ip, proto, port), t)]"
| "added_element _ = []"

definition element_death :: "nat \<Rightarrow> u32 option \<Rightarrow> enat" where
  "element_death now t = (case t of None \<Rightarrow> \<infinity> | Some t \<Rightarrow> if t = 0 then \<infinity> else enat (now + unat t))"

definition clock_apply :: "nft_ruleset \<Rightarrow> clock_kernel \<Rightarrow> (firewall_error + unit) \<times> clock_kernel" where
  "clock_apply rs k =
     (let now = ck_clock k + (case ck_delays k of [] \<Rightarrow> 0 | d # _ \<Rightarrow> d);
          k = k\<lparr>ck_clock := now, ck_delays := tl (ck_delays k)\<rparr>;
          alive = ck_alive k now in
      case (ref_run rs alive, ref_run rs (ck_kernel k)) of
        (Some _, Some k') \<Rightarrow>
          (Ok (), k\<lparr>ck_kernel := k', ck_deadline := (\<lambda>e.
             if e \<in> ref_elems alive then ck_deadline k e
             else case map_of (concat (map added_element rs)) e of
                    Some t \<Rightarrow> element_death now t | None \<Rightarrow> ck_deadline k e)\<rparr>)
      | _ \<Rightarrow> (Err (Backend ''nft failed while applying: No such file or directory''), k))"

definition clock_applier :: "clock_kernel ruleset_applier" where
  "clock_applier = \<lparr>ap_apply = clock_apply, ap_get_current = (\<lambda>k. ap_get_current ref_applier (ck_alive k (ck_clock k)))\<rparr>"

definition clock_elems :: "clock_kernel \<Rightarrow> (string \<times> string \<times> u32) set" where
  "clock_elems k = ref_elems (ck_kernel k)"

definition nft_dies :: "('k \<Rightarrow> string \<times> string \<times> u32 \<Rightarrow> enat) \<Rightarrow> 'k nft_backend \<Rightarrow> ip_addr \<times> port_proto \<Rightarrow> enat" where
  "nft_dies deadline b pair =
     (case pair of (V4 a, pp) \<Rightarrow> deadline (nb_kernel b) (element_key a pp) | (V6 _, _) \<Rightarrow> 0)"

text \<open>Every rule that the configuration can lead to lives for a second at least.\<close>

definition whole_second_timeouts :: "daemon_config \<Rightarrow> bool" where
  "whole_second_timeouts config \<longleftrightarrow>
     0 < as_secs (ds_default_fw_timeout (dc_daemon config)) \<and> 0 < as_secs (ds_max_fw_timeout (dc_daemon config)) \<and>
     list_all (\<lambda>st. case st_fw_timeout st of None \<Rightarrow> True | Some t \<Rightarrow> 0 < as_secs t) (dc_access config)"

text \<open>
  Between two states of the daemon, a pair is opened until \<open>t\<close> at the latest for one of the
  packets: authorised, with a nonce that was not remembered, and \<open>t\<close> is the timeout of its
  rule, bounded by the configured maximum, from the time of the opening.
\<close>

definition opened_for ::
  "('f \<Rightarrow> nat) \<Rightarrow> ('c, 'f) deps \<Rightarrow> daemon_config \<Rightarrow> captured_packet set \<Rightarrow> ('c, 'f) daemon_state
    \<Rightarrow> ('c, 'f) daemon_state \<Rightarrow> ip_addr \<times> port_proto \<Rightarrow> enat \<Rightarrow> bool" where
  "opened_for fw_clock D config packets d d' pair t \<longleftrightarrow>
     (\<exists>captured \<in> packets. \<exists>now stanza payload rule.
        authorised (dp_libs D) (dp_conf D) config now captured stanza payload rule \<and>
        pl_nonce payload \<notin> fst ` set (lru_iter (dp_lru D) (rc_inner (dm_replay d))) \<and>
        pair \<in> rule_pairs rule \<and> ar_timeout rule \<le> ds_max_fw_timeout (dc_daemon config) \<and>
        t \<le> enat (fw_clock (dm_firewall d') + as_secs (ar_timeout rule)))"

subsection \<open>A sample daemon on such a kernel\<close>

text \<open>Its clock reads 100, and 105 at the first transaction.\<close>

definition timed_firewall_state :: "clock_kernel nft_backend" where
  "timed_firewall_state = \<lparr>nb_kernel = \<lparr>ck_kernel = \<lparr>rk_table = True, rk_elems = []\<rparr>, ck_deadline = (\<lambda>_. 0),
     ck_clock = 100, ck_delays = [5]\<rparr>, nb_initialized = True\<rparr>"

definition timed_deps :: "((nonce, u64) list_cache, clock_kernel nft_backend) deps" where
  "timed_deps = \<lparr>dp_libs = demo_libs, dp_conf = demo_conf, dp_lru = list_lru, dp_ord = rev,
     dp_fw = nft_backend_ops clock_applier\<rparr>"

definition timed_state :: "((nonce, u64) list_cache, clock_kernel nft_backend) daemon_state" where
  "timed_state = \<lparr>dm_replay = set_persist_path ''/r'' (with_capacity list_lru 4), dm_disk = Map.empty,
     dm_firewall = timed_firewall_state\<rparr>"

text \<open>A configuration with a default timeout of half a second, which passes validation.\<close>

definition subsecond_config :: daemon_config where
  "subsecond_config = demo_config\<lparr>dc_daemon := default_daemon_section\<lparr>ds_default_fw_timeout := 500000000\<rparr>\<rparr>"

section \<open>Lemmas\<close>

lemma added_elements: "concat (map added_element (map (add_element t) es)) = map (\<lambda>e. (e, Some t)) es"
  by (induction es) (auto simp: add_element_def concat_expr_def)

lemma map_of_const: "map_of (map (\<lambda>e. (e, v)) es) e = (if e \<in> set es then Some v else None)"
  by (induction es) auto

lemma clock_apply_Ok:
  assumes "clock_apply rs k = (Ok u, k')"
  shows "ap_apply ref_applier rs (ck_kernel k) = (Ok u, ck_kernel k')"
  using assms by (auto simp: clock_apply_def ref_applier_def Let_def split: option.splits)

lemma clock_apply_Err:
  assumes "clock_apply rs k = (Err e, k')"
  shows "ck_kernel k' = ck_kernel k" "ck_deadline k' = ck_deadline k"
  using assms by (auto simp: clock_apply_def Let_def split: option.splits)

lemma clock_apply_clock: "clock_apply rs k = (r, k') \<Longrightarrow> ck_clock k \<le> ck_clock k'"
  by (auto simp: clock_apply_def Let_def split: option.splits list.splits)

lemma clock_apply_deadline:
  assumes "clock_apply (map (add_element t) es) k = (Ok u, k')" "0 < t"
  shows "x \<in> clock_elems k \<and> ck_deadline k' x = ck_deadline k x \<or>
    x \<in> set es \<and> ck_deadline k' x = enat (ck_clock k' + unat t) \<or> x \<notin> clock_elems k'"
proof -
  have el: "clock_elems k' = clock_elems k \<union> set es"
    using ref_kernel.apply_add [OF clock_apply_Ok [OF assms(1)]] by (simp add: clock_elems_def)
  have alive: "ref_elems (ck_alive k now) \<subseteq> clock_elems k" for k now
    by (auto simp: ck_alive_def ref_elems_def clock_elems_def)
  have "ck_deadline k' x = ck_deadline k x" if "x \<notin> set es"
    using that assms(1) unfolding clock_apply_def added_elements map_of_const
    by (auto simp: Let_def split: option.splits)
  moreover have "ck_deadline k' x = enat (ck_clock k' + unat t) \<or> ck_deadline k' x = ck_deadline k x \<and> x \<in> clock_elems k"
    if "x \<in> set es"
    using that assms alive [of "k\<lparr>ck_clock := ck_clock k', ck_delays := tl (ck_delays k)\<rparr>" "ck_clock k'"]
    unfolding clock_apply_def added_elements map_of_const
    by (auto simp: Let_def element_death_def clock_elems_def split: option.splits if_splits)
  ultimately show ?thesis using el by auto
qed

interpretation clock_kernel: timed_kernel clock_applier clock_elems ck_deadline ck_clock
proof (unfold_locales, unfold clock_applier_def ruleset_applier.simps clock_elems_def, goal_cases)
  case (1 rs k e k')
  then show ?case by (simp add: clock_apply_Err(1))
next
  case (2 k u k')
  then show ?case by (rule ref_kernel.apply_init [OF clock_apply_Ok])
next
  case (3 t es k u k')
  then show ?case by (rule ref_kernel.apply_add [OF clock_apply_Ok])
next
  case (4 es k u k')
  then show ?case by (rule ref_kernel.apply_delete [OF clock_apply_Ok])
next
  case (5 k u k')
  then show ?case by (rule ref_kernel.apply_flush [OF clock_apply_Ok])
next
  case (6 rs k r k')
  then show ?case by (rule clock_apply_clock)
next
  case (7 rs k e k' x)
  then show ?case by (simp add: clock_apply_Err(2))
next
  case (8 t es k u k' x)
  then show ?case by (rule clock_apply_deadline [unfolded clock_elems_def])
qed

subsection \<open>The nftables backend keeps the timed contract\<close>

lemma secs_saturated:
  fixes secs :: nat
  defines "t \<equiv> (if secs < 2 ^ 32 then of_nat secs else - 1 :: u32)"
  shows "unat t \<le> secs" "0 < secs \<Longrightarrow> 0 < t"
proof -
  have m: "unat (- 1 :: u32) = 2 ^ 32 - 1"
    by (simp add: unsigned_minus_1_eq_mask mask_eq_exp_minus_1)
  have u: "unat t = (if secs < 2 ^ 32 then secs else 2 ^ 32 - 1)"
    using m by (simp add: t_def unat_of_nat_small)
  then show "unat t \<le> secs" by (simp split: if_splits)
  show "0 < t" if "0 < secs"
    using that u by (auto simp: word_less_nat_alt split: if_splits)
qed

lemma nft_open_applies:
  defines "t \<equiv> \<lambda>rule. (if as_secs (ar_timeout rule) < 2 ^ 32 then of_nat (as_secs (ar_timeout rule)) else - 1 :: u32)"
  assumes "nft_open_access A rule b = (r, b')"
  shows "b' = b \<or> (\<exists>v4 q. ar_source_ip rule = V4 v4 \<and>
    ap_apply A (map (add_element (t rule)) (map (element_key v4) (ar_ports rule))) (nb_kernel b) = (q, nb_kernel b'))"
proof (cases "nb_initialized b \<and> (\<exists>v4. ar_source_ip rule = V4 v4)")
  case True
  then obtain v4 where v4: "ar_source_ip rule = V4 v4" by blast
  obtain q k where q: "ap_apply A (map (add_element (t rule)) (map (element_key v4) (ar_ports rule))) (nb_kernel b) = (q, k)"
    by fastforce
  have "nb_kernel b' = k"
    using assms(2) True v4 q
    by (auto simp: nft_open_access_def assert_initialized_def open_ruleset_eq o_def Let_def t_def split: sum.splits)
  then show ?thesis using v4 q by blast
next
  case False
  then show ?thesis
    using assms(2) by (auto simp: nft_open_access_def assert_initialized_def split: ip_addr.splits if_splits)
qed

context timed_kernel
begin

lemma nft_open_clock: "nft_open_access A rule b = (r, b') \<Longrightarrow> kclock (nb_kernel b) \<le> kclock (nb_kernel b')"
  using nft_open_applies [of A rule b r b'] clock_mono by auto

lemma nft_open_dies:
  assumes o: "nft_open_access A rule b = (r, b')" and l: "pair \<in> nft_lets_through elems b'"
    and t: "0 < as_secs (ar_timeout rule)"
  shows "pair \<in> nft_lets_through elems b \<and> nft_dies deadline b' pair \<le> nft_dies deadline b pair \<or>
    pair \<in> rule_pairs rule \<and>
      nft_dies deadline b' pair \<le> enat (kclock (nb_kernel b') + as_secs (ar_timeout rule))"
  using nft_open_applies [OF o]
proof (elim disjE exE conjE)
  fix v4 q
  let ?t = "if as_secs (ar_timeout rule) < 2 ^ 32 then of_nat (as_secs (ar_timeout rule)) else - 1 :: u32"
  assume v4: "ar_source_ip rule = V4 v4"
    and q: "ap_apply A (map (add_element ?t) (map (element_key v4) (ar_ports rule))) (nb_kernel b) = (q, nb_kernel b')"
  obtain a pp where pair: "pair = (V4 a, pp)" "element_key a pp \<in> elems (nb_kernel b')"
    using l by (auto simp: nft_lets_through_def)
  show ?thesis
  proof (cases q)
    case (Inl e)
    then show ?thesis
      using q apply_Err [of _ "nb_kernel b"] deadline_Err [of _ "nb_kernel b"] pair
      by (auto simp: nft_lets_through_def nft_dies_def)
  next
    case (Inr u)
    have "element_key a pp \<in> elems (nb_kernel b) \<and> deadline (nb_kernel b') (element_key a pp) = deadline (nb_kernel b) (element_key a pp) \<or>
        element_key a pp \<in> element_key v4 ` set (ar_ports rule) \<and>
          deadline (nb_kernel b') (element_key a pp) = enat (kclock (nb_kernel b') + unat ?t)"
      using deadline_add [OF q [unfolded Inr] secs_saturated(2) [OF t], of "element_key a pp"] pair(2) by auto
    then show ?thesis
      using secs_saturated(1) [of "as_secs (ar_timeout rule)"] v4 pair(1)
      by (auto simp: nft_lets_through_def nft_dies_def rule_pairs_def element_key_inject)
  qed
qed (use l in simp)

end

sublocale timed_kernel \<subseteq> nft_timed: timed_firewall "nft_backend_ops A" "\<lambda>_. True" nb_initialized
  "nft_lets_through elems" "nft_dies deadline" "\<lambda>b. kclock (nb_kernel b)"
  by unfold_locales
    (simp_all only: nft_backend_ops_def firewall_ops.simps nft_open_dies nft_open_clock)

context timed_kernel
begin

lemmas axioms_timed = nft_timed.timed_firewall_axioms

end

subsection \<open>Lifetimes along a run\<close>

lemma authorised_timeout:
  assumes "authorised L C config now captured stanza payload rule"
  shows "ar_timeout rule \<le> ds_max_fw_timeout (dc_daemon config)"
    and "whole_second_timeouts config \<Longrightarrow> 0 < as_secs (ar_timeout rule)"
proof -
  have st: "stanza \<in> set (dc_access config)" and
    t: "ar_timeout rule = min (case st_fw_timeout stanza of Some t \<Rightarrow> t | None \<Rightarrow> ds_default_fw_timeout (dc_daemon config))
         (ds_max_fw_timeout (dc_daemon config))"
    using assms authenticates_in by (auto simp: authorised_def)
  then show "ar_timeout rule \<le> ds_max_fw_timeout (dc_daemon config)" by simp
  show "0 < as_secs (ar_timeout rule)" if "whole_second_timeouts config"
    using that st t by (auto simp: whole_second_timeouts_def list_all_iff min_def split: option.splits)
qed

text \<open>A pair that is let through at the end was there at the start or was opened in some step.\<close>

lemma opened_in_step:
  assumes "R\<^sup>*\<^sup>* s t" "J s" "x \<in> has t"
    and keep: "\<And>a b. J a \<Longrightarrow> R a b \<Longrightarrow> J b"
    and step: "\<And>a b. J a \<Longrightarrow> R a b \<Longrightarrow> \<forall>x \<in> has b. x \<in> has a \<and> ends b x \<le> ends a x \<or> G a b x (ends b x)"
    and anti: "\<And>a b x t t'. G a b x t \<Longrightarrow> t' \<le> t \<Longrightarrow> G a b x t'"
  shows "x \<in> has s \<and> ends t x \<le> (ends s x :: enat) \<or> (\<exists>a b. R\<^sup>*\<^sup>* s a \<and> R a b \<and> R\<^sup>*\<^sup>* b t \<and> G a b x (ends t x))"
proof -
  have "J t \<and> (x \<in> has t \<longrightarrow>
      x \<in> has s \<and> ends t x \<le> ends s x \<or> (\<exists>a b. R\<^sup>*\<^sup>* s a \<and> R a b \<and> R\<^sup>*\<^sup>* b t \<and> G a b x (ends t x)))"
    using assms(1,2)
  proof (induction rule: rtranclp_induct)
    case (step t u)
    have j: "J u" "x \<in> has u \<Longrightarrow> x \<in> has t \<and> ends u x \<le> ends t x \<or> G t u x (ends u x)"
      using keep [of t u] assms(5) [of t u] step by blast+
    show ?case
    proof (intro conjI impI, rule j(1))
      assume x: "x \<in> has u"
      consider "x \<in> has t" "ends u x \<le> ends t x" | "G t u x (ends u x)" using j(2) [OF x] by blast
      then show "x \<in> has s \<and> ends u x \<le> ends s x \<or> (\<exists>a b. R\<^sup>*\<^sup>* s a \<and> R a b \<and> R\<^sup>*\<^sup>* b u \<and> G a b x (ends u x))"
      proof cases
        case 1
        then have "x \<in> has s \<and> ends t x \<le> ends s x \<or> (\<exists>a b. R\<^sup>*\<^sup>* s a \<and> R a b \<and> R\<^sup>*\<^sup>* b t \<and> G a b x (ends t x))"
          using step by blast
        then show ?thesis
        proof (elim disjE exE conjE)
          fix a b
          assume "R\<^sup>*\<^sup>* s a" "R a b" "R\<^sup>*\<^sup>* b t" "G a b x (ends t x)"
          moreover have "R\<^sup>*\<^sup>* b u" using \<open>R\<^sup>*\<^sup>* b t\<close> step(2) by (rule rtranclp.rtrancl_into_rtrancl)
          ultimately show ?thesis using anti [OF _ 1(2)] by blast
        qed (use 1(2) order_trans in blast)
      next
        case 2
        then show ?thesis using step(1,2) by blast
      qed
    qed
  qed simp
  then show ?thesis using assms(3) by blast
qed

locale timed_daemon = gate_daemon D ok ready lets I config cap + timed_firewall "dp_fw D" ok ready lets dies fw_clock
  for D :: "('c, 'f) deps" and ok ready lets I config cap dies fw_clock +
  assumes whole: "whole_second_timeouts config"
begin

definition lasts :: "captured_packet set \<Rightarrow> ('c, 'f) daemon_state \<Rightarrow> ('c, 'f) daemon_state \<Rightarrow> bool" where
  "lasts packets d d' \<longleftrightarrow> (\<forall>pair \<in> lets (dm_firewall d').
     pair \<in> lets (dm_firewall d) \<and> dies (dm_firewall d') pair \<le> dies (dm_firewall d) pair \<or>
     opened_for fw_clock D config packets d d' pair (dies (dm_firewall d') pair))"

lemma lasts_same: "dm_firewall d' = dm_firewall d \<Longrightarrow> lasts packets d d'"
  by (simp add: lasts_def)

lemma honours_lasts:
  assumes h: "honours captured d d'" and g: "gate_inv d" and p: "captured \<in> packets"
  shows "lasts packets d d'"
proof -
  obtain now stanza payload rule t io r where
    a: "authorised (dp_libs D) (dp_conf D) config now captured stanza payload rule"
    and c: "check_and_insert (dp_lru D) (dp_ord D) t io (pl_nonce payload) (dm_replay d) (dm_disk d) = (r, dm_replay d', dm_disk d')"
    and f: "dm_firewall d' = (if r = Ok True then snd (fw_open_access (dp_fw D) rule (dm_firewall d)) else dm_firewall d)"
    using h unfolding honours_def by (elim exE conjE)
  obtain q fw where o: "fw_open_access (dp_fw D) rule (dm_firewall d) = (q, fw)" by fastforce
  show ?thesis
  proof (cases "r = Ok True")
    case True
    have n: "pl_nonce payload \<notin> fst ` set (lru_iter (dp_lru D) (rc_inner (dm_replay d)))"
      using check_seen [OF _ c] g True by (simp add: gate_inv_def)
    have fw: "dm_firewall d' = fw" "ok (dm_firewall d)" using f o True g by (simp_all add: gate_inv_def)
    have "opened_for fw_clock D config packets d d' pair t"
      if "pair \<in> rule_pairs rule" "t \<le> enat (fw_clock fw + as_secs (ar_timeout rule))" for pair t
      unfolding opened_for_def fw(1)
      by (intro bexI [OF _ p] exI conjI) (rule a, rule n, rule that(1), rule authorised_timeout(1) [OF a], rule that(2))
    then show ?thesis
      using dies_open [OF fw(2) o _ authorised_timeout(2) [OF a whole]] unfolding lasts_def fw(1) by blast
  qed (use f in \<open>simp add: lasts_same\<close>)
qed

lemma process_packet_lasts:
  assumes p: "process_packet D env captured config d = Some (r, d')" and g: "gate_inv d" and c: "captured \<in> packets"
  shows "lasts packets d d'"
proof (cases "\<exists>stanza payload rule. authorised (dp_libs D) (dp_conf D) config (pe_now env) captured stanza payload rule")
  case True
  then show ?thesis using process_packet_honours [OF _ p] honours_lasts [OF _ g c] by metis
next
  case False
  then show ?thesis
    using process_packet_unauthorised [OF _ names p] by (intro lasts_same) blast
qed

end

subsection \<open>Both forms of the daemon\<close>

lemma opened_for_antimono: "opened_for fw_clock D config packets d d' pair t \<Longrightarrow> t' \<le> t \<Longrightarrow> opened_for fw_clock D config packets d d' pair t'"
  unfolding opened_for_def by (meson order_trans)

locale timed_privsep = timed_daemon D ok ready lets I config cap dies fw_clock + gate_privsep D ok ready lets I config cap ops P M N
  for D :: "('c, 'f) deps" and ok ready lets I config cap dies fw_clock and ops :: "'k key_lru" and P :: "'p proc_ops" and M N
begin

lemma system_step_lasts:
  assumes "system_step ops D P M N config s t" "system_keep s"
  shows "lasts (set (sm_passed t)) (pa_daemon (sm_parent s)) (pa_daemon (sm_parent t))"
  using assms(1)
proof cases
  case (parent i)
  have g: "gate_inv (pa_daemon (sm_parent s))" and v: "system_inv ok lets UNIV D M N config s"
    using assms(2) by (simp_all add: system_keep_def)
  obtain d where d: "d = pa_daemon (sm_parent s) \<or> (\<exists>captured \<in> set (sm_passed s). honours captured (pa_daemon (sm_parent s)) d)"
    "pa_daemon (sm_parent t) = d \<or> pa_daemon (sm_parent t) = prune_replay D (pi_prune_now i) (pi_prune_io i) config d"
    using parent_honours [OF v, of i] parent(1) by auto
  have f: "dm_firewall (pa_daemon (sm_parent t)) = dm_firewall d" using d(2) by auto
  have "lasts (set (sm_passed s)) (pa_daemon (sm_parent s)) d"
    using d(1) honours_lasts [OF _ g] lasts_same by auto
  then show ?thesis
    using parent(1) unfolding lasts_def opened_for_def f by simp
qed (simp_all add: lasts_same)

lemma privsep_lasts:
  assumes "system_reach ops D P M N config s0 s" "system_keep s0"
    and "pair \<in> lets (dm_firewall (pa_daemon (sm_parent s)))"
  shows "pair \<in> lets (dm_firewall (pa_daemon (sm_parent s0))) \<and>
      dies (dm_firewall (pa_daemon (sm_parent s))) pair \<le> dies (dm_firewall (pa_daemon (sm_parent s0))) pair \<or>
    (\<exists>a b. system_reach ops D P M N config s0 a \<and> system_step ops D P M N config a b \<and> system_reach ops D P M N config b s \<and>
       opened_for fw_clock D config (set (sm_passed b)) (pa_daemon (sm_parent a)) (pa_daemon (sm_parent b)) pair
         (dies (dm_firewall (pa_daemon (sm_parent s))) pair))"
proof -
  have l: "\<forall>pair \<in> lets (dm_firewall (pa_daemon (sm_parent b))).
      pair \<in> lets (dm_firewall (pa_daemon (sm_parent a))) \<and>
        dies (dm_firewall (pa_daemon (sm_parent b))) pair \<le> dies (dm_firewall (pa_daemon (sm_parent a))) pair \<or>
      opened_for fw_clock D config (set (sm_passed b)) (pa_daemon (sm_parent a)) (pa_daemon (sm_parent b)) pair
        (dies (dm_firewall (pa_daemon (sm_parent b))) pair)"
    if "system_keep a" "system_step ops D P M N config a b" for a b
    using system_step_lasts [OF that(2,1)] unfolding lasts_def .
  show ?thesis
    using opened_in_step [where R = "system_step ops D P M N config" and J = system_keep
        and has = "\<lambda>s. lets (dm_firewall (pa_daemon (sm_parent s)))"
        and ends = "\<lambda>s. dies (dm_firewall (pa_daemon (sm_parent s)))"
        and G = "\<lambda>a b. opened_for fw_clock D config (set (sm_passed b)) (pa_daemon (sm_parent a)) (pa_daemon (sm_parent b))",
        OF system_reach_steps [OF assms(1)] assms(2,3) privsep_sim.keep_step l opened_for_antimono]
    unfolding system_reach_iff .
qed

end

locale timed_loop = timed_daemon D ok ready lets I config cap dies fw_clock + gate_loop D ok ready lets I config cap ops B
  for D :: "('c, 'f) deps" and ok ready lets I config cap dies fw_clock and ops :: "'k key_lru" and B :: "'b capture_ops"
begin

lemma loop_step_lasts:
  assumes "loop_step D B ops config s t" "gate_inv (rs_daemon s)"
  shows "lasts (snd ` set (rs_passed t)) (rs_daemon s) (rs_daemon t)"
  using assms(1)
proof cases
  case (iteration i s1)
  have f: "dm_firewall (rs_daemon t) = dm_firewall (rs_daemon s1)"
    by (simp add: iteration(1) run_tick_def Let_def)
  show ?thesis
  proof (cases rule: run_receive_cases [of D B ops i config s])
    case (idle s2)
    then show ?thesis using iteration(2) f by (intro lasts_same) simp
  next
    case (packet s2 pkt r)
    then have "s2 = s1" using iteration(2) by simp
    then have "lasts (snd ` set (rs_passed t)) (rs_daemon s) (rs_daemon s1)"
      using process_packet_lasts [OF packet(2) assms(2)] packet(3) iteration(1) by simp
    then show ?thesis by (simp add: lasts_def opened_for_def f)
  qed
qed (simp add: lasts_same)

lemma loop_lasts:
  assumes "run_loop D B ops is config s = Returned s'" "gate_inv (rs_daemon s)" "pair \<in> lets (dm_firewall (rs_daemon s'))"
  shows "pair \<in> lets (dm_firewall (rs_daemon s)) \<and>
      dies (dm_firewall (rs_daemon s')) pair \<le> dies (dm_firewall (rs_daemon s)) pair \<or>
    (\<exists>a b. (loop_step D B ops config)\<^sup>*\<^sup>* s a \<and> loop_step D B ops config a b \<and> (loop_step D B ops config)\<^sup>*\<^sup>* b s' \<and>
       opened_for fw_clock D config (snd ` set (rs_passed b)) (rs_daemon a) (rs_daemon b) pair
         (dies (dm_firewall (rs_daemon s')) pair))"
proof -
  have l: "\<forall>pair \<in> lets (dm_firewall (rs_daemon b)).
      pair \<in> lets (dm_firewall (rs_daemon a)) \<and> dies (dm_firewall (rs_daemon b)) pair \<le> dies (dm_firewall (rs_daemon a)) pair \<or>
      opened_for fw_clock D config (snd ` set (rs_passed b)) (rs_daemon a) (rs_daemon b) pair (dies (dm_firewall (rs_daemon b)) pair)"
    if "gate_inv (rs_daemon a)" "loop_step D B ops config a b" for a b
    using loop_step_lasts [OF that(2,1)] unfolding lasts_def .
  show ?thesis
    using opened_in_step [where R = "loop_step D B ops config" and J = "\<lambda>s. gate_inv (rs_daemon s)"
        and has = "\<lambda>s. lets (dm_firewall (rs_daemon s))" and ends = "\<lambda>s. dies (dm_firewall (rs_daemon s))"
        and G = "\<lambda>a b. opened_for fw_clock D config (snd ` set (rs_passed b)) (rs_daemon a) (rs_daemon b)",
        OF run_loop_steps [OF assms(1)] assms(2,3) loop_sim.keep_step l opened_for_antimono] .
qed

end

lemma demo_whole: "whole_second_timeouts demo_config"
  by (simp add: whole_second_timeouts_def demo_config_def demo_stanza_def sample_config_def sample_stanza_def config_defaults)

lemma timed_contract:
  "timed_firewall (dp_fw timed_deps) (\<lambda>_. True) nb_initialized (nft_lets_through clock_elems) (nft_dies ck_deadline)
     (\<lambda>b. ck_clock (nb_kernel b))"
  using clock_kernel.nft_timed.timed_firewall_axioms by (simp add: timed_deps_def)

lemma timed_store: "replay_store (dp_lru timed_deps) list_cache_inv (dp_ord timed_deps)"
  using demo_store by (simp add: demo_deps_def timed_deps_def)

lemma timed_daemon_intro:
  assumes "timed_firewall (dp_fw D) ok ready lets dies fw_clock" "replay_store (dp_lru D) I (dp_ord D)"
    "distinct (map st_name (dc_access config))" "whole_second_timeouts config"
  shows "timed_daemon D ok ready lets I config dies fw_clock"
  by (intro timed_daemon.intro gate_daemon.intro gate_daemon_axioms.intro timed_daemon_axioms.intro
      timed_firewall.axioms(1) [OF assms(1)] assms)

interpretation timed_demo_loop: timed_loop timed_deps "\<lambda>_. True" nb_initialized "nft_lets_through clock_elems" list_cache_inv
  demo_config 4 "nft_dies ck_deadline" "\<lambda>b. ck_clock (nb_kernel b)" list_lru scripted_capture
  by (intro timed_loop.intro gate_loop.intro timed_daemon_intro [OF timed_contract timed_store demo_distinct demo_whole]
      timed_daemon.axioms(1) [OF timed_daemon_intro [OF timed_contract timed_store demo_distinct demo_whole]])

interpretation timed_demo_privsep: timed_privsep timed_deps "\<lambda>_. True" nb_initialized "nft_lets_through clock_elems" list_cache_inv
  demo_config 4 "nft_dies ck_deadline" "\<lambda>b. ck_clock (nb_kernel b)" list_lru no_children demo_packet_codec demo_codec
  by (intro timed_privsep.intro gate_privsep.intro gate_privsep_axioms.intro timed_demo_loop.timed_daemon_axioms
      timed_demo_loop.gate_daemon_axioms demo_packets.msg_codec_axioms demo_replies.msg_codec_axioms)

text \<open>On the sample kernel a rule of one port is opened.\<close>

lemma timed_open:
  fixes ip port secs comment
  defines "rule \<equiv> \<lparr>ar_source_ip = V4 ip, ar_ports = [port], ar_timeout = secs, ar_comment = comment\<rparr>"
  obtains h fw where "fw_open_access (dp_fw timed_deps) rule (dm_firewall timed_state) = (Ok h, fw)"
    "(V4 ip, port) \<in> nft_lets_through clock_elems fw"
    "as_secs secs = 0 \<longrightarrow> rk_elems (ck_kernel (nb_kernel fw)) = [(element_key ip port, Some 0)] \<and>
       nft_dies ck_deadline fw (V4 ip, port) = \<infinity>"
proof -
  obtain h fw where o: "nft_open_access clock_applier rule timed_firewall_state = (Ok h, fw)"
    "as_secs secs = 0 \<longrightarrow> rk_elems (ck_kernel (nb_kernel fw)) = [(element_key ip port, Some 0)] \<and>
       nft_dies ck_deadline fw (V4 ip, port) = \<infinity>"
    by (simp add: nft_open_access_def rule_def timed_firewall_state_def assert_initialized_def open_ruleset_eq Let_def
        clock_applier_def clock_apply_def ck_alive_def add_element_def concat_expr_def nft_dies_def ref_elems_def
        element_death_def element_key_def)
  moreover have "(V4 ip, port) \<in> nft_lets_through clock_elems fw"
    using clock_kernel.nft_open_cases [OF o(1)] by (auto simp: rule_def rule_pairs_def)
  ultimately show ?thesis
    using that by (simp add: timed_deps_def nft_backend_ops_def timed_state_def)
qed

lemma timed_fresh:
  obtains c k where "check_and_insert (dp_lru timed_deps) (dp_ord timed_deps) (Some (from_secs 1010)) no_fault (pl_nonce demo_payload)
      (dm_replay timed_state) (dm_disk timed_state) = (Ok True, c, k)"
  using demo_fresh by (auto simp: timed_deps_def timed_state_def demo_state_def)

lemma timed_processed:
  obtains r d where "process_packet timed_deps demo_env demo_packet demo_config timed_state = Some (r, d)"
    "(V4 0x0A000001, port_proto_new Tcp 22) \<in> nft_lets_through clock_elems (dm_firewall d)"
proof -
  obtain c k where c: "check_and_insert (dp_lru timed_deps) (dp_ord timed_deps) (Some (from_secs 1010)) no_fault (pl_nonce demo_payload)
      (dm_replay timed_state) (dm_disk timed_state) = (Ok True, c, k)"
    by (rule timed_fresh)
  obtain h fw where o: "fw_open_access (dp_fw timed_deps) \<lparr>ar_source_ip = V4 0x0A000001, ar_ports = [port_proto_new Tcp 22],
      ar_timeout = from_secs 30, ar_comment = rule_comment demo_payload\<rparr> (dm_firewall timed_state) = (Ok h, fw)"
    "(V4 0x0A000001, port_proto_new Tcp 22) \<in> nft_lets_through clock_elems fw"
    by (rule timed_open)
  have a: "authorised (dp_libs timed_deps) (dp_conf timed_deps) demo_config (pe_now demo_env) demo_packet demo_stanza demo_payload
      \<lparr>ar_source_ip = V4 0x0A000001, ar_ports = [port_proto_new Tcp 22], ar_timeout = from_secs 30, ar_comment = rule_comment demo_payload\<rparr>"
    using demo_authorised by (simp add: timed_deps_def demo_env_def)
  have "process_packet timed_deps demo_env demo_packet demo_config timed_state =
      Some (Ok (Installed ''ssh'' h), timed_state\<lparr>dm_replay := c, dm_disk := k, dm_firewall := fw\<rparr>)"
    using c o(1) demo_facts(2) unfolding process_packet_authorised [OF a demo_distinct]
    by (simp add: demo_env_def)
  then show ?thesis by (rule that) (simp add: o(2))
qed

section \<open>Properties\<close>

text \<open>
  C8. In the three-process daemon on nftables, access is temporary. In every reachable state,
  an element that the firewall has and that dies later than any it had at the start was added
  in a step of the parent for a packet that passed the rate limiter, was authorised and had a
  nonce that the replay cache did not know; and it dies no later than the timeout of the rule,
  which the configured maximum bounds, after the kernel's time in that step. The timeouts of
  the configuration are a second at least.
\<close>

theorem privsep_access_expires:
  assumes "timed_kernel A elems deadline kclock" and "dp_fw D = nft_backend_ops A"
    and "replay_store (dp_lru D) I (dp_ord D)" and "msg_codec M" and "msg_codec N"
    and "distinct (map st_name (dc_access config))" and "whole_second_timeouts config"
    and "system_initial s0" and "I (rc_inner (dm_replay (pa_daemon (sm_parent s0))))"
    and "system_reach ops D P M N config s0 s"
    and "pair \<in> nft_lets_through elems (dm_firewall (pa_daemon (sm_parent s)))"
  shows "pair \<in> nft_lets_through elems (dm_firewall (pa_daemon (sm_parent s0))) \<and>
      nft_dies deadline (dm_firewall (pa_daemon (sm_parent s))) pair
        \<le> nft_dies deadline (dm_firewall (pa_daemon (sm_parent s0))) pair \<or>
    (\<exists>a b. system_reach ops D P M N config s0 a \<and> system_step ops D P M N config a b \<and> system_reach ops D P M N config b s \<and>
       opened_for (\<lambda>f. kclock (nb_kernel f)) D config (set (sm_passed b)) (pa_daemon (sm_parent a)) (pa_daemon (sm_parent b)) pair
         (nft_dies deadline (dm_firewall (pa_daemon (sm_parent s))) pair))"
proof -
  have "timed_firewall (dp_fw D) (\<lambda>_. True) nb_initialized (nft_lets_through elems) (nft_dies deadline) (\<lambda>b. kclock (nb_kernel b))"
    unfolding assms(2) by (rule timed_kernel.axioms_timed [OF assms(1)])
  then have t: "timed_daemon D (\<lambda>_. True) nb_initialized (nft_lets_through elems) I config (nft_dies deadline) (\<lambda>b. kclock (nb_kernel b))"
    by (rule timed_daemon_intro [OF _ assms(3,6,7)])
  then have g: "gate_privsep D (\<lambda>_. True) nb_initialized (nft_lets_through elems) I config M N"
    by (intro gate_privsep.intro gate_privsep_axioms.intro timed_daemon.axioms(1) assms(4,5))
  have "gate_privsep.system_keep D (\<lambda>_. True) (nft_lets_through elems) I config
      (replay_capacity (dp_lru D) (dm_replay (pa_daemon (sm_parent s0)))) M N s0"
    using gate_privsep.system_initial_keep [OF g assms(8)] assms(9) by (simp add: replay_capacity_def)
  then show ?thesis
    by (rule timed_privsep.privsep_lasts [OF timed_privsep.intro [OF t g] assms(10) _ assms(11)])
qed

theorem privsep_access_expires_witness:
  "\<exists>s a b. system_reach list_lru timed_deps no_children demo_packet_codec demo_codec demo_config (system_of timed_state) s \<and>
     (V4 0x0A000001, port_proto_new Tcp 22) \<in> nft_lets_through clock_elems (dm_firewall (pa_daemon (sm_parent s))) \<and>
     system_step list_lru timed_deps no_children demo_packet_codec demo_codec demo_config a b \<and>
     opened_for (\<lambda>f. ck_clock (nb_kernel f)) timed_deps demo_config (set (sm_passed b)) (pa_daemon (sm_parent a))
       (pa_daemon (sm_parent b)) (V4 0x0A000001, port_proto_new Tcp 22)
       (nft_dies ck_deadline (dm_firewall (pa_daemon (sm_parent s))) (V4 0x0A000001, port_proto_new Tcp 22))"
proof -
  let ?pair = "(V4 0x0A000001, port_proto_new Tcp 22)"
  obtain s where s: "system_reach list_lru timed_deps no_children demo_packet_codec demo_codec demo_config (system_of timed_state) s"
    "pa_daemon (sm_parent s) = handle_crypto_msg timed_deps demo_env demo_reply demo_config timed_state"
    using demo_reach_any [of timed_deps timed_state] by (auto simp: timed_deps_def)
  obtain c k where c: "check_and_insert (dp_lru timed_deps) (dp_ord timed_deps) (Some (from_secs 1010)) no_fault (pl_nonce demo_payload)
      (dm_replay timed_state) (dm_disk timed_state) = (Ok True, c, k)"
    by (rule timed_fresh)
  obtain h fw where o: "fw_open_access (dp_fw timed_deps) \<lparr>ar_source_ip = V4 0x0A000001, ar_ports = [port_proto_new Tcp 22],
      ar_timeout = from_secs 30, ar_comment = rule_comment demo_payload\<rparr> (dm_firewall timed_state) = (Ok h, fw)"
    "?pair \<in> nft_lets_through clock_elems fw"
    by (rule timed_open)
  have l: "?pair \<in> nft_lets_through clock_elems (dm_firewall (pa_daemon (sm_parent s)))"
    using o demo_handled [OF c] s(2) by simp
  have i: "system_initial (system_of timed_state)"
    "list_cache_inv (rc_inner (dm_replay (pa_daemon (sm_parent (system_of timed_state)))))"
    "?pair \<notin> nft_lets_through clock_elems (dm_firewall (pa_daemon (sm_parent (system_of timed_state))))"
    using demo_start(1) by (simp_all add: system_initial_def system_of_def parent_of_def timed_state_def demo_state_def
        nft_lets_through_def clock_elems_def ref_elems_def timed_firewall_state_def)
  have d: "dp_fw timed_deps = nft_backend_ops clock_applier" by (simp add: timed_deps_def)
  from privsep_access_expires [OF clock_kernel.timed_kernel_axioms d timed_store demo_packets.msg_codec_axioms
      demo_replies.msg_codec_axioms demo_distinct demo_whole i(1,2) s(1) l] i(3)
  show ?thesis using s(1) l by blast
qed

text \<open>
  C9. In the single-process daemon on nftables, access is temporary in the same way: when the
  loop is stopped, an element that the firewall has and that dies later than it did at the
  start was added in an iteration for an authorised packet with an unknown nonce, and dies no
  later than the timeout of its rule after the kernel's time in that iteration.
\<close>

theorem run_loop_access_expires:
  assumes "timed_kernel A elems deadline kclock" and "dp_fw D = nft_backend_ops A"
    and "replay_store (dp_lru D) I (dp_ord D)"
    and "distinct (map st_name (dc_access config))" and "whole_second_timeouts config"
    and "I (rc_inner (dm_replay (rs_daemon s)))"
    and "run_loop D B ops is config s = Returned s'"
    and "pair \<in> nft_lets_through elems (dm_firewall (rs_daemon s'))"
  shows "pair \<in> nft_lets_through elems (dm_firewall (rs_daemon s)) \<and>
      nft_dies deadline (dm_firewall (rs_daemon s')) pair \<le> nft_dies deadline (dm_firewall (rs_daemon s)) pair \<or>
    (\<exists>a b. (loop_step D B ops config)\<^sup>*\<^sup>* s a \<and> loop_step D B ops config a b \<and> (loop_step D B ops config)\<^sup>*\<^sup>* b s' \<and>
       opened_for (\<lambda>f. kclock (nb_kernel f)) D config (snd ` set (rs_passed b)) (rs_daemon a) (rs_daemon b) pair
         (nft_dies deadline (dm_firewall (rs_daemon s')) pair))"
proof -
  have "timed_firewall (dp_fw D) (\<lambda>_. True) nb_initialized (nft_lets_through elems) (nft_dies deadline) (\<lambda>b. kclock (nb_kernel b))"
    unfolding assms(2) by (rule timed_kernel.axioms_timed [OF assms(1)])
  then have t: "timed_daemon D (\<lambda>_. True) nb_initialized (nft_lets_through elems) I config (nft_dies deadline) (\<lambda>b. kclock (nb_kernel b))"
    by (rule timed_daemon_intro [OF _ assms(3,4,5)])
  note g = timed_daemon.axioms(1) [OF t]
  have "gate_daemon.gate_inv D (\<lambda>_. True) I (replay_capacity (dp_lru D) (dm_replay (rs_daemon s))) (rs_daemon s)"
    using assms(6) by (simp add: gate_daemon.gate_inv_def [OF g] replay_capacity_def)
  then show ?thesis
    by (rule timed_loop.loop_lasts [OF timed_loop.intro [OF t gate_loop.intro [OF g]] assms(7) _ assms(8)])
qed

theorem run_loop_access_expires_witness:
  "\<exists>s' a b. run_loop timed_deps scripted_capture list_lru [demo_input False, demo_input True] demo_config (run_of timed_state) = Returned s' \<and>
     loop_step timed_deps scripted_capture list_lru demo_config a b \<and>
     opened_for (\<lambda>f. ck_clock (nb_kernel f)) timed_deps demo_config (snd ` set (rs_passed b)) (rs_daemon a) (rs_daemon b)
       (V4 0x0A000001, port_proto_new Tcp 22)
       (nft_dies ck_deadline (dm_firewall (rs_daemon s')) (V4 0x0A000001, port_proto_new Tcp 22))"
proof -
  let ?pair = "(V4 0x0A000001, port_proto_new Tcp 22)"
  obtain r d where p: "process_packet timed_deps demo_env demo_packet demo_config timed_state = Some (r, d)"
    "?pair \<in> nft_lets_through clock_elems (dm_firewall d)"
    by (rule timed_processed)
  obtain s' where s: "run_loop timed_deps scripted_capture list_lru [demo_input False, demo_input True] demo_config (run_of timed_state) = Returned s'"
    "rs_daemon s' = d"
    by (rule demo_run_any [OF p(1)])
  have l: "?pair \<in> nft_lets_through clock_elems (dm_firewall (rs_daemon s'))" using p(2) s(2) by simp
  have i: "list_cache_inv (rc_inner (dm_replay (rs_daemon (run_of timed_state))))"
    "?pair \<notin> nft_lets_through clock_elems (dm_firewall (rs_daemon (run_of timed_state)))"
    using demo_start(1) by (simp_all add: run_of_def timed_state_def demo_state_def
        nft_lets_through_def clock_elems_def ref_elems_def timed_firewall_state_def)
  have d: "dp_fw timed_deps = nft_backend_ops clock_applier" by (simp add: timed_deps_def)
  from run_loop_access_expires [OF clock_kernel.timed_kernel_axioms d timed_store demo_distinct demo_whole i(1) s(1) l] i(2)
  show ?thesis using s(1) by blast
qed


end
