(* ===== verification/Recovery.thy ===== *)
theory Recovery
  imports Gate
begin

text \<open>
  What a crash costs. A daemon that stops without its final save leaves only the disk behind.
  The file of the replay cache is then at least as complete as the cache in memory was: every
  nonce that is accepted is on disk before the firewall is touched, a write that fails leaves
  the old file, and a prune that cannot be saved leaves more on disk than in memory. So the
  next start knows every nonce that the stopped daemon knew.
\<close>

section \<open>Definitions\<close>

text \<open>
  The file at \<open>path\<close> is readable, fits a cache of default size, and has every entry of the
  cache.
\<close>

definition durable :: "'c nonce_lru \<Rightarrow> path \<Rightarrow> 'c replay_cache \<Rightarrow> disk \<Rightarrow> bool" where
  "durable ops path c disk \<longleftrightarrow> rc_persist_path c = Some path \<and> lru_cap ops (rc_inner c) \<le> DEFAULT_MAX_ENTRIES \<and>
     (\<forall>e \<in> set (lru_iter ops (rc_inner c)). length (fst e) = 16) \<and>
     (\<exists>es. read_cache_file None disk path = Ok es \<and> length es \<le> DEFAULT_MAX_ENTRIES \<and>
        set (lru_iter ops (rc_inner c)) \<subseteq> set es)"

text \<open>The field \<open>nonce: [u8; 16]\<close> of a decoded payload.\<close>

definition decodes_wf :: "libs \<Rightarrow> bool" where
  "decodes_wf L \<longleftrightarrow> (\<forall>b p. rmp_from_slice L b = Ok p \<longrightarrow> wf_payload p)"

subsection \<open>A sample daemon, started without a file\<close>

definition first_start :: "((nonce, u64) list_cache, mock_state) daemon_state" where
  "first_start = \<lparr>dm_replay = set_persist_path (rp_cache_path (dc_replay demo_config))
       (with_capacity list_lru (rp_max_entries (dc_replay demo_config))),
     dm_disk = Map.empty, dm_firewall = snd (mock_init mock_default)\<rparr>"

section \<open>Lemmas\<close>

lemma hex_pairs_length: "hex_pairs s = Some n \<Longrightarrow> length n = length s div 2"
  by (induction s arbitrary: n rule: hex_pairs.induct) (auto split: Option.bind_splits)

lemma parse_nonce_hex_length: "parse_nonce_hex s = Some n \<Longrightarrow> length n = 16"
  by (auto simp: parse_nonce_hex_def split: if_splits dest: hex_pairs_length)

lemma read_lines_wf:
  assumes "read_lines path i ls out = Ok es" "distinct (map fst out)" "\<forall>e \<in> set out. length (fst e) = 16"
  shows "distinct (map fst es) \<and> (\<forall>e \<in> set es. length (fst e) = 16)"
  using assms
proof (induction ls arbitrary: i out)
  case (Cons raw ls)
  show ?case
  proof (cases "trim raw = [] \<or> starts_with (trim raw) ''#''")
    case True
    then show ?thesis using Cons.IH Cons.prems by simp
  next
    case False
    then obtain n ts where e: "parse_entry path i (trim raw) = Ok (n, ts)"
      "read_lines path (i + 1) ls (AList.update n ts out) = Ok es"
      using Cons.prems(1) by (auto simp: and_then_eq_Ok)
    have "length n = 16"
      using e(1) by (auto simp: parse_entry_def Let_def and_then_eq_Ok ok_or_def parse_nonce_hex_length split: option.splits)
    then have "\<forall>k \<in> fst ` set (AList.update n ts out). length k = 16"
      using Cons.prems(3) by (auto simp: dom_update)
    then show ?thesis
      using Cons.IH [OF e(2)] distinct_update [OF Cons.prems(2)] by auto
  qed
qed simp

lemma read_cache_file_wf:
  assumes "read_cache_file fault disk path = Ok es"
  shows "distinct (map fst es) \<and> (\<forall>e \<in> set es. length (fst e) = 16)"
  using assms read_lines_wf [of path 0 _ "[]" es]
  by (auto simp: read_cache_file_def split: sum.splits if_splits)

lemma authenticates_wf:
  assumes "decodes_wf L" "authenticates L wire stanzas stanza (Ok p)"
  shows "length (pl_nonce p) = 16"
proof -
  obtain key where k: "parse_packet L wire key = Some (Ok p)"
    using assms(2) by (auto simp: authenticates_def)
  then have size: "length key = MASTER_KEY_LEN" "MIN_PACKET_LEN \<le> length wire" "length wire \<le> MAX_PACKET_LEN"
    by (auto simp: parse_packet_def split: if_splits)
  obtain keys where "parse_signed L keys (take (length wire - HMAC_LEN) wire) = Some (Ok p)"
    using k unfolding parse_packet_in_range [OF size] by (auto split: sum.splits if_splits)
  moreover have h: "HEADER_LEN + NONCE_LEN \<le> length (take (length wire - HMAC_LEN) wire)"
    using size by (auto simp: const_defs)
  ultimately obtain pt where "payload_decode L pt = Ok p"
    unfolding parse_signed_in_range [OF h] by (auto simp: and_then_eq_Ok split: if_splits)
  then show ?thesis
    using assms(1) by (auto simp: payload_decode_Ok decodes_wf_def wf_payload_def)
qed

subsection \<open>The cache and its file\<close>

context replay_store
begin

lemma load_read:
  assumes "read_cache_file None disk path = Ok es" "length es \<le> DEFAULT_MAX_ENTRIES"
  shows "\<exists>c. load_from_file ops ord None disk path = Ok c \<and> inv (rc_inner c) \<and>
    set (entries c) = set es \<and> lru_cap ops (rc_inner c) = DEFAULT_MAX_ENTRIES"
proof -
  have pos: "0 < DEFAULT_MAX_ENTRIES" by (simp add: DEFAULT_MAX_ENTRIES_def)
  show ?thesis
    using puts [OF new_inv [OF pos], of "ord es"] assms read_cache_file_wf [OF assms(1)]
    by (simp add: load_from_file_def ord_distinct new_iter [OF pos] new_cap [OF pos])
qed

lemma durable_written:
  assumes "inv (rc_inner c)" "rc_persist_path c = Some path" "lru_cap ops (rc_inner c) \<le> DEFAULT_MAX_ENTRIES"
    "\<forall>e \<in> set (entries c). length (fst e) = 16" "disk path = Some (cache_text (ord (entries c)))"
  shows "durable ops path c disk"
proof -
  have "read_cache_file None disk path = Ok (ord (entries c))"
    by (rule read_written) (use assms ord_distinct [OF iter_distinct [OF assms(1)]] in simp_all)
  then show ?thesis
    using assms iter_bounded [OF assms(1)] by (auto simp: durable_def)
qed

text \<open>Less in memory and the same on disk.\<close>

lemma durable_less:
  assumes "durable ops path c disk" "rc_persist_path c' = rc_persist_path c"
    "lru_cap ops (rc_inner c') = lru_cap ops (rc_inner c)" "set (entries c') \<subseteq> set (entries c)"
  shows "durable ops path c' disk"
  using assms unfolding durable_def by auto

lemma durable_check:
  assumes i: "inv (rc_inner c)" and d: "durable ops path c disk" and n: "length n = 16"
    and r: "check_and_insert ops ord now io n c disk = (r, c', disk')"
  shows "durable ops path c' disk'"
  using i
proof (cases rule: check_and_insert_cases [where n = n and now = now and io = io and disk = disk])
  case replay
  then show ?thesis using d r by simp
next
  case (fresh c1 disk1)
  have e: "entries c1 = (n, unix_secs now) #
      (if length (entries c) < lru_cap ops (rc_inner c) then entries c else butlast (entries c))"
    unfolding fresh(2) using put_fresh_entries(1) [OF i fresh(1)] by simp
  have "durable ops path c1 disk1"
  proof (rule durable_written)
    show "\<forall>e \<in> set (entries c1). length (fst e) = 16"
      using d n unfolding e durable_def by (auto dest: in_set_butlastD)
  qed (use fresh(2,4) i d in \<open>simp_all add: durable_def put_inv put_cap\<close>)
  then show ?thesis using fresh(3) r by simp
next
  case (failed e c1 path')
  have "entries c1 = (if length (entries c) < lru_cap ops (rc_inner c) then entries c else butlast (entries c))"
    unfolding failed(3) using put_fresh_entries(2) [OF i failed(1)] by simp
  then have "set (entries c1) \<subseteq> set (entries c)"
    by (auto dest: in_set_butlastD)
  then have "durable ops path c1 disk"
    by (rule durable_less [OF d, rotated 2]) (use failed(3) i in \<open>simp_all add: put_inv put_cap pop_cap\<close>)
  then show ?thesis using failed(4) r by simp
qed

lemma durable_prune:
  assumes i: "inv (rc_inner c)" and d: "durable ops path c disk"
    and r: "prune_older_than ops ord now io age c disk = (r, c', disk')"
  shows "durable ops path c' disk'"
proof -
  note p = prune_entries [OF i r]
  have less: "set (entries c') \<subseteq> set (entries c)" using p by simp
  have path: "rc_persist_path c = Some path" using d by (simp add: durable_def)
  have "disk' = disk \<or> disk' = snd (write_cache_file io ord path (entries c') disk)"
    using r by (auto simp: prune_older_than_def path save_to_file_def Let_def split: if_splits sum.splits prod.splits)
  moreover have "snd (write_cache_file io ord path es disk) = disk \<or>
      snd (write_cache_file io ord path es disk) = disk(path \<mapsto> cache_text (ord es))" for es
    by (rule write_cache_file_cases [of io ord path es disk]) simp_all
  ultimately have "disk' = disk \<or> disk' = disk(path \<mapsto> cache_text (ord (entries c')))"
    by metis
  then show ?thesis
  proof
    assume "disk' = disk"
    then show ?thesis using durable_less [OF d] p less by simp
  next
    assume disk': "disk' = disk(path \<mapsto> cache_text (ord (entries c')))"
    show ?thesis
    proof (rule durable_written)
      show "\<forall>e \<in> set (entries c'). length (fst e) = 16"
        using less d unfolding durable_def by blast
    qed (use p d disk' in \<open>simp_all add: durable_def\<close>)
  qed
qed

end

text \<open>A cache that the daemon opens at its start is on disk.\<close>

lemma open_replay_cache_durable:
  assumes rs: "replay_store ops I ord" and c: "open_replay_cache ops ord True None config disk = Ok c"
    and m: "rp_max_entries (dc_replay config) \<le> DEFAULT_MAX_ENTRIES"
    and f: "read_cache_file None disk (rp_cache_path (dc_replay config)) = Ok es" "length es \<le> DEFAULT_MAX_ENTRIES"
  shows "I (rc_inner c) \<and> durable ops (rp_cache_path (dc_replay config)) c disk"
proof (cases "disk (rp_cache_path (dc_replay config))")
  case None
  let ?cap = "if rp_max_entries (dc_replay config) = 0 then 1 else rp_max_entries (dc_replay config)"
  note lru = replay_store.axioms(1) [OF rs]
  have "0 < ?cap" "?cap \<le> DEFAULT_MAX_ENTRIES" using m by (auto simp: DEFAULT_MAX_ENTRIES_def)
  then show ?thesis
    using c f None lru_cache.new_inv [OF lru] lru_cache.new_iter [OF lru] lru_cache.new_cap [OF lru]
    by (auto simp: open_replay_cache_def durable_def set_persist_path_def with_capacity_def Let_def)
next
  case (Some content)
  obtain c' where "load_from_file ops ord None disk (rp_cache_path (dc_replay config)) = Ok c'" "I (rc_inner c')"
    "set (lru_iter ops (rc_inner c')) = set es" "lru_cap ops (rc_inner c') = DEFAULT_MAX_ENTRIES"
    using replay_store.load_read [OF rs f] by (elim exE conjE)
  then show ?thesis
    using c f Some read_cache_file_wf [OF f(1)]
    by (auto simp: open_replay_cache_def durable_def set_persist_path_def Let_def)
qed

text \<open>And a durable cache is known after the next start.\<close>

lemma durable_reopened:
  assumes rs: "replay_store ops I ord" and d: "durable ops (rp_cache_path (dc_replay config)) c disk"
  shows "\<exists>c'. open_replay_cache ops ord True None config disk = Ok c' \<and> I (rc_inner c') \<and>
    set (lru_iter ops (rc_inner c)) \<subseteq> set (lru_iter ops (rc_inner c'))"
proof -
  let ?path = "rp_cache_path (dc_replay config)"
  obtain es where es: "read_cache_file None disk ?path = Ok es" "length es \<le> DEFAULT_MAX_ENTRIES"
    "set (lru_iter ops (rc_inner c)) \<subseteq> set es"
    using d unfolding durable_def by (elim exE conjE)
  show ?thesis
  proof (cases "disk ?path")
    case None
    let ?cap = "if rp_max_entries (dc_replay config) = 0 then 1 else rp_max_entries (dc_replay config)"
    have "es = []" using es(1) None by (simp add: read_cache_file_def read_to_string_def ok_or_def)
    then show ?thesis
      using es(3) None lru_cache.new_inv [OF replay_store.axioms(1) [OF rs], of ?cap]
      by (auto simp: open_replay_cache_def set_persist_path_def with_capacity_def Let_def)
  next
    case (Some content)
    then show ?thesis
      using replay_store.load_read [OF rs es(1,2)] es(3)
      by (auto simp: open_replay_cache_def set_persist_path_def Let_def)
  qed
qed

subsection \<open>Every step of the daemon keeps the file complete\<close>

locale durable_daemon = gate_daemon D ok ready lets I config cap
  for D :: "('c, 'f) deps" and ok ready lets I config cap +
  assumes decodes: "decodes_wf (dp_libs D)"
begin

abbreviation saved :: "('c, 'f) daemon_state \<Rightarrow> bool" where
  "saved d \<equiv> durable (dp_lru D) (rp_cache_path (dc_replay config)) (dm_replay d) (dm_disk d)"

lemma honours_saved:
  assumes "honours captured d d'" "I (rc_inner (dm_replay d))" "saved d"
  shows "saved d'"
proof -
  obtain now stanza payload rule t io r where
    a: "authorised (dp_libs D) (dp_conf D) config now captured stanza payload rule"
    and c: "check_and_insert (dp_lru D) (dp_ord D) t io (pl_nonce payload) (dm_replay d) (dm_disk d) = (r, dm_replay d', dm_disk d')"
    using assms(1) unfolding honours_def by (elim exE conjE)
  have "length (pl_nonce payload) = 16"
    using authenticates_wf [OF decodes] a by (auto simp: authorised_def)
  then show ?thesis by (rule durable_check [OF assms(2,3) _ c])
qed

lemma process_packet_saved:
  assumes p: "process_packet D env captured config d = Some (r, d')" and i: "I (rc_inner (dm_replay d))" and s: "saved d"
  shows "saved d'"
  using process_packet_checks [OF p]
proof (elim disjE exE conjE)
  fix stanza payload
  assume a: "authenticates (dp_libs D) (cp_data captured) (dc_access config) stanza (Ok payload)"
    and o: "(dm_replay d', dm_disk d') = run_op (dp_lru D) (dp_ord D)
      (CheckAndInsert (pl_nonce payload) (pe_now_replay env) (pe_io env)) (dm_replay d, dm_disk d)"
  obtain q where "check_and_insert (dp_lru D) (dp_ord D) (pe_now_replay env) (pe_io env) (pl_nonce payload)
      (dm_replay d) (dm_disk d) = (q, dm_replay d', dm_disk d')"
    using o by (auto simp: run_op_def) (metis prod.collapse)
  then show ?thesis by (rule durable_check [OF i s authenticates_wf [OF decodes a]])
qed (use s in simp)

lemma prune_saved:
  assumes "I (rc_inner (dm_replay d))" "saved d"
  shows "saved (prune_replay D now io config d)"
proof -
  obtain r c disk where p: "prune_older_than (dp_lru D) (dp_ord D) now io (rp_max_age (dc_replay config))
      (dm_replay d) (dm_disk d) = (r, c, disk)"
    by (metis prod_cases3)
  show ?thesis using durable_prune [OF assms p] by (simp add: prune_replay_def p)
qed

end

subsection \<open>Both forms of the daemon\<close>

locale durable_privsep = durable_daemon D ok ready lets I config cap + gate_privsep D ok ready lets I config cap ops P M N
  for D :: "('c, 'f) deps" and ok ready lets I config cap and ops :: "'k key_lru" and P :: "'p proc_ops" and M N
begin

lemma system_step_saved:
  assumes "system_step ops D P M N config s t" "system_keep s" "saved (pa_daemon (sm_parent s))"
  shows "saved (pa_daemon (sm_parent t))"
  using assms(1)
proof cases
  case (parent i)
  have g: "gate_inv (pa_daemon (sm_parent s))" and v: "system_inv ok lets UNIV D M N config s"
    using assms(2) by (simp_all add: system_keep_def)
  obtain d where d: "d = pa_daemon (sm_parent s) \<or> (\<exists>captured \<in> set (sm_passed s). honours captured (pa_daemon (sm_parent s)) d)"
    "pa_daemon (sm_parent t) = d \<or> pa_daemon (sm_parent t) = prune_replay D (pi_prune_now i) (pi_prune_io i) config d"
    using parent_honours [OF v, of i] parent(1) by auto
  have "gate_inv d \<and> saved d"
    using d(1) g assms(3) honours_saved honours_simulated unfolding simulated_def gate_inv_def by blast
  then show ?thesis
    using d(2) prune_saved by (auto simp: gate_inv_def)
qed (use assms(3) in simp_all)

lemma privsep_saved:
  assumes "system_reach ops D P M N config s0 s" "system_keep s0" "saved (pa_daemon (sm_parent s0))"
  shows "system_keep s \<and> saved (pa_daemon (sm_parent s))"
  using assms(1)
proof induction
  case (step s t)
  then show ?case using privsep_sim.keep_step system_step_saved by blast
qed (use assms in simp)

end

locale durable_loop = durable_daemon D ok ready lets I config cap + gate_loop D ok ready lets I config cap ops B
  for D :: "('c, 'f) deps" and ok ready lets I config cap and ops :: "'k key_lru" and B :: "'b capture_ops"
begin

lemma loop_step_saved:
  assumes "loop_step D B ops config s t" "gate_inv (rs_daemon s)" "saved (rs_daemon s)"
  shows "saved (rs_daemon t)"
  using assms(1)
proof cases
  case (iteration i s1)
  have i: "I (rc_inner (dm_replay (rs_daemon s)))" using assms(2) by (simp add: gate_inv_def)
  have "I (rc_inner (dm_replay (rs_daemon s1))) \<and> saved (rs_daemon s1)"
  proof (cases rule: run_receive_cases [of D B ops i config s])
    case (idle s2)
    then show ?thesis using iteration(2) i assms(3) by simp
  next
    case (packet s2 pkt r)
    then have "s2 = s1" using iteration(2) by simp
    then show ?thesis
      using process_packet_saved [OF packet(2) i assms(3)] process_packet_simulated [OF packet(2)] assms(2)
      by (simp add: simulated_def gate_inv_def)
  qed
  then show ?thesis
    by (simp add: iteration(1) run_tick_def Let_def prune_saved)
qed (use assms(3) in simp)

lemma loop_saved:
  assumes "(loop_step D B ops config)\<^sup>*\<^sup>* s s'" "gate_inv (rs_daemon s)" "saved (rs_daemon s)"
  shows "gate_inv (rs_daemon s') \<and> saved (rs_daemon s')"
  using assms
proof (induction rule: rtranclp_induct)
  case (step s t)
  then show ?case using loop_sim.keep_step loop_step_saved by blast
qed simp

end

text \<open>The sample daemon, in both forms.\<close>

lemma demo_decodes: "decodes_wf (dp_libs demo_deps)"
  by (simp add: decodes_wf_def demo_deps_def demo_libs_def wf_payload_def demo_payload_def)

interpretation demo_durable_loop: durable_loop demo_deps "\<lambda>_. True" mk_initialized mock_lets_through list_cache_inv demo_config 4
  list_lru scripted_capture
  by (intro durable_loop.intro durable_daemon.intro durable_daemon_axioms.intro demo_decodes
      demo_gate_loop.gate_daemon_axioms demo_gate_loop.gate_loop_axioms)

interpretation demo_durable_privsep: durable_privsep demo_deps "\<lambda>_. True" mk_initialized mock_lets_through list_cache_inv demo_config 4
  list_lru no_children demo_packet_codec demo_codec
  by (intro durable_privsep.intro demo_durable_loop.durable_daemon_axioms demo_gate_privsep.gate_privsep_axioms)

lemma first_start_fresh:
  obtains c k where "check_and_insert (dp_lru demo_deps) (dp_ord demo_deps) (Some (from_secs 1010)) no_fault (pl_nonce demo_payload)
      (dm_replay first_start) (dm_disk first_start) = (Ok True, c, k)"
    "pl_nonce demo_payload \<in> fst ` set (lru_iter (dp_lru demo_deps) (rc_inner c))"
  by (simp add: first_start_def demo_deps_def check_and_insert_def cache_eval Let_def insert_front_def)

text \<open>The single process: at any point of its loop, the next start knows what it knew.\<close>

lemma loop_crash_loses_no_nonce:
  assumes "firewall_contract (dp_fw D) ok ready lets" and rs: "replay_store (dp_lru D) I (dp_ord D)"
    and rs': "replay_store (dp_lru D) I ord'" and "distinct (map st_name (dc_access config))" and "decodes_wf (dp_libs D)"
    and "ok (dm_firewall (rs_daemon s))"
    and "open_replay_cache (dp_lru D) (dp_ord D) True None config (dm_disk (rs_daemon s)) = Ok (dm_replay (rs_daemon s))"
    and "rp_max_entries (dc_replay config) \<le> DEFAULT_MAX_ENTRIES"
    and "read_cache_file None (dm_disk (rs_daemon s)) (rp_cache_path (dc_replay config)) = Ok es" "length es \<le> DEFAULT_MAX_ENTRIES"
    and "(loop_step D B ops config)\<^sup>*\<^sup>* s s'"
  shows "\<exists>c. open_replay_cache (dp_lru D) ord' True None config (dm_disk (rs_daemon s')) = Ok c \<and> I (rc_inner c) \<and>
    set (lru_iter (dp_lru D) (rc_inner (dm_replay (rs_daemon s')))) \<subseteq> set (lru_iter (dp_lru D) (rc_inner c))"
proof -
  have g: "gate_daemon D ok ready lets I config"
    by (intro gate_daemon.intro gate_daemon_axioms.intro assms)
  have l: "durable_loop D ok ready lets I config"
    by (intro durable_loop.intro durable_daemon.intro durable_daemon_axioms.intro gate_loop.intro g assms(5))
  note o = open_replay_cache_durable [OF rs assms(7-10)]
  have "gate_daemon.gate_inv D ok I (lru_cap (dp_lru D) (rc_inner (dm_replay (rs_daemon s)))) (rs_daemon s)"
    using assms(6) o by (simp add: gate_daemon.gate_inv_def [OF g])
  then have "durable (dp_lru D) (rp_cache_path (dc_replay config)) (dm_replay (rs_daemon s')) (dm_disk (rs_daemon s'))"
    using durable_loop.loop_saved [OF l assms(11)] o by blast
  then show ?thesis by (rule durable_reopened [OF rs'])
qed

section \<open>Properties\<close>



end
