(* ===== verification/Std_Ipv6.thy ===== *)
theory Std_Ipv6
  imports Std_Net
begin

text \<open>
  The rendering of IPv6 addresses by the standard library, \<open>Display\<close> of \<open>Ipv6Addr\<close>,
  \<open>IpAddr\<close> and \<open>SocketAddr\<close>: hexadecimal groups, the longest run of two or more zero groups
  compressed, IPv4-mapped addresses with a dotted tail. \<open>parse_ip_string\<close> is the round trip
  with the parser of \<open>Std_Net\<close>, \<open>parse_socket_addr_string\<close> the one for socket addresses.
\<close>

subsection \<open>Rendering\<close>

definition v6_segments :: "128 word \<Rightarrow> nat list" where
  "v6_segments w = map (\<lambda>i. unat (drop_bit (16 * (7 - i)) w) mod 65536) [0..<8]"

definition to_ipv4_mapped :: "128 word \<Rightarrow> u32 option" where
  "to_ipv4_mapped w = (if take 6 (v6_segments w) = [0, 0, 0, 0, 0, 65535] then Some (ucast w) else None)"

fun hex_digits :: "nat \<Rightarrow> nat list" where
  "hex_digits n = (if n < 16 then [n] else hex_digits (n div 16) @ [n mod 16])"

declare hex_digits.simps [simp del]

definition hex_char :: "nat \<Rightarrow> char" where
  "hex_char d = (if d < 10 then char_of (48 + d) else char_of (87 + d))"

definition hex_string :: "nat \<Rightarrow> string" where
  "hex_string n = map hex_char (hex_digits n)"

text \<open>The loop that finds the first longest run of zeros: a run is its start and its length.\<close>

fun longest_zeros :: "nat \<Rightarrow> nat list \<Rightarrow> nat \<times> nat \<Rightarrow> nat \<times> nat \<Rightarrow> nat \<times> nat" where
  "longest_zeros i [] current longest = longest"
| "longest_zeros i (g # gs) current longest =
     (if g = 0 then
        let current = (if snd current = 0 then i else fst current, snd current + 1) in
        longest_zeros (i + 1) gs current (if snd longest < snd current then current else longest)
      else longest_zeros (i + 1) gs (0, 0) longest)"

definition fmt_subslice :: "nat list \<Rightarrow> string" where
  "fmt_subslice gs = join CHR '':'' (map hex_string gs)"

definition ipv6_string :: "128 word \<Rightarrow> string" where
  "ipv6_string w =
     (case to_ipv4_mapped w of
        Some v4 \<Rightarrow> ''::ffff:'' @ ipv4_string v4
      | None \<Rightarrow>
          let gs = v6_segments w; (start, len) = longest_zeros 0 gs (0, 0) (0, 0) in
          if 1 < len then fmt_subslice (take start gs) @ ''::'' @ fmt_subslice (drop (start + len) gs)
          else fmt_subslice gs)"

definition ip_string :: "ip_addr \<Rightarrow> string" where
  "ip_string ip = (case ip of V4 a \<Rightarrow> ipv4_string a | V6 a \<Rightarrow> ipv6_string a)"

subsection \<open>Reading groups back\<close>

text \<open>The text of groups that starts at position \<open>i\<close>, and what may follow it.\<close>

fun group_text :: "nat \<Rightarrow> nat list \<Rightarrow> string" where
  "group_text i [] = []"
| "group_text i (g # gs) = (if 0 < i then '':'' else []) @ hex_string g @ group_text (Suc i) gs"

definition stops :: "string \<Rightarrow> bool" where
  "stops r \<longleftrightarrow> r = [] \<or> (\<exists>r'. r = CHR '':'' # CHR '':'' # r') \<or> (\<exists>r'. r = CHR '']'' # r')"

definition ends_group :: "string \<Rightarrow> bool" where
  "ends_group r \<longleftrightarrow> r = [] \<or> hd r = CHR '':'' \<or> hd r = CHR '']''"

definition zero_run :: "nat list \<Rightarrow> nat \<times> nat \<Rightarrow> bool" where
  "zero_run gs span \<longleftrightarrow> fst span + snd span \<le> length gs \<and> (\<forall>k < snd span. gs ! (fst span + k) = 0)"

lemma group_text_Suc: "group_text (Suc i) gs = concat (map (\<lambda>g. CHR '':'' # hex_string g) gs)"
  by (induction gs arbitrary: i) simp_all

lemma fmt_subslice_group_text: "fmt_subslice gs = group_text 0 gs"
proof (cases gs)
  case (Cons g gs')
  have "join CHR '':'' (map hex_string (g # gs')) = hex_string g @ concat (map (\<lambda>g. CHR '':'' # hex_string g) gs')"
    for g gs'
    by (induction gs' arbitrary: g) simp_all
  then show ?thesis using Cons by (simp add: fmt_subslice_def group_text_Suc)
qed (simp add: fmt_subslice_def)

lemma hex_digits_less: "\<forall>d \<in> set (hex_digits n). d < 16"
proof (induction n rule: hex_digits.induct)
  case (1 n)
  then show ?case by (subst hex_digits.simps) auto
qed

lemma hex_digits_value: "foldl (\<lambda>v d. v * 16 + d) 0 (hex_digits n) = n"
proof (induction n rule: hex_digits.induct)
  case (1 n)
  then show ?case by (subst hex_digits.simps) simp
qed

lemma hex_digits_nonempty [simp]: "hex_digits n \<noteq> []"
  by (subst hex_digits.simps) simp

lemma hex_digits_length: "n < 16 ^ k \<Longrightarrow> 0 < k \<Longrightarrow> length (hex_digits n) \<le> k"
proof (induction k arbitrary: n)
  case (Suc k)
  show ?case
  proof (cases "n < 16")
    case True
    then show ?thesis by (subst hex_digits.simps) simp
  next
    case False
    then have "0 < k" using Suc.prems by (cases k) auto
    moreover have "n div 16 < 16 ^ k"
      using Suc.prems(1) by (simp add: less_mult_imp_div_less mult.commute)
    ultimately show ?thesis using Suc.IH [of "n div 16"] False by (subst hex_digits.simps) simp
  qed
qed simp

lemma radix_hex_char [simp]: "d < 16 \<Longrightarrow> radix_digit 16 (hex_char d) = Some d"
  by (auto simp: radix_digit_def hex_digit_def hex_char_def is_ascii_digit_def)

lemma read_digits_hex:
  assumes "\<forall>d \<in> set ds. d < 16" "r = [] \<or> radix_digit 16 (hd r) = None"
  shows "read_digits 16 (map hex_char ds @ r) = (ds, r)"
  using assms
proof (induction ds)
  case Nil
  then show ?case by (cases r) auto
qed simp

lemma sep_no_digit: "radix_digit k CHR '':'' = None" "radix_digit k CHR '']'' = None"
  by (simp_all add: radix_digit_def hex_digit_def is_ascii_digit_def code_def)

lemma ends_group_no_digit: "ends_group r \<Longrightarrow> r = [] \<or> radix_digit k (hd r) = None"
  by (auto simp: ends_group_def sep_no_digit)

lemma read_number_hex:
  assumes "g < 65536" "ends_group r"
  shows "read_number 16 4 65535 True (hex_string g @ r) = Some (g, r)"
proof -
  have "read_digits 16 (hex_string g @ r) = (hex_digits g, r)"
    unfolding hex_string_def by (intro read_digits_hex hex_digits_less ends_group_no_digit assms(2))
  then show ?thesis
    using hex_digits_length [of g 4] hex_digits_value [of g] assms(1) by (simp add: read_number_def)
qed

text \<open>A group is not mistaken for the start of a dotted address.\<close>

lemma read_digits_rest:
  "read_digits k (xs @ r) = (ds, r') \<Longrightarrow> r = [] \<or> radix_digit k (hd r) = None \<Longrightarrow> r' = [] \<or> hd r' \<in> set xs \<or> r' = r"
proof (induction xs arbitrary: ds r')
  case Nil
  then show ?case by (cases r) auto
next
  case (Cons x xs)
  then show ?case by (fastforce split: option.splits prod.splits)
qed

lemma read_ipv4_no_dot:
  assumes "CHR ''.'' \<notin> set xs" "ends_group r"
  shows "read_ipv4_addr (xs @ r) = None"
proof (cases "read_number 10 3 255 False (xs @ r)")
  case None
  then show ?thesis by (simp add: read_ipv4_addr_def)
next
  case (Some vr)
  obtain v r' where vr: "vr = (v, r')" by force
  then obtain ds where "read_digits 10 (xs @ r) = (ds, r')"
    using Some by (auto simp: read_number_def Let_def split: prod.splits if_splits)
  then have "r' = [] \<or> hd r' \<in> set xs \<or> r' = r"
    by (rule read_digits_rest) (rule ends_group_no_digit [OF assms(2)])
  then have "read_given_char CHR ''.'' r' = None"
    using assms by (auto simp: read_given_char_def ends_group_def split: list.split)
  then show ?thesis
    using Some vr by (simp add: read_ipv4_addr_def)
qed

lemma hex_string_no_dot: "CHR ''.'' \<notin> set (hex_string g)"
proof
  assume "CHR ''.'' \<in> set (hex_string g)"
  then obtain d where "d < 16" "hex_char d = CHR ''.''"
    using hex_digits_less [of g] by (auto simp: hex_string_def)
  then have "radix_digit 16 CHR ''.'' = Some d" using radix_hex_char by metis
  then show False by (simp add: radix_digit_def hex_digit_def is_ascii_digit_def code_def)
qed

lemma group_text_end: "stops r \<Longrightarrow> ends_group (group_text (Suc i) gs @ r)"
  by (cases gs) (auto simp: stops_def ends_group_def)

lemma read_groups_stop:
  assumes "stops r"
  shows "read_groups limit i r = ([], False, r)"
proof -
  have "read_ipv4_addr [] = None" "read_ipv4_addr (CHR '':'' # s) = None" "read_ipv4_addr (CHR '']'' # s) = None" for s
    using read_ipv4_no_dot [of "[]"] by (auto simp: ends_group_def)
  moreover have "read_number k m x z [] = None" "read_number k m x z (CHR '':'' # s) = None"
    "read_number k m x z (CHR '']'' # s) = None" for k m x z s
    by (simp_all add: read_number_def sep_no_digit)
  ultimately show ?thesis
    using assms by (auto simp: read_groups.simps [of limit i] stops_def read_sep_def read_given_char_def split: option.splits)
qed

lemma read_groups_text:
  assumes "\<forall>g \<in> set gs. g < 65536" "length gs \<le> limit - i" "stops r"
  shows "read_groups limit i (group_text i gs @ r) = (gs, False, r)"
  using assms(1,2)
proof (induction gs arbitrary: i)
  case Nil
  then show ?case using read_groups_stop [OF assms(3)] by simp
next
  case (Cons g gs)
  let ?rest = "group_text (Suc i) gs @ r"
  have sep: "read_sep i (group_text i (g # gs) @ r) = Some (hex_string g @ ?rest)"
    by (simp add: read_sep_def read_given_char_def)
  note e = group_text_end [OF assms(3), of i gs]
  have "read_ipv4_addr (hex_string g @ ?rest) = None"
    by (rule read_ipv4_no_dot [OF hex_string_no_dot e])
  moreover have "read_number 16 4 65535 True (hex_string g @ ?rest) = Some (g, ?rest)"
    using Cons.prems(1) by (intro read_number_hex e) simp
  moreover have "i < limit" "read_groups limit (Suc i) ?rest = (gs, False, r)"
    using Cons.prems Cons.IH [of "Suc i"] by auto
  ultimately show ?case
    unfolding read_groups.simps [of limit i] using sep by simp
qed

subsection \<open>The round trip\<close>

lemma longest_zeros_run:
  assumes "gs = pre @ rest" "snd current = 0 \<or> fst current + snd current = length pre"
    "zero_run gs current" "zero_run gs longest"
  shows "zero_run gs (longest_zeros (length pre) rest current longest)"
  using assms
proof (induction rest arbitrary: pre current longest)
  case (Cons g rest)
  have pre: "gs = (pre @ [g]) @ rest" using Cons.prems(1) by simp
  show ?case
  proof (cases "g = 0")
    case True
    define current' where "current' = (if snd current = 0 then length pre else fst current, snd current + 1)"
    have sum: "fst current' + snd current' = length (pre @ [g])"
      using Cons.prems(2) by (auto simp: current'_def)
    have "gs ! (fst current' + k) = 0" if "k < snd current'" for k
    proof (cases "k < snd current")
      case True
      then show ?thesis using Cons.prems(3) by (auto simp: zero_run_def current'_def)
    next
      case False
      then have "fst current' + k = length pre" using that sum by (simp add: current'_def split: if_splits)
      then show ?thesis using True Cons.prems(1) by simp
    qed
    then have "zero_run gs current'" using sum pre by (simp add: zero_run_def)
    then have "zero_run gs (longest_zeros (length (pre @ [g])) rest current'
        (if snd longest < snd current' then current' else longest))"
      using Cons.IH [OF pre, of current'] sum Cons.prems(4) by auto
    moreover have "longest_zeros (length pre) (g # rest) current longest =
        longest_zeros (length (pre @ [g])) rest current' (if snd longest < snd current' then current' else longest)"
      using True by (simp add: current'_def Let_def)
    ultimately show ?thesis by simp
  next
    case False
    then show ?thesis
      using Cons.IH [OF pre, of "(0, 0)" longest] Cons.prems(4) by (simp add: zero_run_def)
  qed
qed simp

lemma zero_run_split:
  assumes "zero_run gs (start, len)"
  shows "gs = take start gs @ replicate len 0 @ drop (start + len) gs"
proof -
  have "take len (drop start gs) = replicate len 0"
    using assms by (intro nth_equalityI) (auto simp: zero_run_def)
  then show ?thesis
    by (metis append_take_drop_id drop_drop add.commute)
qed

lemma v6_segments_props: "length (v6_segments w) = 8" "\<forall>g \<in> set (v6_segments w). g < 65536"
  by (auto simp: v6_segments_def)

lemma v6_of_segments: "v6_of_segments (v6_segments w) = w"
proof -
  define n where "n = unat w"
  have seg: "unat (drop_bit k w) = n div 2 ^ k" for k
    using unsigned_less [of w, where ?'a = nat] unfolding n_def unsigned_drop_bit_eq
    by (simp add: drop_bit_eq_div take_bit_nat_eq_self)
  have "n < 65536 ^ 8" using unsigned_less [of w, where ?'a = nat] by (simp add: n_def)
  then have top: "n div 65536 ^ 7 mod 65536 = n div 65536 ^ 7"
    by (simp add: less_mult_imp_div_less)
  define a where "a k = n div 65536 ^ k" for k
  have step: "a (k + 1) * 65536 + a k mod 65536 = a k" for k
    by (simp add: a_def div_mult2_eq mult.commute [of 65536])
  have s1: "a 2 * 65536 + a 1 mod 65536 = a 1" using step [of 1] by (simp only: one_add_one)
  have "v6_segments w = map (\<lambda>i. a (7 - i) mod 65536) [0..<8]"
    unfolding v6_segments_def seg a_def by (intro map_cong refl) (simp add: power_mult)
  also have "\<dots> = [a 7, a 6 mod 65536, a 5 mod 65536, a 4 mod 65536, a 3 mod 65536, a 2 mod 65536, a 1 mod 65536, a 0 mod 65536]"
    using top by (simp add: upt_rec a_def)
  finally have "foldl (\<lambda>v g. v * 65536 + g) 0 (v6_segments w) = a 0"
    using step [of 6] step [of 5] step [of 4] step [of 3] step [of 2] s1 step [of 0] by simp
  then show ?thesis by (simp add: v6_of_segments_def n_def a_def)
qed

text \<open>A mapped address: the last two groups are those of the IPv4 address.\<close>

lemma mapped_segments:
  assumes "to_ipv4_mapped w = Some v4"
  shows "v6_segments w = [0, 0, 0, 0, 0, 65535, unat (drop_bit 16 v4), unat v4 mod 65536]"
proof -
  have t: "take 6 (v6_segments w) = [0, 0, 0, 0, 0, 65535]" and v4: "v4 = ucast w"
    using assms by (auto simp: to_ipv4_mapped_def split: if_splits)
  have u: "unat v4 = unat w mod 2 ^ 32"
    by (simp add: v4 unsigned_ucast_eq take_bit_eq_mod)
  have seg: "unat (drop_bit k x) = unat x div 2 ^ k" for k and x :: "'a::len word"
    using unsigned_less [of x, where ?'a = nat] unfolding unsigned_drop_bit_eq
    by (simp add: drop_bit_eq_div take_bit_nat_eq_self)
  have "unat (drop_bit 16 v4) = unat w div 65536 mod 65536"
    using mod_mult2_eq [of "unat w" 65536 65536] by (simp add: seg u)
  moreover have "unat v4 mod 65536 = unat w mod 65536"
    by (simp add: u mod_mod_cancel)
  moreover have "drop 6 (v6_segments w) = [unat w div 65536 mod 65536, unat w mod 65536]"
    by (simp add: v6_segments_def upt_rec seg)
  ultimately show ?thesis
    using t append_take_drop_id [of 6 "v6_segments w"] by simp
qed

lemma read_ipv4_string: "r = [] \<or> radix_digit 10 (hd r) = None \<Longrightarrow> read_ipv4_addr (ipv4_string w @ r) = Some (w, r)"
proof -
  assume r: "r = [] \<or> radix_digit 10 (hd r) = None"
  have lt: "unat (b :: u8) < 256" for b
    using unsigned_less [of b, where ?'a = nat] by simp
  show ?thesis
    using v4_of_octets_unat [of w] read_number_dec_string [OF lt r]
    by (simp add: read_ipv4_addr_def ipv4_string_def v4_octets_def read_number_dec_string lt
        not_digit_dot read_given_char_def)
qed

lemma read_mapped:
  assumes "to_ipv4_mapped w = Some v4" "stops r"
  shows "read_ipv6_addr (''::ffff:'' @ ipv4_string v4 @ r) = Some (w, r)"
proof -
  have head: "read_groups 8 0 (''::ffff:'' @ ipv4_string v4 @ r) = ([], False, ''::ffff:'' @ ipv4_string v4 @ r)"
    by (intro read_groups_stop) (simp add: stops_def)
  have "hex_digits 65535 = [15, 15, 15, 15]"
    by (simp add: hex_digits.simps [of 65535] hex_digits.simps [of 4095] hex_digits.simps [of 255] hex_digits.simps [of 15])
  moreover have "hex_char 15 = CHR ''f''" by (simp add: hex_char_def char_of_eq_iff)
  ultimately have f: "hex_string 65535 = ''ffff''" by (simp add: hex_string_def)
  have r: "r = [] \<or> radix_digit 10 (hd r) = None"
    using assms(2) ends_group_no_digit [of r] by (auto simp: stops_def ends_group_def)
  have e: "ends_group ('':'' @ ipv4_string v4 @ r)" by (simp add: ends_group_def)
  have g1: "read_groups 7 (Suc 0) ('':'' @ ipv4_string v4 @ r) = ([unat (drop_bit 16 v4), unat v4 mod 65536], True, r)"
    using read_ipv4_string [OF r] by (simp add: read_groups.simps [of 7 "Suc 0"] read_sep_def read_given_char_def)
  have "read_groups 7 0 (''ffff'' @ '':'' @ ipv4_string v4 @ r) = ([65535, unat (drop_bit 16 v4), unat v4 mod 65536], True, r)"
    using g1 read_ipv4_no_dot [OF hex_string_no_dot e, of 65535] read_number_hex [OF _ e, of 65535]
    unfolding f by (simp add: read_groups.simps [of 7 0] read_sep_def)
  moreover have "replicate 5 (0 :: nat) = [0, 0, 0, 0, 0]" by (simp add: numeral_eq_Suc)
  ultimately have "read_ipv6_addr (''::ffff:'' @ ipv4_string v4 @ r) =
      Some (v6_of_segments [0, 0, 0, 0, 0, 65535, unat (drop_bit 16 v4), unat v4 mod 65536], r)"
    using head by (simp add: read_ipv6_addr_def read_given_char_def)
  then show ?thesis
    using v6_of_segments [of w] mapped_segments [OF assms(1)] by simp
qed

lemma read_ipv6_string:
  assumes "stops r"
  shows "read_ipv6_addr (ipv6_string w @ r) = Some (w, r)"
proof (cases "to_ipv4_mapped w")
  case (Some v4)
  then show ?thesis using read_mapped [OF Some assms] by (simp add: ipv6_string_def)
next
  case None
  define gs where "gs = v6_segments w"
  obtain start len where z: "longest_zeros 0 gs (0, 0) (0, 0) = (start, len)" by fastforce
  have gs: "length gs = 8" "\<forall>g \<in> set gs. g < 65536" "v6_of_segments gs = w"
    using v6_segments_props v6_of_segments by (simp_all add: gs_def)
  have run: "zero_run gs (start, len)"
    using longest_zeros_run [of gs "[]" gs "(0, 0)" "(0, 0)"] z by (simp add: zero_run_def)
  show ?thesis
  proof (cases "1 < len")
    case False
    then have "ipv6_string w = group_text 0 gs"
      using None z by (simp add: ipv6_string_def gs_def Let_def fmt_subslice_group_text)
    then show ?thesis
      using read_groups_text [of gs 8 0 r] gs assms by (simp add: read_ipv6_addr_def)
  next
    case True
    define head tail where "head = take start gs" and "tail = drop (start + len) gs"
    have sum: "start + len \<le> 8" using run gs(1) by (simp add: zero_run_def)
    have lens: "length head = start" "length tail = 8 - (start + len)"
      using sum gs(1) by (simp_all add: head_def tail_def)
    have split: "head @ replicate (8 - length head - length tail) 0 @ tail = gs"
      using zero_run_split [OF run] sum lens by (simp add: head_def tail_def)
    have all: "\<forall>g \<in> set head. g < 65536" "\<forall>g \<in> set tail. g < 65536"
      using gs(2) set_take_subset [of start gs] set_drop_subset [of "start + len" gs] by (auto simp: head_def tail_def)
    have s: "ipv6_string w @ r = group_text 0 head @ ''::'' @ group_text 0 tail @ r"
      using None z True by (simp add: ipv6_string_def gs_def [symmetric] Let_def fmt_subslice_group_text head_def tail_def)
    have "read_groups 8 0 (group_text 0 head @ ''::'' @ group_text 0 tail @ r) = (head, False, ''::'' @ group_text 0 tail @ r)"
      using lens sum by (intro read_groups_text all(1)) (auto simp: stops_def)
    moreover have "read_groups (8 - (length head + 1)) 0 (group_text 0 tail @ r) = (tail, False, r)"
      using lens sum True by (intro read_groups_text all(2) assms) simp
    ultimately show ?thesis
      using lens sum True split gs(3) unfolding s by (simp add: read_ipv6_addr_def read_given_char_def)
  qed
qed

text \<open>The text of an IPv6 address does not start like an IPv4 address.\<close>

lemma group_text_not_ipv4:
  assumes "gs \<noteq> [] \<or> ends_group r" "\<forall>i. ends_group (group_text (Suc i) (tl gs) @ r)"
  shows "read_ipv4_addr (group_text 0 gs @ r) = None"
proof (cases gs)
  case Nil
  then show ?thesis using assms(1) read_ipv4_no_dot [of "[]" r] by simp
next
  case (Cons g hs)
  have "ends_group (group_text (Suc 0) hs @ r)" using assms(2) Cons by simp
  then show ?thesis
    using read_ipv4_no_dot [OF hex_string_no_dot, of "group_text (Suc 0) hs @ r" g] Cons by simp
qed

lemma ipv6_not_ipv4: "read_ipv4_addr (ipv6_string w) = None"
proof (cases "to_ipv4_mapped w")
  case (Some v4)
  then show ?thesis
    using read_ipv4_no_dot [of "[]" "''::ffff:'' @ ipv4_string v4"] by (simp add: ipv6_string_def ends_group_def)
next
  case None
  have e: "ends_group (group_text (Suc i) hs @ r)" if "r = [] \<or> hd r = CHR '':''" for i hs r
    using that by (cases hs) (auto simp: ends_group_def)
  have n: "read_ipv4_addr (group_text 0 hs @ r) = None" if "r = [] \<or> hd r = CHR '':''" for hs r
    by (rule group_text_not_ipv4) (use that e [OF that] in \<open>auto simp: ends_group_def\<close>)
  obtain hs r where "ipv6_string w = group_text 0 hs @ r" "r = [] \<or> hd r = CHR '':''"
  proof (cases "1 < snd (longest_zeros 0 (v6_segments w) (0, 0) (0, 0))")
    case True
    then show ?thesis
      using that [of "take (fst (longest_zeros 0 (v6_segments w) (0, 0) (0, 0))) (v6_segments w)"
          "''::'' @ fmt_subslice (drop (fst (longest_zeros 0 (v6_segments w) (0, 0) (0, 0)) +
            snd (longest_zeros 0 (v6_segments w) (0, 0) (0, 0))) (v6_segments w))"] None
      by (simp add: ipv6_string_def Let_def case_prod_beta fmt_subslice_group_text)
  next
    case False
    then show ?thesis
      using that [of "v6_segments w" "[]"] None
      by (simp add: ipv6_string_def Let_def case_prod_beta fmt_subslice_group_text)
  qed
  then show ?thesis using n by simp
qed

lemma parse_ip_string: "parse_ip_addr (ip_string ip) = Some ip"
proof (cases ip)
  case (V4 a)
  then show ?thesis using parse_ipv4_string by (simp add: ip_string_def)
next
  case (V6 a)
  then show ?thesis
    using read_ipv6_string [of "[]" a] ipv6_not_ipv4 by (simp add: ip_string_def parse_ip_addr_def stops_def)
qed

end
