(* ===== verification/Addr_Text.thy ===== *)
theory Addr_Text
  imports Std_Ipv6 Config_Shared
begin

text \<open>
  Addresses as text on the wire and in configuration: the \<open>serde_ip\<close> helpers of
  \<open>fwknox-proto/src/types.rs\<close> and of \<open>fwknox-privsep/src/messages.rs\<close>, \<open>serde_sock\<close>, the
  serialisation of a source specification, and the redacted \<open>Debug\<close> forms of keys. A
  \<open>SocketAddr\<close> is its address and port here; flow label and scope of an IPv6 one are zero.
\<close>

section \<open>Definitions\<close>

subsection \<open>Socket addresses of the standard library\<close>

definition socket_addr_string :: "socket_addr \<Rightarrow> string" where
  "socket_addr_string sa =
     (case sa of
        SocketAddr (V4 a) port \<Rightarrow> ipv4_string a @ '':'' @ dec_string (unat port)
      | SocketAddr (V6 a) port \<Rightarrow> ''['' @ ipv6_string a @ '']:'' @ dec_string (unat port))"

definition read_decimal :: "nat \<Rightarrow> string \<Rightarrow> (nat \<times> string) option" where
  "read_decimal mx s = read_number 10 (length s) mx True s"

definition read_port :: "string \<Rightarrow> (u16 \<times> string) option" where
  "read_port s = do {
     s \<leftarrow> read_given_char CHR '':'' s;
     (port, s) \<leftarrow> read_decimal 65535 s;
     Some (of_nat port, s)
   }"

definition skip_scope_id :: "string \<Rightarrow> string" where
  "skip_scope_id s =
     (case read_given_char CHR ''%'' s \<bind> read_decimal (2 ^ 32 - 1) of Some (_, r) \<Rightarrow> r | None \<Rightarrow> s)"

definition read_socket_addr :: "string \<Rightarrow> (socket_addr \<times> string) option" where
  "read_socket_addr s =
     (case do { (a, r) \<leftarrow> read_ipv4_addr s; (port, r) \<leftarrow> read_port r; Some (SocketAddr (V4 a) port, r) } of
        Some x \<Rightarrow> Some x
      | None \<Rightarrow> do {
          r \<leftarrow> read_given_char CHR ''['' s;
          (a, r) \<leftarrow> read_ipv6_addr r;
          r \<leftarrow> read_given_char CHR '']'' (skip_scope_id r);
          (port, r) \<leftarrow> read_port r;
          Some (SocketAddr (V6 a) port, r)
        })"

definition parse_socket_addr :: "string \<Rightarrow> socket_addr option" where
  "parse_socket_addr s =
     (case read_socket_addr s of Some (sa, r) \<Rightarrow> if r = [] then Some sa else None | None \<Rightarrow> None)"

subsection \<open>The serde helpers\<close>

definition serde_ip_serialize :: "ip_addr \<Rightarrow> string" where
  "serde_ip_serialize ip = ip_string ip"

definition serde_ip_deserialize :: "string \<Rightarrow> string + ip_addr" where
  "serde_ip_deserialize raw = ok_or (parse_ip_addr raw) ''invalid IP address syntax''"

definition serde_sock_serialize :: "socket_addr \<Rightarrow> string" where
  "serde_sock_serialize addr = socket_addr_string addr"

definition serde_sock_deserialize :: "string \<Rightarrow> string + socket_addr" where
  "serde_sock_deserialize raw = ok_or (parse_socket_addr raw) ''invalid socket address syntax''"

text \<open>\<open>net_string\<close> is the \<open>Display\<close> of the crate's \<open>IpNet\<close>.\<close>

definition serialize_source_spec :: "(ip_net \<Rightarrow> string) \<Rightarrow> source_spec \<Rightarrow> string" where
  "serialize_source_spec net_string spec =
     (case spec of Any \<Rightarrow> ''any'' | Cidr net \<Rightarrow> net_string net | Single ip \<Rightarrow> ip_string ip)"

definition base64_key_debug :: "base64_key \<Rightarrow> string" where
  "base64_key_debug key = ''Base64Key(<redacted>)''"

definition sub_key_debug :: "bytes \<Rightarrow> string" where
  "sub_key_debug key = ''SubKey(<redacted>)''"

section \<open>Lemmas\<close>

lemma read_decimal_dec_string:
  assumes "n \<le> mx"
  shows "read_decimal mx (dec_string n) = Some (n, [])"
proof -
  have "read_digits 10 (dec_string n) = (dec_digits n, [])"
    using read_digits_map [OF dec_digits_less, of "[]" n] by (simp add: dec_string_digits_map)
  moreover have "dec_digits n \<noteq> []" by (subst dec_digits.simps) simp
  moreover have "length (dec_string n) = length (dec_digits n)" by (simp add: dec_string_digits_map)
  ultimately show ?thesis
    using assms dec_digits_value [of n] by (simp add: read_decimal_def read_number_def)
qed

lemma read_port_string: "read_port (CHR '':'' # dec_string (unat (port :: u16))) = Some (port, [])"
  using read_decimal_dec_string [of "unat port" 65535] unsigned_less [of port, where ?'a = nat]
  by (simp add: read_port_def read_given_char_def)

lemma parse_socket_addr_string: "parse_socket_addr (socket_addr_string sa) = Some sa"
proof -
  obtain ip port where sa: "sa = SocketAddr ip port" by (cases sa)
  show ?thesis
  proof (cases ip)
    case (V4 a)
    have "read_ipv4_addr (ipv4_string a @ CHR '':'' # dec_string (unat port)) = Some (a, CHR '':'' # dec_string (unat port))"
      by (rule read_ipv4_string) (simp add: sep_no_digit)
    then show ?thesis
      using read_port_string [of port]
      by (simp add: sa V4 socket_addr_string_def parse_socket_addr_def read_socket_addr_def)
  next
    case (V6 a)
    let ?r = "CHR '']'' # CHR '':'' # dec_string (unat port)"
    have "read_digits 10 (CHR ''['' # s) = ([], CHR ''['' # s)" for s
      by (simp add: radix_digit_def hex_digit_def is_ascii_digit_def code_def)
    then have "read_ipv4_addr (CHR ''['' # s) = None" for s
      by (simp add: read_ipv4_addr_def read_number_def)
    moreover have "read_ipv6_addr (ipv6_string a @ ?r) = Some (a, ?r)"
      by (rule read_ipv6_string) (simp add: stops_def)
    moreover have "skip_scope_id ?r = ?r"
      by (simp add: skip_scope_id_def read_given_char_def)
    ultimately show ?thesis
      using read_port_string [of port]
      by (simp add: sa V6 socket_addr_string_def parse_socket_addr_def read_socket_addr_def read_given_char_def)
  qed
qed

section \<open>Properties\<close>


end
