(* ===== verification/Flood.thy ===== *)
theory Flood
  imports Daemon_Run
begin

text \<open>
  How much work a flood of packets can cause. A packet that the limiter passes costs the
  daemon a key derivation and an HMAC for every stanza; this theory bounds the number of such
  packets for the limiter as a whole (both tiers of \<open>limiter.rs\<close>, with promotion and
  eviction), then for the single-process loop and for the capture worker. The bound is an
  amortised analysis: tokens, candidate counts and the time that is left are a potential that
  every passed packet uses up.
\<close>

section \<open>Amortised analysis\<close>

text \<open>The cost of a history of operations, each of which is enabled when it is executed.\<close>

primrec history_cost :: "('op \<Rightarrow> 's \<Rightarrow> nat) \<Rightarrow> ('op \<Rightarrow> 's \<Rightarrow> 's) \<Rightarrow> 'op list \<Rightarrow> 's \<Rightarrow> nat" where
  "history_cost cost exec [] s = 0"
| "history_cost cost exec (x # xs) s = cost x s + history_cost cost exec xs (exec x s)"

primrec history_enabled :: "('op \<Rightarrow> 's \<Rightarrow> bool) \<Rightarrow> ('op \<Rightarrow> 's \<Rightarrow> 's) \<Rightarrow> 'op list \<Rightarrow> 's \<Rightarrow> bool" where
  "history_enabled enabled exec [] s \<longleftrightarrow> True"
| "history_enabled enabled exec (x # xs) s \<longleftrightarrow> enabled x s \<and> history_enabled enabled exec xs (exec x s)"

locale amortised =
  fixes exec :: "'op \<Rightarrow> 's \<Rightarrow> 's" and cost :: "'op \<Rightarrow> 's \<Rightarrow> nat" and enabled :: "'op \<Rightarrow> 's \<Rightarrow> bool"
    and keeps :: "'s \<Rightarrow> bool" and potential :: "'s \<Rightarrow> rat" and slack :: rat
  assumes keeps_exec: "keeps s \<Longrightarrow> enabled x s \<Longrightarrow> keeps (exec x s)"
    and potential_nonneg: "keeps s \<Longrightarrow> 0 \<le> potential s"
    and pays: "keeps s \<Longrightarrow> enabled x s \<Longrightarrow> of_nat (cost x s) + potential (exec x s) \<le> potential s + slack"
begin

lemma history_pays:
  "keeps s \<Longrightarrow> history_enabled enabled exec xs s \<Longrightarrow>
     of_nat (history_cost cost exec xs s) \<le> potential s + slack * of_nat (length xs)"
proof (induction xs arbitrary: s)
  case Nil
  then show ?case by (simp add: potential_nonneg)
next
  case (Cons x xs)
  then have "of_nat (history_cost cost exec xs (exec x s)) \<le> potential (exec x s) + slack * of_nat (length xs)"
    by (simp add: keeps_exec)
  then show ?case
    using pays [of s x] Cons.prems by (simp add: distrib_left)
qed

end

section \<open>The potential of a limiter\<close>

text \<open>
  Tokens are worth one packet each. A token of the global bucket also pays for the share of a
  promotion that its packet counts for: a promoted source gets a full bucket for
  \<open>promotion_threshold\<close> packets.
\<close>

definition share :: "rate_limit_section \<Rightarrow> rat" where
  "share config = f64_of_u64 (rl_per_source_burst config) / of_nat (unat (rl_promotion_threshold config))"

definition per_nano :: "u64 \<Rightarrow> rat" where
  "per_nano rate = f64_of_u64 rate / 10 ^ 9 * (1 + ulp) ^ 4"

definition bucket_worth :: "instant \<Rightarrow> token_bucket \<Rightarrow> rat" where
  "bucket_worth now b = tb_tokens b + tb_rate_per_sec b / 10 ^ 9 * (1 + ulp) ^ 4 * of_nat (now - tb_last_refill b)"

definition tracked_worth :: "instant \<Rightarrow> (source_key \<times> token_bucket) list \<Rightarrow> rat" where
  "tracked_worth now es = (\<Sum>(_, b) \<leftarrow> es. bucket_worth now b)"

definition candidate_count :: "(source_key \<times> (u32 \<times> instant)) list \<Rightarrow> nat" where
  "candidate_count cs = (\<Sum>(_, n, _) \<leftarrow> cs. unat n)"

definition inner_worth :: "'c key_lru \<Rightarrow> rate_limit_section \<Rightarrow> instant \<Rightarrow> 'c limiter_inner \<Rightarrow> rat" where
  "inner_worth ops config now inner =
     (1 + share config) * bucket_worth now (in_global inner)
     + tracked_worth now (lru_iter ops (in_tracked inner))
     + share config * of_nat (candidate_count (in_candidates inner))"

text \<open>What a nanosecond adds to that worth at most.\<close>

definition inflow :: "rate_limit_section \<Rightarrow> rat" where
  "inflow config =
     (1 + share config) * per_nano (rl_global_rate_per_sec config)
     + of_nat (rl_tracked_sources_capacity config) * per_nano (rl_per_source_rate_per_sec config)"

text \<open>What the rounding of one check adds at most.\<close>

definition rounding :: "rate_limit_section \<Rightarrow> rat" where
  "rounding config =
     3 * ulp * ((1 + share config) * f64_of_u64 (rl_global_burst config) + f64_of_u64 (rl_per_source_burst config))"

text \<open>The buckets have the configured size and rate, and were refilled in the past.\<close>

definition meters :: "u64 \<Rightarrow> u64 \<Rightarrow> instant \<Rightarrow> token_bucket \<Rightarrow> bool" where
  "meters rate burst now b \<longleftrightarrow>
     bucket_inv b \<and> tb_capacity b = f64_of_u64 burst \<and> tb_rate_per_sec b = f64_of_u64 rate \<and> tb_last_refill b \<le> now"

definition metered :: "'c key_lru \<Rightarrow> ('c \<Rightarrow> bool) \<Rightarrow> rate_limit_section \<Rightarrow> instant \<Rightarrow> 'c limiter_inner \<Rightarrow> bool" where
  "metered ops I config now inner \<longleftrightarrow>
     limiter_inv ops I config inner \<and> in_clock inner = SystemClock \<and>
     meters (rl_global_rate_per_sec config) (rl_global_burst config) now (in_global inner) \<and>
     (\<forall>(k, b) \<in> set (lru_iter ops (in_tracked inner)).
        meters (rl_per_source_rate_per_sec config) (rl_per_source_burst config) now b)"

text \<open>The operations of a history are checks; its states are the limiter and the last time.\<close>

definition flow_exec :: "'c key_lru \<Rightarrow> instant \<times> ip_addr \<Rightarrow> instant \<times> 'c rate_limiter \<Rightarrow> instant \<times> 'c rate_limiter" where
  "flow_exec ops e s = (case (e, s) of ((t, ip), (now, rl)) \<Rightarrow> (t, snd (check ops t t ip rl)))"

definition flow_cost :: "'c key_lru \<Rightarrow> instant \<times> ip_addr \<Rightarrow> instant \<times> 'c rate_limiter \<Rightarrow> nat" where
  "flow_cost ops e s = (case (e, s) of ((t, ip), (now, rl)) \<Rightarrow> if fst (check ops t t ip rl) = Pass then 1 else 0)"

definition flow_enabled :: "instant \<Rightarrow> instant \<times> ip_addr \<Rightarrow> instant \<times> 'c rate_limiter \<Rightarrow> bool" where
  "flow_enabled finish e s \<longleftrightarrow> fst s \<le> fst e \<and> fst e \<le> finish"

definition flow_keeps ::
  "'c key_lru \<Rightarrow> ('c \<Rightarrow> bool) \<Rightarrow> rate_limit_section \<Rightarrow> instant \<Rightarrow> instant \<times> 'c rate_limiter \<Rightarrow> bool" where
  "flow_keeps ops I config finish s \<longleftrightarrow>
     fst s \<le> finish \<and> lim_config (snd s) = config \<and>
     (case lim_inner (snd s) of None \<Rightarrow> False | Some inner \<Rightarrow> metered ops I config (fst s) inner)"

definition flow_potential :: "'c key_lru \<Rightarrow> rate_limit_section \<Rightarrow> instant \<Rightarrow> instant \<times> 'c rate_limiter \<Rightarrow> rat" where
  "flow_potential ops config finish s =
     (case lim_inner (snd s) of
        None \<Rightarrow> 0
      | Some inner \<Rightarrow> inner_worth ops config (fst s) inner + inflow config * of_nat (finish - fst s))"

text \<open>The number of packets that pass within a number of nanoseconds, over a number of checks.\<close>

definition throughput :: "rate_limit_section \<Rightarrow> nat \<Rightarrow> nat \<Rightarrow> rat" where
  "throughput config elapsed checks =
     (1 + share config) * f64_of_u64 (rl_global_burst config) + inflow config * of_nat elapsed
     + rounding config * of_nat checks"

section \<open>Lemmas\<close>

lemma share_nonneg: "0 \<le> share config"
  using of_nat_0_le_iff [of "unat (rl_promotion_threshold config)", where ?'a = rat]
  unfolding share_def by (intro divide_nonneg_nonneg f64_of_u64_nonneg)

lemma per_nano_nonneg: "0 \<le> per_nano rate"
  using ulp_pos by (simp add: per_nano_def f64_of_u64_nonneg)

lemma inflow_nonneg: "0 \<le> inflow config"
  by (simp add: inflow_def share_nonneg per_nano_nonneg add_nonneg_nonneg)

lemma bucket_worth_nonneg: "bucket_inv b \<Longrightarrow> 0 \<le> bucket_worth now b"
  using ulp_pos by (simp add: bucket_worth_def bucket_inv_def)

subsection \<open>Buckets\<close>

lemma meters_new: "meters rate burst now (bucket_new rate burst now)"
  by (simp add: meters_def bucket_new_inv) (simp add: bucket_new_def)

lemma bucket_worth_new: "bucket_worth now (bucket_new rate burst now) = f64_of_u64 burst"
  by (simp add: bucket_worth_def bucket_new_def)

lemma meters_later: "meters rate burst now b \<Longrightarrow> now \<le> t \<Longrightarrow> meters rate burst t b"
  by (simp add: meters_def)

lemma bucket_worth_later:
  assumes "meters rate burst now b" "now \<le> t"
  shows "bucket_worth t b = bucket_worth now b + per_nano rate * of_nat (t - now)"
proof -
  have "(of_nat (t - tb_last_refill b) :: rat) = of_nat (now - tb_last_refill b) + of_nat (t - now)"
    using assms by (simp add: meters_def flip: of_nat_add)
  then show ?thesis
    using assms(1) by (simp add: bucket_worth_def meters_def per_nano_def distrib_left)
qed

lemma meters_consume:
  assumes "meters rate burst now b" "now \<le> t"
  shows "meters rate burst t (snd (bucket_consume t b))"
  using assms bucket_consume_inv [of b t] by (simp add: meters_def bucket_consume_fixed)

text \<open>A passed attempt uses up a token's worth.\<close>

lemma consume_worth:
  assumes "meters rate burst now b" "now \<le> t"
  shows "(if fst (bucket_consume t b) = BucketPass then 1 else 0) + bucket_worth t (snd (bucket_consume t b))
    \<le> bucket_worth now b + per_nano rate * of_nat (t - now) + 3 * ulp * f64_of_u64 burst"
proof -
  have "tb_last_refill (snd (bucket_consume t b)) = t"
    using assms by (simp add: meters_def bucket_consume_fixed)
  then have "(if fst (bucket_consume t b) = BucketPass then 1 else 0) + bucket_worth t (snd (bucket_consume t b))
      \<le> bucket_worth t b + 3 * ulp * f64_of_u64 burst"
    using bucket_consume_upper [of b t] assms(1) by (simp add: bucket_worth_def meters_def mult_ac split: if_splits)
  then show ?thesis
    by (simp add: bucket_worth_later [OF assms])
qed

subsection \<open>Tracked sources and candidates\<close>

lemma tracked_worth_simps [simp]:
  "tracked_worth now [] = 0"
  "tracked_worth now ((k, b) # es) = bucket_worth now b + tracked_worth now es"
  by (simp_all add: tracked_worth_def)

lemma candidate_count_simps [simp]:
  "candidate_count [] = 0"
  "candidate_count ((k, n, t) # cs) = unat n + candidate_count cs"
  by (simp_all add: candidate_count_def)

lemma tracked_worth_nonneg: "\<forall>(k, b) \<in> set es. bucket_inv b \<Longrightarrow> 0 \<le> tracked_worth now es"
  by (induction es) (auto simp: bucket_worth_nonneg intro: add_nonneg_nonneg)

lemma tracked_worth_later:
  assumes "\<forall>(k, b) \<in> set es. meters rate burst now b" "now \<le> t"
  shows "tracked_worth t es = tracked_worth now es + of_nat (length es) * (per_nano rate * of_nat (t - now))"
  using assms(1) by (induction es) (auto simp: bucket_worth_later [OF _ assms(2)] distrib_right)

lemma tracked_worth_split:
  "distinct (map fst es) \<Longrightarrow> map_of es k = Some b \<Longrightarrow>
     tracked_worth now es = bucket_worth now b + tracked_worth now (filter (\<lambda>e. fst e \<noteq> k) es)"
proof (induction es)
  case (Cons e es)
  obtain k' b' where e: "e = (k', b')" by (cases e)
  have "filter (\<lambda>e. fst e \<noteq> k') es = es" if "k' \<notin> fst ` set es"
    using that by (intro filter_True) force
  then show ?case
    using Cons by (auto simp: e)
qed simp

lemma tracked_worth_butlast:
  "\<forall>(k, b) \<in> set es. bucket_inv b \<Longrightarrow> tracked_worth now (butlast es) \<le> tracked_worth now es"
  by (induction es) (auto simp: bucket_worth_nonneg)

lemma candidate_count_filter: "candidate_count (filter P cs) \<le> candidate_count cs"
  by (induction cs) (auto simp: candidate_count_def)

lemma candidate_count_update:
  "candidate_count (AList.update k (n, t) cs) + (case map_of cs k of None \<Rightarrow> 0 | Some (m, _) \<Rightarrow> unat m)
     = candidate_count cs + unat n"
  by (induction cs) (auto split: option.splits)

lemma candidate_count_delete:
  "map_of cs k = Some (n, t) \<Longrightarrow> unat n + candidate_count (AList.delete k cs) \<le> candidate_count cs"
proof (induction cs)
  case (Cons c cs)
  obtain k' n' t' where c: "c = (k', n', t')" by (cases c)
  have "candidate_count (AList.delete k cs) \<le> candidate_count cs"
    by (simp add: AList.delete_eq candidate_count_filter)
  then show ?case
    using Cons by (auto simp: c split: if_splits)
qed simp

text \<open>Counting a packet adds one to the counts at most.\<close>

lemma bump_counts:
  assumes "bump_candidate now key inner = (inner', c)"
  shows "candidate_count (in_candidates inner') \<le> candidate_count (in_candidates inner) + 1 \<and>
    (\<forall>n. c = Some n \<longrightarrow> map_of (in_candidates inner') key = Some (n, now))"
proof (cases "map_of (in_candidates inner) key")
  case (Some a)
  obtain m t where a: "a = (m, t)" by (cases a)
  have "unat (saturating_add m 1) \<le> unat m + 1"
    using unsigned_less [of "- 1 :: u32", where ?'a = nat] by (auto simp: saturating_add_def unat_word_ariths)
  then show ?thesis
    using assms Some candidate_count_update [of key "saturating_add m 1" now "in_candidates inner"]
    by (auto simp: bump_candidate_def a Let_def update_conv')
next
  case None
  define sw where "sw = (if in_max_candidates inner \<le> length (in_candidates inner)
    then sweep_expired_candidates now inner else inner)"
  have sw: "candidate_count (in_candidates sw) \<le> candidate_count (in_candidates inner)"
    by (simp add: sw_def sweep_candidates candidate_count_filter)
  have "map_of (filter P (in_candidates inner)) key = None" for P
    using None by (force simp: map_of_eq_None_iff)
  then have n: "map_of (in_candidates sw) key = None"
    using None by (simp add: sw_def sweep_candidates)
  show ?thesis
    using assms None sw n candidate_count_update [of key 1 now "in_candidates sw"]
    by (auto simp: bump_candidate_def sw_def [symmetric] Let_def update_conv' split: if_splits)
qed

lemma inflow_time:
  "inflow config * d = (1 + share config) * (per_nano (rl_global_rate_per_sec config) * d)
     + of_nat (rl_tracked_sources_capacity config) * (per_nano (rl_per_source_rate_per_sec config) * d)"
  by (simp add: inflow_def algebra_simps)

lemma rounding_ge:
  "3 * ulp * f64_of_u64 (rl_per_source_burst config) \<le> rounding config"
  "(1 + share config) * (3 * ulp * f64_of_u64 (rl_global_burst config)) \<le> rounding config"
proof -
  have "0 \<le> ulp * ((1 + share config) * f64_of_u64 (rl_global_burst config))"
    "0 \<le> ulp * f64_of_u64 (rl_per_source_burst config)"
    using ulp_pos share_nonneg [of config] by (simp_all add: f64_of_u64_nonneg)
  then show "3 * ulp * f64_of_u64 (rl_per_source_burst config) \<le> rounding config"
    "(1 + share config) * (3 * ulp * f64_of_u64 (rl_global_burst config)) \<le> rounding config"
    by (simp_all add: rounding_def algebra_simps)
qed

lemma share_threshold:
  assumes "0 < rl_promotion_threshold config" "rl_promotion_threshold config \<le> n"
  shows "f64_of_u64 (rl_per_source_burst config) \<le> share config * of_nat (unat n)"
proof -
  have pos: "0 < (of_nat (unat (rl_promotion_threshold config)) :: rat)"
    using assms(1) by (simp only: of_nat_0_less_iff unat_gt_0 word_gt_0)
  have "share config * of_nat (unat (rl_promotion_threshold config)) \<le> share config * of_nat (unat n)"
    using assms(2) by (intro mult_left_mono share_nonneg of_nat_mono) (simp add: word_le_nat_alt)
  moreover have "share config * of_nat (unat (rl_promotion_threshold config)) = f64_of_u64 (rl_per_source_burst config)"
    unfolding share_def using pos by (metis less_irrefl nonzero_eq_divide_eq)
  ultimately show ?thesis by simp
qed

context key_tracker
begin

lemma metered_facts:
  assumes "metered ops I config now inner"
  shows "I (in_tracked inner)" "length (lru_iter ops (in_tracked inner)) \<le> rl_tracked_sources_capacity config"
    "distinct (map fst (lru_iter ops (in_tracked inner)))"
    "\<forall>(k, b) \<in> set (lru_iter ops (in_tracked inner)). bucket_inv b"
    "\<forall>(k, b) \<in> set (lru_iter ops (in_tracked inner)).
       meters (rl_per_source_rate_per_sec config) (rl_per_source_burst config) now b"
    "meters (rl_global_rate_per_sec config) (rl_global_burst config) now (in_global inner)"
proof -
  show i: "I (in_tracked inner)"
    using assms by (simp add: metered_def limiter_inv_def limiter_shape_def)
  show "length (lru_iter ops (in_tracked inner)) \<le> rl_tracked_sources_capacity config"
    using assms iter_bounded [OF i] by (simp add: metered_def limiter_inv_def limiter_shape_def)
  show "distinct (map fst (lru_iter ops (in_tracked inner)))"
    by (rule iter_distinct [OF i])
qed (use assms in \<open>simp_all add: metered_def limiter_inv_def\<close>)

lemma worth_nonneg: "metered ops I config now inner \<Longrightarrow> 0 \<le> inner_worth ops config now inner"
  using metered_facts(4,6) [of config now inner] share_nonneg [of config]
  by (simp add: inner_worth_def tracked_worth_nonneg bucket_worth_nonneg meters_def add_nonneg_nonneg)

text \<open>Time alone adds the inflow at most.\<close>

lemma refill_tracked:
  assumes "\<forall>(k, b) \<in> set es. meters (rl_per_source_rate_per_sec config) burst now b" "now \<le> t"
    "length es + m \<le> rl_tracked_sources_capacity config"
  shows "tracked_worth t es + of_nat m * (per_nano (rl_per_source_rate_per_sec config) * of_nat (t - now))
    \<le> tracked_worth now es
      + of_nat (rl_tracked_sources_capacity config) * (per_nano (rl_per_source_rate_per_sec config) * of_nat (t - now))"
proof -
  let ?r = "per_nano (rl_per_source_rate_per_sec config) * of_nat (t - now)"
  have "of_nat (length es + m) * ?r \<le> of_nat (rl_tracked_sources_capacity config) * ?r"
    using assms(3) per_nano_nonneg by (intro mult_right_mono of_nat_mono) simp_all
  then show ?thesis
    by (simp add: tracked_worth_later [OF assms(1,2)] distrib_right)
qed

lemma tracked_pays:
  assumes m: "metered ops I config now inner" and t: "now \<le> t"
    and g: "lru_get_mut ops (in_tracked inner) key = Some (b, w)"
    and r: "check_tracked t b w inner st = (d, inner', st')"
  shows "metered ops I config t inner' \<and>
    (if d = Pass then 1 else 0) + inner_worth ops config t inner'
      \<le> inner_worth ops config now inner + inflow config * of_nat (t - now) + rounding config"
proof -
  note f = metered_facts [OF m]
  let ?es = "lru_iter ops (in_tracked inner)" and ?rest = "filter (\<lambda>e. fst e \<noteq> key) (lru_iter ops (in_tracked inner))"
  let ?c = "snd (bucket_consume t b)"
  have mo: "map_of ?es key = Some b" by (rule get_mut_Some [OF f(1) g])
  then have b: "meters (rl_per_source_rate_per_sec config) (rl_per_source_burst config) now b"
    using f(5) by (auto dest: map_of_SomeD)
  obtain warned where inner': "inner' = inner\<lparr>in_tracked := w (?c\<lparr>tb_last_warn_log := warned\<rparr>)\<rparr>"
    and d: "d = Pass \<longleftrightarrow> fst (bucket_consume t b) = BucketPass"
    using r by (auto simp: check_tracked_def Let_def split: prod.splits bucket_decision.splits)
      (metis token_bucket.surjective token_bucket.update_convs(5))
  have it: "lru_iter ops (in_tracked inner') = (key, ?c\<lparr>tb_last_warn_log := warned\<rparr>) # ?rest"
    by (simp add: inner' get_mut_iter [OF f(1) g])
  have len: "length ?rest + 1 \<le> rl_tracked_sources_capacity config"
    using length_filter_key [of key ?es] map_of_SomeD [OF mo] f(2) by force
  have "inner_worth ops config t inner' = (1 + share config) * bucket_worth t (in_global inner)
      + (bucket_worth t ?c + tracked_worth t ?rest) + share config * of_nat (candidate_count (in_candidates inner))"
    using it by (simp add: inner_worth_def inner') (simp add: bucket_worth_def)
  moreover have "(if d = Pass then 1 else 0) + bucket_worth t ?c \<le> bucket_worth now b
      + per_nano (rl_per_source_rate_per_sec config) * of_nat (t - now) + 3 * ulp * f64_of_u64 (rl_per_source_burst config)"
    using consume_worth [OF b t] by (simp add: d)
  moreover have "inner_worth ops config now inner = (1 + share config) * bucket_worth now (in_global inner)
      + (bucket_worth now b + tracked_worth now ?rest) + share config * of_nat (candidate_count (in_candidates inner))"
    by (simp add: inner_worth_def tracked_worth_split [OF f(3) mo])
  moreover have "(1 + share config) * bucket_worth t (in_global inner) = (1 + share config) * bucket_worth now (in_global inner)
      + (1 + share config) * (per_nano (rl_global_rate_per_sec config) * of_nat (t - now))"
    by (simp only: bucket_worth_later [OF f(6) t] distrib_left)
  moreover have "\<forall>(k, b) \<in> set ?rest. meters (rl_per_source_rate_per_sec config) (rl_per_source_burst config) now b"
    using f(5) by auto
  note refill_tracked [OF this t len]
  ultimately have pays: "(if d = Pass then 1 else 0) + inner_worth ops config t inner'
      \<le> inner_worth ops config now inner + inflow config * of_nat (t - now) + rounding config"
    unfolding inflow_time using rounding_ge(1) [of config] by linarith
  have "limiter_inv ops I config inner'" "in_clock inner' = SystemClock"
    using check_tracked_inv [OF _ g r, of config] check_tracked_clock [OF r] m by (simp_all add: metered_def)
  moreover have "meters (rl_per_source_rate_per_sec config) (rl_per_source_burst config) t (?c\<lparr>tb_last_warn_log := warned\<rparr>)"
    using meters_consume [OF b t] by (simp add: meters_def bucket_inv_def rnd_f64_of_u64)
  ultimately have "metered ops I config t inner'"
    using f(5,6) t meters_later unfolding metered_def it by (fastforce simp: inner')
  then show ?thesis using pays by blast
qed

text \<open>A promoted source is paid for by the packets that it was counted for.\<close>

lemma promote_pays:
  assumes m: "metered ops I config now inner" and t: "now \<le> t" and pos: "0 < rl_promotion_threshold config"
    and new: "key \<notin> fst ` set (lru_iter ops (in_tracked inner))"
    and n: "map_of cs key = Some (n, t)" "rl_promotion_threshold config \<le> n"
    and p: "promote ops config t key (inner\<lparr>in_global := g, in_candidates := cs\<rparr>) st = (inner', st')"
  shows "tracked_worth t (lru_iter ops (in_tracked inner')) + share config * of_nat (candidate_count (in_candidates inner'))
      \<le> tracked_worth t (lru_iter ops (in_tracked inner)) + share config * of_nat (candidate_count cs) \<and>
    (\<forall>(k, b) \<in> set (lru_iter ops (in_tracked inner')).
       meters (rl_per_source_rate_per_sec config) (rl_per_source_burst config) t b)"
proof -
  note f = metered_facts [OF m]
  let ?es = "lru_iter ops (in_tracked inner)"
  let ?b = "bucket_new (rl_per_source_rate_per_sec config) (rl_per_source_burst config) t"
  let ?rest = "if length ?es < lru_cap ops (in_tracked inner) then ?es else butlast ?es"
  have cs: "in_candidates inner' = AList.delete key cs"
    and it: "lru_iter ops (in_tracked inner') = (key, ?b) # ?rest"
    using p new by (auto simp: promote_def push_put [OF f(1)] put_iter [OF f(1)] insert_front_def Let_def)
  have "tracked_worth t ?rest \<le> tracked_worth t ?es"
    by (simp add: tracked_worth_butlast [OF f(4)])
  moreover have "share config * of_nat (unat n + candidate_count (AList.delete key cs)) \<le> share config * of_nat (candidate_count cs)"
    using candidate_count_delete [OF n(1)] by (intro mult_left_mono share_nonneg of_nat_mono)
  moreover have "f64_of_u64 (rl_per_source_burst config) \<le> share config * of_nat (unat n)"
    by (rule share_threshold [OF pos n(2)])
  ultimately have "tracked_worth t (lru_iter ops (in_tracked inner')) + share config * of_nat (candidate_count (in_candidates inner'))
      \<le> tracked_worth t ?es + share config * of_nat (candidate_count cs)"
    by (simp add: it cs bucket_worth_new distrib_left del: of_nat_unat)
  moreover have "set ?rest \<subseteq> set ?es"
    by (auto dest: in_set_butlastD)
  then have "\<forall>(k, b) \<in> set ?rest. meters (rl_per_source_rate_per_sec config) (rl_per_source_burst config) t b"
    using f(5) t meters_later by fast
  ultimately show ?thesis
    by (simp add: it meters_new)
qed

text \<open>What tier 2 does to candidates and tracked sources: at most the share of a packet is added.\<close>

lemma global_rest:
  assumes m: "metered ops I config now inner" and t: "now \<le> t" and pos: "0 < rl_promotion_threshold config"
    and new: "key \<notin> fst ` set (lru_iter ops (in_tracked inner))"
    and r: "check_global ops config t key inner st = (d, inner', st')"
  shows "tracked_worth t (lru_iter ops (in_tracked inner')) + share config * of_nat (candidate_count (in_candidates inner'))
      \<le> tracked_worth t (lru_iter ops (in_tracked inner)) + share config * of_nat (candidate_count (in_candidates inner))
        + share config * (if d = Pass then 1 else 0) \<and>
    (\<forall>(k, b) \<in> set (lru_iter ops (in_tracked inner')).
       meters (rl_per_source_rate_per_sec config) (rl_per_source_burst config) t b)"
proof -
  have old: "\<forall>(k, b) \<in> set (lru_iter ops (in_tracked inner)).
      meters (rl_per_source_rate_per_sec config) (rl_per_source_burst config) t b"
    using metered_facts(5) [OF m] t meters_later by fast
  obtain bd g where c: "bucket_consume t (in_global inner) = (bd, g)"
    by (cases "bucket_consume t (in_global inner)")
  show ?thesis
  proof (cases bd)
    case BucketDrop
    then obtain warned where "inner' = inner\<lparr>in_global := g, in_last_global_drop_warn := warned\<rparr>" "d \<noteq> Pass"
      using r c by (auto simp: check_global_def Let_def split: prod.splits)
    then show ?thesis using old by simp
  next
    case BucketPass
    obtain inner1 cnt where b: "bump_candidate t key (inner\<lparr>in_global := g\<rparr>) = (inner1, cnt)"
      by (cases "bump_candidate t key (inner\<lparr>in_global := g\<rparr>)")
    obtain inner2 st2 where p: "promote ops config t key inner1 st = (inner2, st2)"
      by (cases "promote ops config t key inner1 st")
    have d: "d = Pass" and i: "inner' = (case cnt of None \<Rightarrow> inner1
        | Some n \<Rightarrow> if rl_promotion_threshold config \<le> n then inner2 else inner1)"
      using r c b p BucketPass by (auto simp: check_global_def Let_def split: option.splits if_splits)
    obtain cs where cs: "inner1 = inner\<lparr>in_global := g, in_candidates := cs\<rparr>"
      using bump_fields [OF b] by auto
    have bc: "candidate_count cs \<le> candidate_count (in_candidates inner) + 1" "\<forall>n. cnt = Some n \<longrightarrow> map_of cs key = Some (n, t)"
      using bump_counts [OF b] by (simp_all add: cs)
    have "share config * of_nat (candidate_count cs) \<le> share config * of_nat (candidate_count (in_candidates inner) + 1)"
      using bc(1) by (intro mult_left_mono share_nonneg of_nat_mono)
    then have sh: "share config * of_nat (candidate_count cs)
        \<le> share config * of_nat (candidate_count (in_candidates inner)) + share config"
      by (simp add: distrib_left)
    show ?thesis
      using promote_pays [OF m t pos new _ _ p [unfolded cs]] bc(2) sh d old i
      by (cases cnt) (auto simp: cs)
  qed
qed

lemma global_pays:
  assumes m: "metered ops I config now inner" and t: "now \<le> t" and pos: "0 < rl_promotion_threshold config"
    and new: "key \<notin> fst ` set (lru_iter ops (in_tracked inner))"
    and r: "check_global ops config t key inner st = (d, inner', st')"
  shows "metered ops I config t inner' \<and>
    (if d = Pass then 1 else 0) + inner_worth ops config t inner'
      \<le> inner_worth ops config now inner + inflow config * of_nat (t - now) + rounding config"
proof -
  note f = metered_facts [OF m] and rest = global_rest [OF m t pos new r]
  let ?es = "lru_iter ops (in_tracked inner)" and ?g = "snd (bucket_consume t (in_global inner))"
  let ?p = "if d = Pass then 1 else 0 :: rat"
  have inv: "limiter_inv ops I config inner" using m by (simp add: metered_def)
  have ci: "limiter_inv ops I config inner'" "in_global inner' = ?g"
    "d = Pass \<longleftrightarrow> fst (bucket_consume t (in_global inner)) = BucketPass"
    using check_global_inv [OF inv new r] by auto
  have clk: "in_clock inner' = SystemClock"
    using check_global_clock [OF r] m by (simp add: metered_def)
  have "(1 + share config) * (?p + bucket_worth t ?g) \<le> (1 + share config) *
      (bucket_worth now (in_global inner) + per_nano (rl_global_rate_per_sec config) * of_nat (t - now)
        + 3 * ulp * f64_of_u64 (rl_global_burst config))"
    using consume_worth [OF f(6) t] share_nonneg [of config] by (intro mult_left_mono) (simp_all add: ci(3))
  then have "?p + share config * ?p + (1 + share config) * bucket_worth t ?g
      \<le> (1 + share config) * bucket_worth now (in_global inner)
        + (1 + share config) * (per_nano (rl_global_rate_per_sec config) * of_nat (t - now)) + rounding config"
    using rounding_ge(2) [of config] by (simp only: distrib_left) (simp add: algebra_simps)
  moreover have "tracked_worth t ?es \<le> tracked_worth now ?es + of_nat (rl_tracked_sources_capacity config)
      * (per_nano (rl_per_source_rate_per_sec config) * of_nat (t - now))"
    using refill_tracked [OF f(5) t, of 0] f(2) by simp
  ultimately have "?p + inner_worth ops config t inner'
      \<le> inner_worth ops config now inner + inflow config * of_nat (t - now) + rounding config"
    using conjunct1 [OF rest] unfolding inflow_time inner_worth_def ci(2) by linarith
  moreover have "metered ops I config t inner'"
    using ci(1) clk conjunct2 [OF rest] meters_consume [OF f(6) t] by (simp add: metered_def ci(2))
  ultimately show ?thesis by blast
qed

text \<open>One check, whatever tier decides it.\<close>

lemma check_pays:
  assumes inner: "lim_inner rl = Some inner" and m: "metered ops I (lim_config rl) now inner" and t: "now \<le> t"
    and pos: "0 < rl_promotion_threshold (lim_config rl)" and r: "check ops sys_reset t ip rl = (d, rl')"
  shows "lim_config rl' = lim_config rl \<and> (\<exists>inner'. lim_inner rl' = Some inner' \<and> metered ops I (lim_config rl) t inner' \<and>
    (if d = Pass then 1 else 0) + inner_worth ops (lim_config rl) t inner'
      \<le> inner_worth ops (lim_config rl) now inner + inflow (lim_config rl) * of_nat (t - now) + rounding (lim_config rl))"
proof -
  note f = metered_facts [OF m]
  have lock: "lock_recovering ops (lim_config rl) sys_reset inner = inner" and clk: "in_clock inner = SystemClock"
    using m by (simp_all add: lock_recovering_def metered_def limiter_inv_def)
  let ?key = "key_from_ip ip (rl_ipv6_prefix_len (lim_config rl))"
  show ?thesis
  proof (cases "lru_get_mut ops (in_tracked inner) ?key")
    case None
    then have new: "?key \<notin> fst ` set (lru_iter ops (in_tracked inner))"
      using get_mut_None [OF f(1)] by simp
    obtain inner' st where g: "check_global ops (lim_config rl) t ?key inner (lim_stats rl) = (d, inner', st)"
      "rl' = rl\<lparr>lim_inner := Some inner', lim_stats := st\<rparr>"
      using r None by (auto simp: check_def inner lock clk clock_now_def split: prod.splits)
    then show ?thesis
      using global_pays [OF m t pos new g(1)] by simp
  next
    case (Some bw)
    obtain b w where bw: "lru_get_mut ops (in_tracked inner) ?key = Some (b, w)"
      using Some by (cases bw) auto
    obtain inner' st where g: "check_tracked t b w inner (lim_stats rl) = (d, inner', st)"
      "rl' = rl\<lparr>lim_inner := Some inner', lim_stats := st\<rparr>"
      using r bw by (auto simp: check_def inner lock clk clock_now_def split: prod.splits)
    then show ?thesis
      using tracked_pays [OF m t bw g(1)] by simp
  qed
qed

end

text \<open>A limiter with a promotion threshold, up to a point in time, is an instance.\<close>

locale metered_limiter = key_tracker ops I
  for ops :: "(source_key, token_bucket, 'c) lru_ops" and I :: "'c \<Rightarrow> bool" +
  fixes config :: rate_limit_section and finish :: instant
  assumes promotes: "0 < rl_promotion_threshold config"

sublocale metered_limiter \<subseteq> flow: amortised "flow_exec ops" "flow_cost ops" "flow_enabled finish"
    "flow_keeps ops I config finish" "flow_potential ops config finish" "rounding config"
proof
  fix s :: "instant \<times> 'c rate_limiter" and x :: "instant \<times> ip_addr"
  obtain now rl where s: "s = (now, rl)" by (cases s)
  obtain t ip where x: "x = (t, ip)" by (cases x)
  obtain d rl' where r: "check ops t t ip rl = (d, rl')" by (cases "check ops t t ip rl")
  assume keeps: "flow_keeps ops I config finish s"
  then obtain inner where inner: "lim_inner rl = Some inner" and m: "metered ops I config now inner"
    and c: "lim_config rl = config" and now: "now \<le> finish"
    by (auto simp: flow_keeps_def s split: option.splits)
  show "0 \<le> flow_potential ops config finish s"
    using worth_nonneg [OF m] inflow_nonneg [of config] by (simp add: flow_potential_def s inner add_nonneg_nonneg)
  assume "flow_enabled finish x s"
  then have t: "now \<le> t" "t \<le> finish" by (simp_all add: flow_enabled_def s x)
  obtain inner' where i: "lim_inner rl' = Some inner'" "metered ops I config t inner'" "lim_config rl' = config"
    "(if d = Pass then 1 else 0) + inner_worth ops config t inner'
      \<le> inner_worth ops config now inner + inflow config * of_nat (t - now) + rounding config"
    using check_pays [OF inner _ t(1) _ r] m promotes unfolding c by blast
  show "flow_keeps ops I config finish (flow_exec ops x s)"
    using i t by (simp add: flow_keeps_def flow_exec_def s x r)
  have "inflow config * of_nat (finish - now) = inflow config * of_nat (t - now) + inflow config * of_nat (finish - t)"
    using t by (simp flip: distrib_left of_nat_add)
  then show "of_nat (flow_cost ops x s) + flow_potential ops config finish (flow_exec ops x s)
      \<le> flow_potential ops config finish s + rounding config"
    using i(4) by (simp add: flow_cost_def flow_potential_def flow_exec_def s x r i(1) inner add.assoc split: if_splits)
qed

interpretation list_meter: metered_limiter list_lru list_cache_inv default_rate_limit_section finish for finish
  by unfold_locales (simp add: default_rate_limit_section_def default_promotion_threshold_def)

text \<open>Histories of checks in these terms.\<close>

lemma run_checks_cost:
  "count_list (fst (run_checks ops es rl)) Pass = history_cost (flow_cost ops) (flow_exec ops) es (now, rl)"
proof (induction es arbitrary: rl now)
  case (Cons e es)
  obtain t ip where e: "e = (t, ip)" by (cases e)
  show ?case
    using Cons.IH [of "snd (check ops t t ip rl)" t]
    by (simp add: e flow_cost_def flow_exec_def case_prod_beta Let_def)
qed simp

lemma history_enabled_sorted:
  "sorted (now # map fst es) \<Longrightarrow> list_all (\<lambda>e. fst e \<le> finish) es \<Longrightarrow>
     history_enabled (flow_enabled finish) (flow_exec ops) es (now, rl)"
  by (induction es arbitrary: now rl) (auto simp: flow_enabled_def flow_exec_def case_prod_beta)

text \<open>A fresh limiter is metered; its worth is the global burst and its share of promotions.\<close>

lemma fresh_limiter:
  assumes "key_tracker ops I" and "rl_enabled config" and "from_config ops config start = Some rl" and "start \<le> finish"
  shows "flow_keeps ops I config finish (start, rl) \<and>
    flow_potential ops config finish (start, rl) =
      (1 + share config) * f64_of_u64 (rl_global_burst config) + inflow config * of_nat (finish - start)"
proof -
  have l: "lru_cache ops I" using assms(1) by (simp add: key_tracker_def)
  have ok: "limiter_ok ops I rl" "lim_config rl = config"
    using key_tracker.with_clock_ok [OF assms(1)] assms(3) unfolding from_config_def by auto
  obtain inner where inner: "lim_inner rl = Some inner" "in_clock inner = SystemClock"
    "in_global inner = bucket_new (rl_global_rate_per_sec config) (rl_global_burst config) start"
    "\<not> in_poisoned inner" "in_candidates inner = []" "lru_iter ops (in_tracked inner) = []"
    using assms(2,3) lru_cache.new_iter [OF l]
    by (auto simp: from_config_def with_clock_def clock_now_def Let_def split: if_splits)
  have "metered ops I config start inner"
    using ok inner by (simp add: metered_def limiter_ok_def meters_new)
  then show ?thesis
    using ok(2) assms(4) inner by (simp add: flow_keeps_def flow_potential_def inner_worth_def bucket_worth_new)
qed

context metered_limiter
begin

lemma history_bounded:
  assumes "flow_keeps ops I config finish (now, rl)" and "sorted (now # map fst es)"
    and "list_all (\<lambda>e. fst e \<le> finish) es"
  shows "of_nat (count_list (fst (run_checks ops es rl)) Pass)
    \<le> flow_potential ops config finish (now, rl) + rounding config * of_nat (length es)"
  using flow.history_pays [OF assms(1) history_enabled_sorted [OF assms(2,3)]] by (simp add: run_checks_cost [of ops es rl now])

end

lemma checks_bounded:
  assumes "key_tracker ops I" and "rl_enabled config" and "0 < rl_promotion_threshold config"
    and "from_config ops config start = Some rl"
    and "sorted (start # map fst es)" and "list_all (\<lambda>e. fst e \<le> finish) es" and "start \<le> finish"
  shows "of_nat (count_list (fst (run_checks ops es rl)) Pass) \<le> throughput config (finish - start) (length es)"
proof -
  have "metered_limiter ops I config"
    using assms(1,3) by (simp add: metered_limiter_def metered_limiter_axioms_def)
  then show ?thesis
    using metered_limiter.history_bounded [OF _ _ assms(5,6), of ops I config rl] fresh_limiter [OF assms(1,2,4,7)]
    by (simp add: throughput_def)
qed

subsection \<open>The loops\<close>

text \<open>The clock reading of a recovery does not matter while the lock is not poisoned.\<close>

definition unpoisoned :: "'c rate_limiter \<Rightarrow> bool" where
  "unpoisoned rl = (case lim_inner rl of None \<Rightarrow> True | Some inner \<Rightarrow> \<not> in_poisoned inner)"

lemma check_any_reset: "unpoisoned rl \<Longrightarrow> check ops sys_reset t ip rl = check ops t t ip rl"
  by (auto simp: unpoisoned_def check_def lock_recovering_def split: option.splits)

lemma from_config_unpoisoned: "from_config ops config start = Some rl \<Longrightarrow> unpoisoned rl"
  by (auto simp: unpoisoned_def from_config_def with_clock_def Let_def split: if_splits)

lemma check_unpoisoned:
  assumes "key_tracker ops I" and "limiter_ok ops I rl" and "check ops r t ip rl = (d, rl')"
  shows "limiter_ok ops I rl' \<and> unpoisoned rl'"
  using key_tracker.check_ok [OF assms] by (auto simp: unpoisoned_def limiter_inv_def split: option.splits)

text \<open>The checks that a loop makes, in the order of its iterations.\<close>

definition checked :: "instant list \<Rightarrow> (instant \<times> ip_addr) list \<Rightarrow> bool" where
  "checked ts es \<longleftrightarrow>
     length es \<le> length ts \<and> set (map fst es) \<subseteq> set ts \<and> (\<forall>now. sorted (now # ts) \<longrightarrow> sorted (now # map fst es))"

lemma checked_Nil: "checked ts []"
  by (simp add: checked_def)

lemma checked_skip: "checked ts es \<Longrightarrow> checked (t # ts) es"
  by (fastforce simp: checked_def)

lemma checked_Cons: "checked ts es \<Longrightarrow> checked (t # ts) ((t, ip) # es)"
  by (auto simp: checked_def)

lemma run_receive_checks:
  assumes "run_receive D B ops i config s = Some s'"
  obtains (idle) "rs_limiter s' = rs_limiter s" "rs_log s' = rs_log s"
  | (packet) d ip where "check ops (ri_sys_reset i) (ri_sys i) ip (rs_limiter s) = (d, rs_limiter s')"
      "length (rs_log s') = length (rs_log s) + (if d = Pass then 1 else 0)"
proof -
  obtain r b where c: "cap_recv_timeout B LOOP_TICK (rs_capture s) = (r, b)" by fastforce
  show ?thesis
  proof (cases "\<exists>pkt. r = Ok (Some pkt)")
    case True
    then obtain pkt where r: "r = Ok (Some pkt)" ..
    obtain dec rl where k: "check ops (ri_sys_reset i) (ri_sys i) (cp_source_ip pkt) (rs_limiter s) = (dec, rl)"
      by fastforce
    have "rs_limiter s' = rl" "length (rs_log s') = length (rs_log s) + (if dec = Pass then 1 else 0)"
      using assms by (auto simp: run_receive_def c r k Let_def split: decision.splits)
    then show ?thesis using packet k by simp
  next
    case False
    then have "rs_limiter s' = rs_limiter s" "rs_log s' = rs_log s"
      using assms by (auto simp: run_receive_def c Let_def split: sum.splits option.splits)
    then show ?thesis by (rule idle)
  qed
qed

lemma run_loop_checks:
  assumes "key_tracker ops I"
  shows "limiter_ok ops I (rs_limiter s) \<Longrightarrow> unpoisoned (rs_limiter s) \<Longrightarrow> run_loop D B ops is config s = Returned s' \<Longrightarrow>
    \<exists>es. checked (map ri_sys is) es \<and>
      length (rs_log s') = length (rs_log s) + count_list (fst (run_checks ops es (rs_limiter s))) Pass"
proof (induction "is" arbitrary: s)
  case (Cons i "is")
  define s0 where "s0 = (if ri_signal i then s\<lparr>rs_shutdown := trigger (rs_shutdown s)\<rparr> else s)"
  have s0: "rs_limiter s0 = rs_limiter s" "rs_log s0 = rs_log s" by (simp_all add: s0_def)
  show ?case
  proof (cases "is_shutdown (rs_shutdown s0)")
    case True
    then have "s' = s0" using Cons.prems(3) by (simp add: s0_def [symmetric])
    then show ?thesis using checked_Nil s0 by (intro exI [of _ "[]"]) simp
  next
    case False
    then obtain s1 where s1: "run_receive D B ops i config s0 = Some s1"
      "run_loop D B ops is config (run_tick D i config s1) = Returned s'"
      using Cons.prems(3) by (auto simp: s0_def [symmetric] split: option.splits)
    have tick: "rs_limiter (run_tick D i config s1) = rs_limiter s1" "rs_log (run_tick D i config s1) = rs_log s1"
      by (simp_all add: run_tick_def Let_def)
    show ?thesis
      using s1(1)
    proof (cases rule: run_receive_checks)
      case idle
      then show ?thesis
        using Cons.IH [OF _ _ s1(2)] Cons.prems(1,2) s0 tick checked_skip by fastforce
    next
      case (packet d ip)
      have ok: "limiter_ok ops I (rs_limiter s1)" "unpoisoned (rs_limiter s1)"
        using check_unpoisoned [OF assms _ packet(1)] Cons.prems(1) s0 by auto
      obtain es where es: "checked (map ri_sys is) es"
        "length (rs_log s') = length (rs_log s1) + count_list (fst (run_checks ops es (rs_limiter s1))) Pass"
        using Cons.IH [OF _ _ s1(2)] ok tick by auto
      have "check ops (ri_sys i) (ri_sys i) ip (rs_limiter s) = (d, rs_limiter s1)"
        using packet(1) check_any_reset [OF Cons.prems(2)] s0 by metis
      then show ?thesis
        using checked_Cons [OF es(1)] es(2) packet(2) s0
        by (intro exI [of _ "(ri_sys i, ip) # es"]) (auto simp: case_prod_beta Let_def)
    qed
  qed
qed simp

lemma checked_bounded:
  assumes "key_tracker ops I" and "rl_enabled config" and "0 < rl_promotion_threshold config"
    and "from_config ops config start = Some rl" and "checked ts es"
    and "sorted (start # ts)" and "list_all (\<lambda>t. t \<le> finish) ts" and "start \<le> finish"
  shows "of_nat (count_list (fst (run_checks ops es rl)) Pass) \<le> throughput config (finish - start) (length ts)"
proof -
  have "0 \<le> rounding config"
    using rounding_ge(1) [of config] ulp_pos f64_of_u64_nonneg [of "rl_per_source_burst config"]
    by (meson mult_nonneg_nonneg order.trans less_imp_le zero_le_numeral)
  then have "rounding config * of_nat (length es) \<le> rounding config * of_nat (length ts)"
    using assms(5) by (intro mult_left_mono of_nat_mono) (simp_all add: checked_def)
  moreover have "list_all (\<lambda>e. fst e \<le> finish) es"
    using assms(5,7) by (force simp: checked_def list_all_iff)
  moreover have "sorted (start # map fst es)"
    using assms(5,6) unfolding checked_def by blast
  ultimately show ?thesis
    using checks_bounded [OF assms(1-4) _ _ assms(8), of es] by (simp add: throughput_def)
qed

lemma capture_iteration_checks:
  assumes "capture_iteration ops M i w = (r, w')"
  obtains (idle) "w' = w"
  | (packet) d ip where "check ops (ci_sys_reset i) (ci_sys i) ip (cw_limiter w) = (d, cw_limiter w')"
      "length (cw_to_crypto w') \<le> length (cw_to_crypto w) + (if d = Pass then 1 else 0)"
proof (cases "\<not> ci_shutdown i \<and> (\<exists>pd. ci_recv i = Ok pd)")
  case True
  then obtain ip datagram where rc: "ci_recv i = Ok (ip, datagram)" and up: "\<not> ci_shutdown i" by auto
  obtain d rl where k: "check ops (ci_sys_reset i) (ci_sys i) ip (cw_limiter w) = (d, rl)" by fastforce
  have "cw_limiter w' = rl" "length (cw_to_crypto w') \<le> length (cw_to_crypto w) + (if d = Pass then 1 else 0)"
    using assms by (auto simp: capture_iteration_def rc up k send_msg_def map_err_def Let_def
        split: decision.splits sum.splits option.splits if_splits)
  then show ?thesis using packet k by simp
next
  case False
  then have "w' = w" using assms by (auto simp: capture_iteration_def split: if_splits sum.splits)
  then show ?thesis by (rule idle)
qed

lemma capture_loop_checks:
  assumes "key_tracker ops I"
  shows "limiter_ok ops I (cw_limiter w) \<Longrightarrow> unpoisoned (cw_limiter w) \<Longrightarrow> capture_loop ops M is w = (r, w') \<Longrightarrow>
    \<exists>es. checked (map ci_sys is) es \<and>
      length (cw_to_crypto w') \<le> length (cw_to_crypto w) + count_list (fst (run_checks ops es (cw_limiter w))) Pass"
proof (induction "is" arbitrary: w)
  case Nil
  then show ?case using checked_Nil by (intro exI [of _ "[]"]) simp
next
  case (Cons i "is")
  obtain ret w1 where it: "capture_iteration ops M i w = (ret, w1)" by (cases "capture_iteration ops M i w")
  have ih: "\<exists>es. checked (map ci_sys is) es \<and>
      length (cw_to_crypto w') \<le> length (cw_to_crypto w1) + count_list (fst (run_checks ops es (cw_limiter w1))) Pass"
    if "limiter_ok ops I (cw_limiter w1)" "unpoisoned (cw_limiter w1)"
  proof (cases ret)
    case None
    then show ?thesis using Cons.IH [OF that] Cons.prems(3) it by simp
  next
    case (Some q)
    then show ?thesis using Cons.prems(3) it checked_Nil by (intro exI [of _ "[]"]) simp
  qed
  show ?case
    using it
  proof (cases rule: capture_iteration_checks)
    case idle
    then show ?thesis using ih Cons.prems(1,2) checked_skip by fastforce
  next
    case (packet d ip)
    obtain es where "checked (map ci_sys is) es"
      "length (cw_to_crypto w') \<le> length (cw_to_crypto w1) + count_list (fst (run_checks ops es (cw_limiter w1))) Pass"
      using ih check_unpoisoned [OF assms Cons.prems(1) packet(1)] by blast
    moreover have "check ops (ci_sys i) (ci_sys i) ip (cw_limiter w) = (d, cw_limiter w1)"
      using packet(1) check_any_reset [OF Cons.prems(2)] by metis
    ultimately show ?thesis
      using checked_Cons [of "map ci_sys is" es "ci_sys i" ip] packet(2)
      by (intro exI [of _ "(ci_sys i, ip) # es"]) (auto simp: case_prod_beta Let_def)
  qed
qed

section \<open>Properties\<close>

text \<open>
  C12. A flood causes bounded work in the single-process daemon. Started with a fresh limiter and
  a configuration that passes validation, and with readings of the monotonic clock from \<open>start\<close>
  to \<open>finish\<close>, the loop has handled no more packets when it is stopped than \<open>throughput\<close>
  allows: the global burst and the global rate times the elapsed time, times one plus the
  ratio of the per-source burst to the promotion threshold, plus the per-source rate for as
  many sources as are tracked, plus the rounding of binary64; for packets from any number of
  source addresses, in any order, with sources being promoted and evicted.
\<close>

theorem run_loop_work_bounded:
  assumes "key_tracker ops I" and "validate_daemon config = Ok ()" and "rl_enabled (dc_rate_limit config)"
    and "from_config ops (dc_rate_limit config) start = Some (rs_limiter s)"
    and "sorted (start # map ri_sys is)" and "list_all (\<lambda>t. t \<le> finish) (map ri_sys is)" and "start \<le> finish"
    and "run_loop D B ops is config s = Returned s'"
  shows "of_nat (length (rs_log s')) \<le>
    of_nat (length (rs_log s)) + throughput (dc_rate_limit config) (finish - start) (length is)"
proof -
  have pos: "0 < rl_promotion_threshold (dc_rate_limit config)"
    using assms(2,3) by (simp add: validate_daemon_Ok valid_daemon_def valid_rate_limit_def)
  have "limiter_ok ops I (rs_limiter s)" "unpoisoned (rs_limiter s)"
    using key_tracker.with_clock_ok [OF assms(1)] assms(4) from_config_unpoisoned [OF assms(4)] by (auto simp: from_config_def)
  from run_loop_checks [OF assms(1) this assms(8)] obtain es where es: "checked (map ri_sys is) es"
    "length (rs_log s') = length (rs_log s) + count_list (fst (run_checks ops es (rs_limiter s))) Pass"
    by blast
  then show ?thesis
    using checked_bounded [OF assms(1,3) pos assms(4) es(1) assms(5-7)] by simp
qed

theorem run_loop_work_bounded_witness:
  "\<exists>s s'. from_config list_lru (dc_rate_limit demo_config) 0 = Some (rs_limiter s) \<and> rs_capture s = [demo_packet] \<and>
     run_loop demo_deps scripted_capture list_lru [demo_input False, demo_input True] demo_config s = Returned s' \<and>
     of_nat (length (rs_log s')) \<le> of_nat (length (rs_log s)) + throughput (dc_rate_limit demo_config) (0 - 0) (length [demo_input False, demo_input True])"
proof -
  have v: "validate_daemon demo_config = Ok ()"
    using valid_demo_config(1) by (simp add: validate_daemon_Ok)
  have e: "rl_enabled (dc_rate_limit demo_config)" "rl_tracked_sources_capacity (dc_rate_limit demo_config) \<noteq> 0"
    by (simp_all add: demo_config_def sample_config_def default_rate_limit_section_def default_tracked_sources_capacity_def)
  obtain rl where rl: "from_config (list_lru :: (source_key, token_bucket) list_cache key_lru) (dc_rate_limit demo_config) 0 = Some rl"
    using e by (simp add: from_config_def with_clock_def Let_def)
  define s where "s = demo_run\<lparr>rs_limiter := rl\<rparr>"
  have s: "from_config list_lru (dc_rate_limit demo_config) 0 = Some (rs_limiter s)" "rs_capture s = [demo_packet]"
    using rl by (simp_all add: s_def demo_run_def run_of_def)
  obtain s' where r: "run_loop demo_deps scripted_capture list_lru [demo_input False, demo_input True] demo_config s = Returned s'"
    using run_loop_returns [of demo_deps scripted_capture list_lru "[demo_input False, demo_input True]" demo_config s]
    by (auto simp: demo_input_def)
  show ?thesis
    using s r run_loop_work_bounded [OF list_keys.key_tracker_axioms v e(1) s(1) _ _ _ r, of 0]
    by (auto simp: demo_input_def)
qed

text \<open>
  C13. The capture worker shields the crypto worker in the same way: whatever datagrams arrive, it
  has forwarded no more of them than \<open>throughput\<close> allows.
\<close>

theorem capture_worker_forwards_bounded:
  assumes "key_tracker ops I" and "validate_daemon config = Ok ()" and "rl_enabled (dc_rate_limit config)"
    and "from_config ops (dc_rate_limit config) start = Some (cw_limiter w)"
    and "sorted (start # map ci_sys is)" and "list_all (\<lambda>t. t \<le> finish) (map ci_sys is)" and "start \<le> finish"
    and "run_capture_worker ops M set_timeout is w = (r, w')"
  shows "of_nat (length (cw_to_crypto w')) \<le>
    of_nat (length (cw_to_crypto w)) + throughput (dc_rate_limit config) (finish - start) (length is)"
proof -
  have pos: "0 < rl_promotion_threshold (dc_rate_limit config)"
    using assms(2,3) by (simp add: validate_daemon_Ok valid_daemon_def valid_rate_limit_def)
  have ok: "limiter_ok ops I (cw_limiter w)" "unpoisoned (cw_limiter w)"
    using key_tracker.with_clock_ok [OF assms(1)] assms(4) from_config_unpoisoned [OF assms(4)] by (auto simp: from_config_def)
  have "\<exists>es. checked (map ci_sys is) es \<and>
      length (cw_to_crypto w') \<le> length (cw_to_crypto w) + count_list (fst (run_checks ops es (cw_limiter w))) Pass"
  proof (cases set_timeout)
    case None
    then show ?thesis using capture_loop_checks [OF assms(1) ok] assms(8) by (simp add: run_capture_worker_def)
  next
    case (Some e)
    then show ?thesis using assms(8) checked_Nil by (intro exI [of _ "[]"]) (simp add: run_capture_worker_def)
  qed
  then obtain es where es: "checked (map ci_sys is) es"
    "length (cw_to_crypto w') \<le> length (cw_to_crypto w) + count_list (fst (run_checks ops es (cw_limiter w))) Pass"
    by blast
  then have "of_nat (length (cw_to_crypto w')) \<le>
      (of_nat (length (cw_to_crypto w) + count_list (fst (run_checks ops es (cw_limiter w))) Pass) :: rat)"
    by (intro of_nat_mono)
  then show ?thesis
    using checked_bounded [OF assms(1,3) pos assms(4) es(1) assms(5-7)] by simp
qed

theorem capture_worker_forwards_bounded_witness:
  "\<exists>w w' r. from_config list_lru (dc_rate_limit demo_config) 0 = Some (cw_limiter w) \<and>
     run_capture_worker list_lru demo_packet_codec None [demo_capture_input, demo_capture_input] w = (r, w') \<and>
     of_nat (length (cw_to_crypto w')) \<le>
       of_nat (length (cw_to_crypto w)) + throughput (dc_rate_limit demo_config) (0 - 0) (length [demo_capture_input, demo_capture_input])"
proof -
  have v: "validate_daemon demo_config = Ok ()"
    using valid_demo_config(1) by (simp add: validate_daemon_Ok)
  have e: "rl_enabled (dc_rate_limit demo_config)" "rl_tracked_sources_capacity (dc_rate_limit demo_config) \<noteq> 0"
    by (simp_all add: demo_config_def sample_config_def default_rate_limit_section_def default_tracked_sources_capacity_def)
  obtain rl where rl: "from_config (list_lru :: (source_key, token_bucket) list_cache key_lru) (dc_rate_limit demo_config) 0 = Some rl"
    using e by (simp add: from_config_def with_clock_def Let_def)
  define w where "w = \<lparr>cw_limiter = rl, cw_to_crypto = []\<rparr>"
  have w: "from_config list_lru (dc_rate_limit demo_config) 0 = Some (cw_limiter w)"
    using rl by (simp add: w_def)
  obtain r w' where r: "run_capture_worker list_lru demo_packet_codec None [demo_capture_input, demo_capture_input] w = (r, w')"
    by fastforce
  show ?thesis
    using w r capture_worker_forwards_bounded [OF list_keys.key_tracker_axioms v e(1) w _ _ _ r, of 0]
    by (auto simp: demo_capture_input_def)
qed

end
