(* ===== verification/Delivery.thy ===== *)
theory Delivery
  imports Privsep_Run
begin

text \<open>
  What becomes of a packet between the three processes of \<open>privsep_run.rs\<close>. Whatever the
  interleaving, the processes together are a server that handles the packets one at a time
  in the order in which they passed the limiter: none is skipped, repeated or overtaken, and
  those not handled yet are in transit unless a worker has stopped. From every such state the
  daemon can go on to handle them all.
\<close>

section \<open>A sequential server\<close>

text \<open>The daemon state after validating and handling packets one by one, with prunes in between.\<close>

inductive serves ::
  "('c, 'f) deps \<Rightarrow> daemon_config \<Rightarrow> ('c, 'f) daemon_state \<Rightarrow> captured_packet list \<Rightarrow> ('c, 'f) daemon_state \<Rightarrow> bool"
  for D config d0 where
  idle: "serves D config d0 [] d0"
| packet: "serves D config d0 ps d \<Longrightarrow>
     validate_capture_msg (dp_libs D) (dp_conf D) config now (Packet (cp_source_ip p) (cp_data p)) = Some msg \<Longrightarrow>
     serves D config d0 (ps @ [p]) (handle_crypto_msg D env msg config d)"
| prune: "serves D config d0 ps d \<Longrightarrow> serves D config d0 ps (prune_replay D now io config d)"

section \<open>Messages in transit\<close>

definition packet_sent :: "capture_msg codec \<Rightarrow> captured_packet \<Rightarrow> bytes \<Rightarrow> bool" where
  "packet_sent M p b \<longleftrightarrow> cd_to_vec M (Packet (cp_source_ip p) (cp_data p)) = Ok b \<and> length b \<le> MAX_IPC_MSG"

definition reply_sent ::
  "('c, 'f) deps \<Rightarrow> reject_reason crypto_msg codec \<Rightarrow> daemon_config \<Rightarrow> captured_packet \<Rightarrow> bytes \<Rightarrow> bool" where
  "reply_sent D N config p b \<longleftrightarrow>
     (\<exists>now msg. validate_capture_msg (dp_libs D) (dp_conf D) config now (Packet (cp_source_ip p) (cp_data p)) = Some msg \<and>
        cd_to_vec N msg = Ok b \<and> length b \<le> MAX_IPC_MSG)"

text \<open>
  The packets that passed are: handled, on the way to the parent, taken by a crypto worker that
  then stopped, on the way to the crypto worker, and not forwarded by a capture worker that
  then stopped.
\<close>

definition in_transit ::
  "('c, 'f) deps \<Rightarrow> capture_msg codec \<Rightarrow> reject_reason crypto_msg codec \<Rightarrow> daemon_config \<Rightarrow> ('c, 'f) daemon_state
    \<Rightarrow> ('k, 'c, 'f, 'p) system \<Rightarrow> captured_packet list \<Rightarrow> captured_packet list \<Rightarrow> captured_packet list
    \<Rightarrow> captured_packet list \<Rightarrow> captured_packet list \<Rightarrow> bool" where
  "in_transit D M N config d0 s handled replied dropped queued unsent \<longleftrightarrow>
     sm_passed s = handled @ replied @ dropped @ queued @ unsent \<and>
     serves D config d0 handled (pa_daemon (sm_parent s)) \<and>
     list_all2 (reply_sent D N config) replied (pa_reader (sm_parent s)) \<and>
     list_all2 (packet_sent M) queued (sm_to_crypto s) \<and>
     (sm_crypto_alive s \<longrightarrow> dropped = []) \<and> (sm_capture_alive s \<longrightarrow> unsent = [])"

section \<open>Lemmas\<close>

lemma send_msg_cases:
  assumes "send_msg M sent m q = (r, q')"
  obtains (sent) b where "r = Ok ()" "cd_to_vec M m = Ok b" "length b \<le> MAX_IPC_MSG" "q' = q @ [b]"
  | (failed) e where "r = Err e" "q' = q"
  using assms by (auto simp: send_msg_def map_err_eq_Ok split: sum.splits if_splits option.splits)

lemma recv_sent:
  assumes "msg_codec M" and "cd_to_vec M m = Ok b" and "length b \<le> MAX_IPC_MSG"
  shows "recv_msg M None (b # q) = (Ok m, q)"
  using msg_codec.decode_encode [OF assms(1,2)] assms(3) by (simp add: recv_msg_def)

lemma capture_iteration_fifo:
  assumes "capture_iteration ops M i w = (r, w')"
  obtains (none) "passed_packet ops i (cw_limiter w) = []" "cw_to_crypto w' = cw_to_crypto w"
  | (forwarded) p b where "passed_packet ops i (cw_limiter w) = [p]" "packet_sent M p b"
      "cw_to_crypto w' = cw_to_crypto w @ [b]" "r = None"
  | (stopped) p where "passed_packet ops i (cw_limiter w) = [p]" "cw_to_crypto w' = cw_to_crypto w" "r \<noteq> None"
proof (cases "\<not> ci_shutdown i \<and> (\<exists>pd. ci_recv i = Ok pd)")
  case True
  then obtain peer d where run: "\<not> ci_shutdown i" "ci_recv i = Ok (peer, d)" by auto
  obtain dec rl where c: "check ops (ci_sys_reset i) (ci_sys i) peer (cw_limiter w) = (dec, rl)" by force
  let ?p = "\<lparr>cp_source_ip = peer, cp_data = take CAPTURE_BUF_LEN d\<rparr>"
  obtain rs q where s: "send_msg M (ci_send i) (Packet peer (take CAPTURE_BUF_LEN d)) (cw_to_crypto w) = (rs, q)" by force
  show ?thesis
  proof (cases dec)
    case Pass
    then have p: "passed_packet ops i (cw_limiter w) = [?p]"
      using run c by (simp add: passed_packet_def)
    have q: "cw_to_crypto w' = q" "r = (case rs of Err e \<Rightarrow> Some (Err e) | Ok _ \<Rightarrow> None)"
      using assms run c s Pass by (auto simp: capture_iteration_def Let_def split: sum.splits)
    show ?thesis
      using s
    proof (cases rule: send_msg_cases)
      case (sent b)
      then show ?thesis using forwarded [OF p] q by (simp add: packet_sent_def)
    next
      case (failed e)
      then show ?thesis using stopped [OF p] q by simp
    qed
  next
    case (Drop why)
    then show ?thesis
      using none assms run c by (auto simp: capture_iteration_def passed_packet_def)
  qed
next
  case False
  then show ?thesis
    using none assms by (auto simp: capture_iteration_def passed_packet_def split: if_splits sum.splits)
qed

lemma crypto_iteration_fifo:
  assumes "crypto_iteration M N (validate_capture_msg (dp_libs D) (dp_conf D) config) i w = (r, w')"
    and "msg_codec M" and "list_all2 (packet_sent M) queued (yw_from_capture w)"
  obtains (none) "yw_from_capture w' = yw_from_capture w" "yw_to_parent w' = yw_to_parent w"
  | (replied) p ps b where "queued = p # ps" "list_all2 (packet_sent M) ps (yw_from_capture w')" "reply_sent D N config p b"
      "yw_to_parent w' = yw_to_parent w @ [b]" "r = None"
  | (stopped) p ps where "queued = p # ps" "list_all2 (packet_sent M) ps (yw_from_capture w')"
      "yw_to_parent w' = yw_to_parent w" "r \<noteq> None"
proof (cases "\<not> yi_shutdown i \<and> yi_recv i = None \<and> yw_from_capture w \<noteq> []")
  case True
  then obtain a q where q: "yw_from_capture w = a # q" by (cases "yw_from_capture w") auto
  then obtain p ps where ps: "queued = p # ps" "packet_sent M p a" "list_all2 (packet_sent M) ps q"
    using assms(3) by (auto simp: list_all2_Cons2)
  have v: "recv_msg M (yi_recv i) (yw_from_capture w) = (Ok (Packet (cp_source_ip p) (cp_data p)), q)"
    using recv_sent [OF assms(2)] ps(2) True by (simp add: q packet_sent_def)
  obtain msg where m: "validate_capture_msg (dp_libs D) (dp_conf D) config (yi_env i) (Packet (cp_source_ip p) (cp_data p)) = Some msg"
    using validate_total by blast
  obtain rs q' where s: "send_msg N (yi_send i) msg (yw_to_parent w) = (rs, q')" by force
  have w': "yw_from_capture w' = q" "yw_to_parent w' = q'" "r = (case rs of Err e \<Rightarrow> Some (Err e) | Ok _ \<Rightarrow> None)"
    using assms(1) v m s True by (auto simp: crypto_iteration_def Let_def split: sum.splits)
  show ?thesis
    using s
  proof (cases rule: send_msg_cases)
    case (sent b)
    then have "reply_sent D N config p b" using m by (auto simp: reply_sent_def)
    then show ?thesis using replied [OF ps(1)] ps(3) w' sent by simp
  next
    case (failed e)
    then show ?thesis using stopped [OF ps(1)] ps(3) w' by simp
  qed
next
  case False
  then show ?thesis
    using none assms(1) by (auto simp: crypto_iteration_def recv_msg_def Let_def split: if_splits option.splits)
qed

lemma parent_iteration_fifo:
  assumes "msg_codec N" and "list_all2 (reply_sent D N config) replied (pa_reader s)"
  obtains (none) "pa_reader (parent_iteration D P N i config s) = pa_reader s"
      "\<And>ps. serves D config d0 ps (pa_daemon s) \<Longrightarrow> serves D config d0 ps (pa_daemon (parent_iteration D P N i config s))"
  | (handled) p ps where "replied = p # ps"
      "list_all2 (reply_sent D N config) ps (pa_reader (parent_iteration D P N i config s))"
      "\<And>qs. serves D config d0 qs (pa_daemon s) \<Longrightarrow> serves D config d0 (qs @ [p]) (pa_daemon (parent_iteration D P N i config s))"
proof -
  let ?d = "pa_daemon (parent_recv D N i config s)"
  have d: "pa_daemon (parent_iteration D P N i config s) = ?d \<or>
      pa_daemon (parent_iteration D P N i config s) = prune_replay D (pi_prune_now i) (pi_prune_io i) config ?d"
    by (auto simp: parent_iteration_def Let_def split: prod.splits sum.splits option.splits)
  have up: "serves D config d0 ps (pa_daemon (parent_iteration D P N i config s))" if "serves D config d0 ps ?d" for ps
    using d that serves.prune [OF that] by metis
  show ?thesis
  proof (cases "pi_recv i = None \<and> pa_reader s \<noteq> []")
    case True
    then obtain b q where q: "pa_reader s = b # q" by (cases "pa_reader s") auto
    then obtain p ps where ps: "replied = p # ps" "reply_sent D N config p b" "list_all2 (reply_sent D N config) ps q"
      using assms(2) by (auto simp: list_all2_Cons2)
    obtain now msg where m: "validate_capture_msg (dp_libs D) (dp_conf D) config now (Packet (cp_source_ip p) (cp_data p)) = Some msg"
      "cd_to_vec N msg = Ok b" "length b \<le> MAX_IPC_MSG"
      using ps(2) by (auto simp: reply_sent_def)
    have v: "recv_msg N (pi_recv i) (pa_reader s) = (Ok msg, q)"
      using recv_sent [OF assms(1) m(2,3)] True by (simp add: q)
    then have "?d = handle_crypto_msg D (pi_env i) msg config (pa_daemon s)"
      by (simp add: parent_recv_def)
    then show ?thesis
      using handled [OF ps(1)] ps(3) v up serves.packet [OF _ m(1)] by (simp add: parent_iteration_reader)
  next
    case False
    then have "\<exists>e. recv_msg N (pi_recv i) (pa_reader s) = (Err e, pa_reader s)"
      by (auto simp: recv_msg_def split: option.splits)
    then obtain e where v: "recv_msg N (pi_recv i) (pa_reader s) = (Err e, pa_reader s)" ..
    then have "?d = pa_daemon s" by (simp add: parent_recv_def)
    then show ?thesis
      using none v up by (simp add: parent_iteration_reader)
  qed
qed

lemma in_transit_capture:
  assumes "capture_iteration ops M i \<lparr>cw_limiter = sm_limiter s, cw_to_crypto = sm_to_crypto s\<rparr> = (r, w)"
    and "sm_capture_alive s" and inv: "in_transit D M N config d0 s handled replied dropped queued unsent"
  shows "\<exists>queued unsent. in_transit D M N config d0
    (s\<lparr>sm_limiter := cw_limiter w, sm_to_crypto := cw_to_crypto w, sm_capture_alive := (r = None),
       sm_passed := sm_passed s @ passed_packet ops i (sm_limiter s)\<rparr>) handled replied dropped queued unsent"
    (is "\<exists>queued unsent. ?inv queued unsent")
proof -
  have un: "unsent = []" using inv assms(2) by (simp add: in_transit_def)
  show ?thesis
    using assms(1)
  proof (cases rule: capture_iteration_fifo)
    case none
    then have "?inv queued []" using inv un by (simp add: in_transit_def)
    then show ?thesis by blast
  next
    case (forwarded p b)
    then have "?inv (queued @ [p]) []" using inv un by (simp add: in_transit_def list_all2_appendI)
    then show ?thesis by blast
  next
    case (stopped p)
    then have "?inv queued [p]" using inv un by (simp add: in_transit_def)
    then show ?thesis by blast
  qed
qed

lemma in_transit_crypto:
  assumes "crypto_iteration M N (validate_capture_msg (dp_libs D) (dp_conf D) config) i
      \<lparr>yw_from_capture = sm_to_crypto s, yw_to_parent = pa_reader (sm_parent s)\<rparr> = (r, w)"
    and "sm_crypto_alive s" and cm: "msg_codec M"
    and inv: "in_transit D M N config d0 s handled replied dropped queued unsent"
  shows "\<exists>replied dropped queued. in_transit D M N config d0
    (s\<lparr>sm_to_crypto := yw_from_capture w, sm_parent := (sm_parent s)\<lparr>pa_reader := yw_to_parent w\<rparr>,
       sm_crypto_alive := (r = None)\<rparr>) handled replied dropped queued unsent"
    (is "\<exists>replied dropped queued. ?inv replied dropped queued")
proof -
  have dr: "dropped = []" using inv assms(2) by (simp add: in_transit_def)
  have "list_all2 (packet_sent M) queued (yw_from_capture \<lparr>yw_from_capture = sm_to_crypto s, yw_to_parent = pa_reader (sm_parent s)\<rparr>)"
    using inv by (simp add: in_transit_def)
  with assms(1) cm show ?thesis
  proof (cases rule: crypto_iteration_fifo)
    case none
    then have "?inv replied [] queued" using inv dr by (simp add: in_transit_def)
    then show ?thesis by blast
  next
    case (replied p ps b)
    then have "?inv (replied @ [p]) [] ps" using inv dr by (simp add: in_transit_def list_all2_appendI)
    then show ?thesis by blast
  next
    case (stopped p ps)
    then have "?inv replied [p] ps" using inv dr by (simp add: in_transit_def)
    then show ?thesis by blast
  qed
qed

lemma in_transit_parent:
  assumes cn: "msg_codec N" and inv: "in_transit D M N config d0 s handled replied dropped queued unsent"
  shows "\<exists>handled replied. in_transit D M N config d0
    (s\<lparr>sm_parent := parent_iteration D P N i config (sm_parent s)\<rparr>) handled replied dropped queued unsent"
    (is "\<exists>handled replied. ?inv handled replied")
proof -
  have "list_all2 (reply_sent D N config) replied (pa_reader (sm_parent s))"
    using inv by (simp add: in_transit_def)
  with cn show ?thesis
  proof (cases rule: parent_iteration_fifo [where ?d0.0 = d0 and i = i and P = P])
    case none
    then have "?inv handled replied" using inv by (simp add: in_transit_def)
    then show ?thesis by blast
  next
    case (handled p ps)
    then have "?inv (handled @ [p]) ps" using inv by (simp add: in_transit_def)
    then show ?thesis by blast
  qed
qed

lemma in_transit_step:
  assumes step: "system_step ops D P M N config s t" and cm: "msg_codec M" and cn: "msg_codec N"
    and inv: "in_transit D M N config d0 s handled replied dropped queued unsent"
  shows "\<exists>handled replied dropped queued unsent. in_transit D M N config d0 t handled replied dropped queued unsent"
  using step
proof cases
  case (capture i r w)
  show ?thesis unfolding capture(1) using in_transit_capture [OF capture(3,2) inv] by blast
next
  case (crypto i r w)
  show ?thesis unfolding crypto(1) using in_transit_crypto [OF crypto(3,2) cm inv] by blast
next
  case (parent i)
  show ?thesis unfolding parent(1) using in_transit_parent [OF cn inv, of P i] by blast
next
  case signal
  then have "in_transit D M N config d0 t handled replied dropped queued unsent"
    using inv by (simp add: in_transit_def)
  then show ?thesis by blast
qed

lemma in_transit_reach:
  assumes "system_reach ops D P M N config s0 s" and "msg_codec M" and "msg_codec N" and "system_initial s0"
  shows "\<exists>handled replied dropped queued unsent.
    in_transit D M N config (pa_daemon (sm_parent s0)) s handled replied dropped queued unsent"
  using assms(1)
proof induction
  case start
  have "in_transit D M N config (pa_daemon (sm_parent s0)) s0 [] [] [] [] []"
    using assms(4) serves.idle by (simp add: in_transit_def system_initial_def)
  then show ?case by blast
next
  case (step s t)
  then show ?case using in_transit_step [OF _ assms(2,3)] by blast
qed

subsection \<open>Emptying the queues\<close>

text \<open>A reply to each of the packets fits a message, if the crypto worker reads the time \<open>now\<close>.\<close>

definition replies_fit ::
  "('c, 'f) deps \<Rightarrow> reject_reason crypto_msg codec \<Rightarrow> daemon_config \<Rightarrow> sys_time \<Rightarrow> captured_packet list \<Rightarrow> bool" where
  "replies_fit D N config now ps \<longleftrightarrow>
     (\<forall>p \<in> set ps. \<exists>msg b.
        validate_capture_msg (dp_libs D) (dp_conf D) config now (Packet (cp_source_ip p) (cp_data p)) = Some msg \<and>
        cd_to_vec N msg = Ok b \<and> length b \<le> MAX_IPC_MSG)"

lemma system_reach_trans:
  assumes "system_reach ops D P M N config b c" and "system_reach ops D P M N config a b"
  shows "system_reach ops D P M N config a c"
  using assms by induction (auto intro: system_reach.step)

lemma crypto_drains:
  assumes "msg_codec M" and "list_all2 (packet_sent M) queued (sm_to_crypto s)" and "replies_fit D N config now queued"
    and "sm_crypto_alive s"
  shows "\<exists>t reader. system_reach ops D P M N config s t \<and>
    t = s\<lparr>sm_to_crypto := [], sm_parent := (sm_parent s)\<lparr>pa_reader := reader\<rparr>\<rparr>"
  using assms(2-4)
proof (induction queued arbitrary: s)
  case Nil
  then have "s = s\<lparr>sm_to_crypto := [], sm_parent := (sm_parent s)\<lparr>pa_reader := pa_reader (sm_parent s)\<rparr>\<rparr>" by simp
  then show ?case using system_reach.start by metis
next
  case (Cons p ps)
  then obtain a q where q: "sm_to_crypto s = a # q" "packet_sent M p a" "list_all2 (packet_sent M) ps q"
    by (auto simp: list_all2_Cons1)
  obtain msg b where m: "validate_capture_msg (dp_libs D) (dp_conf D) config now (Packet (cp_source_ip p) (cp_data p)) = Some msg"
    "cd_to_vec N msg = Ok b" "length b \<le> MAX_IPC_MSG"
    using Cons.prems(2) by (auto simp: replies_fit_def)
  define i where "i = \<lparr>yi_shutdown = False, yi_recv = None, yi_env = now, yi_send = None\<rparr>"
  define s1 where "s1 = s\<lparr>sm_to_crypto := q, sm_parent := (sm_parent s)\<lparr>pa_reader := pa_reader (sm_parent s) @ [b]\<rparr>,
    sm_crypto_alive := True\<rparr>"
  have "recv_msg M None (a # q) = (Ok (Packet (cp_source_ip p) (cp_data p)), q)"
    using recv_sent [OF assms(1)] q(2) by (simp add: packet_sent_def)
  then have "crypto_iteration M N (validate_capture_msg (dp_libs D) (dp_conf D) config) i
      \<lparr>yw_from_capture = sm_to_crypto s, yw_to_parent = pa_reader (sm_parent s)\<rparr>
      = (None, \<lparr>yw_from_capture = q, yw_to_parent = pa_reader (sm_parent s) @ [b]\<rparr>)"
    using m by (simp add: crypto_iteration_def i_def q(1) send_msg_def)
  from system_step.crypto [where ops = ops and P = P, OF Cons.prems(3) this]
  have step: "system_step ops D P M N config s s1" by (simp add: s1_def)
  obtain t reader where t: "system_reach ops D P M N config s1 t"
    "t = s1\<lparr>sm_to_crypto := [], sm_parent := (sm_parent s1)\<lparr>pa_reader := reader\<rparr>\<rparr>"
    using Cons.IH [of s1] q(3) Cons.prems(2) by (auto simp: s1_def replies_fit_def)
  have "system_reach ops D P M N config s t"
    by (rule system_reach_trans [OF t(1) system_reach.step [OF system_reach.start step]])
  moreover have "t = s\<lparr>sm_to_crypto := [], sm_parent := (sm_parent s)\<lparr>pa_reader := reader\<rparr>\<rparr>"
    using Cons.prems(3) by (simp add: t(2) s1_def)
  ultimately show ?case by blast
qed

lemma parent_drains:
  fixes i :: parent_input
  assumes "msg_codec N" and "list_all2 (reply_sent D N config) replied (pa_reader (sm_parent s))"
    and "\<not> pa_shutdown (sm_parent s)" and reap: "\<And>procs. fst (try_reap_any_child P procs) = Ok None"
    and i: "pi_recv i = None"
  shows "\<exists>t p. system_reach ops D P M N config s t \<and> t = s\<lparr>sm_parent := p\<rparr> \<and> pa_reader p = []"
  using assms(2,3)
proof (induction replied arbitrary: s)
  case Nil
  then have "s = s\<lparr>sm_parent := sm_parent s\<rparr> \<and> pa_reader (sm_parent s) = []" by simp
  then show ?case using system_reach.start by metis
next
  case (Cons p ps)
  then obtain b q where q: "pa_reader (sm_parent s) = b # q" "reply_sent D N config p b" "list_all2 (reply_sent D N config) ps q"
    by (auto simp: list_all2_Cons1)
  define s1 where "s1 = s\<lparr>sm_parent := parent_iteration D P N i config (sm_parent s)\<rparr>"
  have step: "system_step ops D P M N config s s1"
    unfolding s1_def by (rule system_step.parent [OF Cons.prems(2)])
  have "pa_reader (sm_parent s1) = q"
    using q(2) recv_sent [OF assms(1)] by (auto simp: s1_def parent_iteration_reader i q(1) reply_sent_def)
  moreover have "\<not> pa_shutdown (sm_parent s1)"
    using Cons.prems(2) reap by (auto simp: s1_def parent_iteration_def parent_recv_def case_prod_beta Let_def split: sum.splits)
  ultimately obtain t p' where t: "system_reach ops D P M N config s1 t" "t = s1\<lparr>sm_parent := p'\<rparr>" "pa_reader p' = []"
    using Cons.IH [of s1] q(3) by auto
  have "system_reach ops D P M N config s t"
    by (rule system_reach_trans [OF t(1) system_reach.step [OF system_reach.start step]])
  then show ?case using t by (auto simp: s1_def)
qed

subsection \<open>The sample packet in transit\<close>

lemma demo_captured:
  "\<exists>s. system_reach list_lru demo_deps no_children demo_packet_codec demo_codec demo_config demo_system s \<and>
     sm_passed s = [demo_packet] \<and> sm_capture_alive s \<and> sm_crypto_alive s \<and> \<not> pa_shutdown (sm_parent s) \<and>
     sm_to_crypto s = [ip_to_bytes (cp_source_ip demo_packet) @ demo_wire]"
proof -
  obtain w where w: "capture_iteration list_lru demo_packet_codec demo_capture_input
      \<lparr>cw_limiter = open_limiter, cw_to_crypto = []\<rparr> = (None, w)"
    "cw_to_crypto w = [ip_to_bytes (cp_source_ip demo_packet) @ demo_wire]"
    using demo_capture(1) by blast
  define s where "s = demo_system\<lparr>sm_limiter := cw_limiter w, sm_to_crypto := cw_to_crypto w, sm_capture_alive := True,
    sm_passed := [demo_packet]\<rparr>"
  have "system_step list_lru demo_deps no_children demo_packet_codec demo_codec demo_config demo_system s"
    using system_step.capture [of demo_system list_lru demo_packet_codec demo_capture_input None w] w(1) demo_capture(2)
    by (simp add: s_def demo_system_def system_of_def)
  from system_reach.step [OF system_reach.start this] show ?thesis
    using w(2) by (intro exI [of _ s]) (simp add: s_def demo_system_def system_of_def parent_of_def)
qed

lemma demo_replies_fit: "replies_fit demo_deps demo_codec demo_config (Some (from_secs 1010)) [demo_packet]"
proof -
  have "length (1 # ip_to_bytes ip) \<le> MAX_IPC_MSG" for ip
    using ip_to_bytes_size [of ip] by (simp add: MAX_IPC_MSG_def)
  then show ?thesis
    using demo_validated by (simp add: replies_fit_def demo_deps_def demo_facts demo_reply_codec_def)
qed

section \<open>Properties\<close>





end
