(* ===== verification/Spec2Isabelle.thy ===== *)
theory Spec2Isabelle
  imports Proto Config Replay Ratelimit Nftables Capture Privsep Sandbox Pipeline Privsep_Run Freshness
    Daemon_Run Client Gate Expiry Recovery Addr_Text Flood Delivery
begin

text \<open>
  \<^bold>\<open>Verification of fwknox\<close>, a single-packet-authorisation system: a client sends one encrypted
  and authenticated UDP packet, and a daemon that accepts it opens the requested ports of its
  firewall for the sender for a limited time.

  \<^bold>\<open>Parts and how they interact.\<close> \<open>fwknox-client\<close> resolves a command line against a server entry
  of \<open>fwknox-config\<close> and builds a packet with \<open>fwknox-proto\<close>. The daemon (\<open>fwknox-daemon\<close>) loads its
  configuration, binds a socket (\<open>fwknox-capture\<close>), loads the nonces it has seen (\<open>fwknox-replay\<close>),
  restricts itself (\<open>fwknox-sandbox\<close>) and then runs in one of two modes. In single-process mode one
  loop receives a packet, asks the rate limiter (\<open>fwknox-ratelimit\<close>), and hands it to the
  pipeline: find the stanza whose key authenticates it, check clock, replay and policy, open the
  firewall (\<open>fwknox-firewall\<close>). In privilege-separated mode (\<open>fwknox-privsep\<close>) a capture worker
  receives and rate limits, a sandboxed crypto worker authenticates and validates, and the parent
  does the replay check and opens the firewall.

  \<^bold>\<open>Theories\<close>, with the code under \<open>src/crates\<close> that they model:
  \<^item> \<open>Prelude\<close>, \<open>Std_Text\<close>, \<open>Std_Net\<close>, \<open>Std_Ipv6\<close>: results, words, strings, number and address
    parsing and the \<open>Display\<close> of addresses of the standard library as the code uses it.
  \<^item> \<open>Proto_Types\<close>, \<open>Proto\<close> (\<open>fwknox-proto\<close>): header, key derivation, AEAD, HMAC, payload, packet and
    clock check. \<open>ring\<close> and \<open>rmp-serde\<close> are the record \<open>libs\<close>, with the laws of the locale
    \<open>proto_libs\<close>. Shown: round trip of packets, acceptance only of what was signed under the key,
    no panic on any bytes, no decryption before the HMAC check, the exact validity window.
  \<^item> \<open>Config_Shared\<close>, \<open>Config\<close> (\<open>fwknox-config\<close>): both configurations from their parsed TOML on,
    defaults, limits and validation. \<open>ipnet\<close>, \<open>base64\<close> and \<open>toml\<close> are parameters. Shown: validation
    accepts exactly the well-formed configurations, and only those are ever loaded.
  \<^item> \<open>Addr_Text\<close> (\<open>types.rs\<close> and \<open>kdf.rs\<close> of \<open>fwknox-proto\<close>, \<open>messages.rs\<close> of \<open>fwknox-privsep\<close>,
    \<open>shared.rs\<close> of \<open>fwknox-config\<close>): addresses as text on the wire. Shown: every address, with or
    without a port, is read back as it was written.
  \<^item> \<open>Lru\<close>, \<open>Persist\<close>, \<open>Replay\<close> (\<open>fwknox-replay\<close>): the nonce cache over any LRU map (the \<open>lru\<close> crate,
    locale \<open>lru_cache\<close>) and its file, with an I/O outcome for every step of a write. Shown:
    an accepted nonce stays rejected under any operations that keep it, survives a restart,
    and is rolled back when it cannot be persisted; the cache is bounded.
  \<^item> \<open>F64\<close>, \<open>Bucket\<close>, \<open>Source_Key\<close>, \<open>Ratelimit\<close> (\<open>fwknox-ratelimit\<close>): token buckets in binary64
    arithmetic with rounding, source keys with IPv6 prefixes, and the two-tier limiter. Shown:
    rate and memory bounds, promotion of counted sources, and that floods do not evict candidates.
  \<^item> \<open>Firewall\<close>, \<open>Nftables\<close> (\<open>fwknox-firewall\<close>): the backend interface with its contract
    (\<open>firewall_contract\<close>), the mock backend, and the nftables backend over an abstract kernel
    (locale \<open>nft_kernel\<close>). Both backends are interpretations of the contract.
  \<^item> \<open>Capture\<close> (\<open>fwknox-capture\<close>): the UDP backend over any kernel socket (\<open>udp_kernel\<close>).
  \<^item> \<open>Privsep\<close> (\<open>fwknox-privsep\<close>): messages, datagram IPC, both worker loops, worker handles.
  \<^item> \<open>Sandbox\<close> (\<open>fwknox-sandbox\<close>): capabilities, user switch, Landlock, seccomp, in a monad of
    system calls that can fail or panic; \<open>linux_process\<close> states what capabilities(7) documents.
    The panic hook of the workers is a function of the panic to how the process ends.
  \<^item> \<open>Pipeline\<close> (\<open>matcher.rs\<close>, \<open>pipeline.rs\<close>): \<open>process_packet\<close> against the specification
    \<open>authorised\<close>, which says when a packet may have which rule.
  \<^item> \<open>Privsep_Run\<close> (\<open>privsep_run.rs\<close>, \<open>validate.rs\<close>): the three processes and, as the step relation
    \<open>system_step\<close>, every interleaving of them. Shown: no reachable state opens more than was
    authorised for a packet that passed the limiter, and validator and parent together agree
    with the single-process pipeline; the workers touch packets only inside their sandbox.
  \<^item> \<open>Freshness\<close>: clock check and replay cache together, over any sequence of actions of either
    mode: a packet is acted on at most once if the retention covers the validity, and a valid
    configuration where it does not.
  \<^item> \<open>Daemon_Run\<close> (\<open>run.rs\<close>, \<open>shutdown.rs\<close>, \<open>bin/fwknoxd.rs\<close>, \<open>bin/fwknoxd-mock.rs\<close>): the main loop and
    the start-up. Shown: when it returns, what it opens, what a restart still knows, how the
    death of a worker ends the daemon, and that starting as root with the sandbox fails.
  \<^item> \<open>Gate\<close>: what the daemon as a whole promises, as an abstract machine: a gate that remembers
    nonces and opens a pair of source and port only by granting an authorised packet whose nonce
    it does not remember (\<open>gate_step\<close>). Shown, by forward simulation: the three processes under
    every interleaving, and the single-process loop, refine it.
  \<^item> \<open>Expiry\<close>: time in the kernel. \<open>timed_kernel\<close> extends \<open>nft_kernel\<close> by a clock and a deadline for
    every element, \<open>timed_firewall\<close> extends \<open>firewall_contract\<close>, and the nftables backend implements
    the second over the first. Shown: in both modes an opened pair closes again within the timeout
    of its rule, unless that timeout is below one second, for which a counterexample is given.
  \<^item> \<open>Recovery\<close>: the file of the replay cache in every reachable state. Shown: whenever the daemon
    crashes, the next start rejects every nonce it knew.
  \<^item> \<open>Delivery\<close>: what becomes of a packet between the three processes. Shown: under every
    interleaving they act like a sequential server (\<open>serves\<close>) that handles the packets in the
    order in which they passed the limiter, without loss while both workers run; and no
    packet gets stuck between them.
  \<^item> \<open>Flood\<close>: the work that packets from any number of sources can cause, by an amortised analysis
    (locale \<open>amortised\<close>) over both tiers of the limiter. Shown: the number of packets handled by
    the single-process loop, and forwarded by the capture worker, within a span of time.
  \<^item> \<open>Client\<close> (\<open>fwknox-client\<close>): the whole client; its request is granted by a daemon that should.

  \<^bold>\<open>Conventions.\<close> A \<open>Result\<close> is a sum (\<open>Err\<close>, \<open>Ok\<close>), a panic is \<open>None\<close> or \<open>Panicked\<close>. Machine
  integers are words of their width, durations and instants are nanoseconds. Shared state behind
  a mutex is passed explicitly; a poisoned lock of the limiter is a flag of its state. Formatted
  error texts are constructors that carry the values they are formatted from. Every reading of a
  clock, every outcome of a system call and every signal is an argument. Loops that run until a
  signal recurse over the list of their per-iteration inputs; a list that ends before the loop
  does gives \<open>None\<close> or \<open>Running\<close>, and the termination theorems say for which inputs the loops
  return. No other fuel or bound is used. Third-party code is a record of operations whose
  documented laws are the assumptions of a locale; each locale is interpreted on a definition.

  \<^bold>\<open>Not modelled.\<close> Log lines, except the outcome of a handled packet, and the set-up of the log
  subscriber: they have no effect. The text of formatted errors. \<open>clap\<close>, \<open>serde\<close>/\<open>toml\<close> parsing,
  cryptography, the nftables JSON schema and the kernel: third-party code, parameters.
  \<open>debug_assert_sigterm_unmasked\<close>, which release builds do not have. \<open>make_socketpair\<close>, one system
  call whose outcome is an input of \<open>privsep_run\<close>, and the poll intervals, which only the outcome
  of a receive depends on. Flow label and scope of an IPv6 socket address: never set by the
  program. Real concurrency inside one process: the daemon has one thread per process, and the
  signal handler only sets the shutdown flag, which is an input of each iteration. Tests, benches
  and packaging.
\<close>

end
